(* ===== verification/Prelude.thy ===== *)
theory Prelude
  imports Main "HOL-Library.Word"
begin

text \<open>
  Shared ground of the development: names for the machine types of the C++ code, the faults
  with which an operation can end instead of returning, the little-endian byte codec, byte
  swapping (\<open>htons\<close>, \<open>htonl\<close>), and generic facts on words and lists that the components use.

  The program is compiled for x86-64 Linux: \<open>size_t\<close> has 64 bits, \<open>unsigned int\<close> 32, integers
  are stored with the least significant byte first, unsigned arithmetic wraps. Every integer is
  kept at its width as a word; conversions between widths are written out as \<open>ucast\<close>.
\<close>

unbundle bit_operations_syntax

section \<open>Machine types\<close>

type_synonym u8 = "8 word"
type_synonym u16 = "16 word"
type_synonym u32 = "32 word"
type_synonym u64 = "64 word"

text \<open>\<open>size_t\<close> of the target.\<close>
type_synonym size_t = u64

section \<open>Faults\<close>

text \<open>
  The ways an operation can end without returning: a C++ exception of the program, a failed
  \<open>assert\<close>, a call of \<open>abort\<close>, undefined behaviour (a division by zero, an access outside an
  array), and a loop that does not end. An operation that can fail returns a \<open>fault + 'a\<close>.
\<close>

datatype fault =
    MemoryNotAvailable
  | DeviceIOError string
  | RuntimeError string
  | AssertFailed
  | Aborted
  | UndefinedBehaviour
  | Diverges

section \<open>Collections of facts\<close>

named_theorems word_nat \<open>word operations read as natural numbers\<close>
named_theorems codec \<open>byte encodings and their inverses\<close>

section \<open>Words\<close>

lemma unat_sub_le [word_nat]: "y \<le> x \<Longrightarrow> unat (x - y) = unat x - unat y"
  for x y :: "'a::len word"
  by (rule unat_sub)

lemma unat_add_lt [word_nat]:
  "unat x + unat y < 2 ^ LENGTH('a) \<Longrightarrow> unat (x + y) = unat x + unat y"
  for x y :: "'a::len word"
  by (simp add: unat_word_ariths)

lemma unat_of_nat_lt [word_nat]: "n < 2 ^ LENGTH('a) \<Longrightarrow> unat (of_nat n :: 'a::len word) = n"
  by (simp add: unat_of_nat take_bit_nat_eq_self)

lemma unat_ucast_mod: "unat (ucast x :: 'b::len word) = unat x mod 2 ^ LENGTH('b)"
  for x :: "'a::len word"
  by (simp add: unsigned_ucast_eq take_bit_eq_mod)

lemma unat_lt_exp [simp]: "unat x < 2 ^ LENGTH('a)" for x :: "'a::len word"
  by (fact unsigned_less)

lemma unat_ucast_up [word_nat]:
  "LENGTH('a) \<le> LENGTH('b) \<Longrightarrow> unat (ucast x :: 'b::len word) = unat x" for x :: "'a::len word"
proof -
  assume le: "LENGTH('a) \<le> LENGTH('b)"
  have "unat x < 2 ^ LENGTH('a)" by (rule unat_lt_exp)
  also have "\<dots> \<le> 2 ^ LENGTH('b)" using le by simp
  finally show ?thesis by (simp add: unat_ucast_mod)
qed

lemma unat_of_nat_le [word_nat]: "n \<le> unat c \<Longrightarrow> unat (of_nat n :: 'a word) = n"
  for c :: "'a::len word"
  by (rule unat_of_nat_lt) (rule le_less_trans [OF _ unat_lt_exp])

lemma unat_u16_lt [simp]: "unat (x :: u16) < 65536"
  using unat_lt_exp [of x] by simp

lemma unat_u32_lt [simp]: "unat (x :: u32) < 4294967296"
  using unat_lt_exp [of x] by simp

lemma unat_u64_lt [simp]: "unat (x :: u64) < 18446744073709551616"
  using unat_lt_exp [of x] by simp

lemma unat_and_mask [word_nat]: "unat (x AND mask k) = unat x mod 2 ^ k" for x :: "'a::len word"
proof -
  have "unat (take_bit k x) = take_bit k (unat x)" by (rule unsigned_take_bit_eq)
  then show ?thesis by (simp only: take_bit_eq_mask [symmetric] take_bit_eq_mod [where 'a = nat])
qed

lemma mask_pow2: "(2 :: 'a::len word) ^ k - 1 = mask k"
  by (simp add: mask_eq_exp_minus_1)

section \<open>Little-endian bytes\<close>

text \<open>The \<open>n\<close> bytes at which an integer is stored, and the integer that bytes store.\<close>

primrec le_bytes :: "nat \<Rightarrow> 'a::len word \<Rightarrow> u8 list" where
  "le_bytes 0 w = []"
| "le_bytes (Suc n) w = ucast w # le_bytes n (drop_bit 8 w)"

primrec of_le :: "u8 list \<Rightarrow> 'a::len word" where
  "of_le [] = 0"
| "of_le (b # bs) = ucast b OR push_bit 8 (of_le bs)"

lemma length_le_bytes [simp, codec]: "length (le_bytes n w) = n"
  by (induction n arbitrary: w) auto

lemma le_bytes_Nil [simp]: "le_bytes n w = [] \<longleftrightarrow> n = 0"
  by (cases n) simp_all

lemma of_le_le_bytes [codec]: "of_le (le_bytes n w) = take_bit (8 * n) w" for w :: "'a::len word"
proof (induction n arbitrary: w)
  case 0
  then show ?case by simp
next
  case (Suc n)
  have "ucast (ucast w :: u8) OR push_bit 8 (take_bit (8 * n) (drop_bit 8 w)) = take_bit (8 * Suc n) w"
    by (rule bit_word_eqI) (auto simp: bit_simps not_less)
  then show ?case by (simp add: Suc)
qed

lemma le_bytes_take_bit: "8 * n \<le> m \<Longrightarrow> le_bytes n (take_bit m w) = le_bytes n w"
  for w :: "'a::len word"
proof (induction n arbitrary: m w)
  case 0
  then show ?case by simp
next
  case (Suc n)
  have "ucast (take_bit m w) = (ucast w :: u8)"
    using Suc.prems by (intro bit_word_eqI) (auto simp: bit_simps)
  moreover have "drop_bit 8 (take_bit m w) = take_bit (m - 8) (drop_bit 8 w)"
    by (simp add: drop_bit_take_bit)
  moreover have "8 * n \<le> m - 8" using Suc.prems by simp
  ultimately show ?case using Suc.IH [of "m - 8" "drop_bit 8 w"] by simp
qed

lemma le_bytes_of_le [codec]:
  "8 * length bs \<le> LENGTH('a) \<Longrightarrow> le_bytes (length bs) (of_le bs :: 'a::len word) = bs"
proof (induction bs)
  case Nil
  then show ?case by simp
next
  case (Cons b bs)
  have lo: "ucast (ucast b OR push_bit 8 (of_le bs :: 'a word)) = b"
    using Cons.prems by (intro bit_word_eqI) (auto simp: bit_simps)
  have hi: "drop_bit 8 (ucast b OR push_bit 8 (of_le bs :: 'a word)) =
      take_bit (LENGTH('a) - 8) (of_le bs)"
    by (rule bit_word_eqI) (auto simp: bit_simps dest: bit_imp_le_length)
  have "8 * length bs \<le> LENGTH('a) - 8" using Cons.prems by simp
  then show ?case using Cons lo hi by (simp add: le_bytes_take_bit)
qed

section \<open>Parts of byte lists\<close>

text \<open>\<open>slice\<close> reads \<open>n\<close> elements at an offset, \<open>patch\<close> overwrites as many as it is given.\<close>

definition slice :: "nat \<Rightarrow> nat \<Rightarrow> 'a list \<Rightarrow> 'a list" where
  "slice off n xs = take n (drop off xs)"

definition patch :: "nat \<Rightarrow> 'a list \<Rightarrow> 'a list \<Rightarrow> 'a list" where
  "patch off bs xs = take off xs @ bs @ drop (off + length bs) xs"

lemma length_slice [simp]: "off + n \<le> length xs \<Longrightarrow> length (slice off n xs) = n"
  by (simp add: slice_def)

lemma length_patch [simp]: "off + length bs \<le> length xs \<Longrightarrow> length (patch off bs xs) = length xs"
  by (simp add: patch_def)

lemma nth_slice [simp]: "off + n \<le> length xs \<Longrightarrow> i < n \<Longrightarrow> slice off n xs ! i = xs ! (off + i)"
  by (simp add: slice_def)

lemma nth_patch:
  "off + length bs \<le> length xs \<Longrightarrow> i < length xs \<Longrightarrow>
   patch off bs xs ! i = (if off \<le> i \<and> i < off + length bs then bs ! (i - off) else xs ! i)"
  by (auto simp: patch_def nth_append)

lemma slice_patch [codec]:
  "off + length bs \<le> length xs \<Longrightarrow> n = length bs \<Longrightarrow> slice off n (patch off bs xs) = bs"
  by (simp add: slice_def patch_def)

lemma slice_patch_other [codec]:
  "off + length bs \<le> length xs \<Longrightarrow> k + n \<le> length xs \<Longrightarrow> off + length bs \<le> k \<or> k + n \<le> off \<Longrightarrow>
   slice k n (patch off bs xs) = slice k n xs"
  by (rule nth_equalityI) (auto simp: nth_patch)

section \<open>Network byte order\<close>

text \<open>\<open>htons\<close> and \<open>htonl\<close> of a little-endian host reverse the bytes; so do \<open>ntohs\<close> and \<open>ntohl\<close>.\<close>

definition htons :: "u16 \<Rightarrow> u16" where
  "htons w = of_le (rev (le_bytes 2 w))"

definition ntohs :: "u16 \<Rightarrow> u16" where
  "ntohs w = htons w"

definition htonl :: "u32 \<Rightarrow> u32" where
  "htonl w = of_le (rev (le_bytes 4 w))"

lemma le_bytes_htons [codec]: "le_bytes 2 (htons w) = rev (le_bytes 2 w)"
  using le_bytes_of_le [of "rev (le_bytes 2 w)", where 'a = 16] by (simp add: htons_def)

lemma le_bytes_htonl [codec]: "le_bytes 4 (htonl w) = rev (le_bytes 4 w)"
  using le_bytes_of_le [of "rev (le_bytes 4 w)", where 'a = 32] by (simp add: htonl_def)

lemma take_bit_full: "LENGTH('a) \<le> n \<Longrightarrow> take_bit n w = w" for w :: "'a::len word"
  by (rule bit_word_eqI) (auto simp: bit_simps)

lemma of_le_le_bytes_full [simp]: "8 * n = LENGTH('a) \<Longrightarrow> of_le (le_bytes n w) = w"
  for w :: "'a::len word"
  by (simp add: of_le_le_bytes take_bit_full)

lemma ntohs_htons [simp]: "ntohs (htons w) = w"
  by (simp add: ntohs_def htons_def [of "htons w"] le_bytes_htons)

section \<open>Sequencing of operations that can fail\<close>

definition bindE :: "'e + 'a \<Rightarrow> ('a \<Rightarrow> 'e + 'b) \<Rightarrow> 'e + 'b" where
  "bindE m f = (case m of Inl e \<Rightarrow> Inl e | Inr x \<Rightarrow> f x)"

lemma bindE_simps [simp]: "bindE (Inl e) f = Inl e" "bindE (Inr x) f = f x"
  by (simp_all add: bindE_def)

lemma bindE_Inr_iff: "bindE m f = Inr y \<longleftrightarrow> (\<exists>x. m = Inr x \<and> f x = Inr y)"
  by (cases m) simp_all

lemma bindE_cong [fundef_cong]: "m = m' \<Longrightarrow> (\<And>x. m' = Inr x \<Longrightarrow> f x = g x) \<Longrightarrow> bindE m f = bindE m' g"
  by (cases m') simp_all

lemma bindE_assoc: "bindE (bindE m f) g = bindE m (\<lambda>x. bindE (f x) g)"
  by (cases m) simp_all

lemma map_sum_Inr_iff: "map_sum f g x = Inr y \<longleftrightarrow> (\<exists>z. x = Inr z \<and> y = g z)"
  by (cases x) auto

primrec foldE :: "('x \<Rightarrow> 's \<Rightarrow> 'e + 's) \<Rightarrow> 'x list \<Rightarrow> 's \<Rightarrow> 'e + 's" where
  "foldE f [] s = Inr s"
| "foldE f (x # xs) s = bindE (f x s) (foldE f xs)"

lemma foldE_append: "foldE f (xs @ ys) s = bindE (foldE f xs s) (foldE f ys)"
  by (induction xs arbitrary: s) (simp_all add: bindE_assoc fun_eq_iff cong: bindE_cong)

end
