(* ===== verification/Ringbuffer.thy ===== *)
theory Ringbuffer
  imports Prelude
begin

text \<open>
  The single-producer single-consumer ring buffer of \<^verbatim>\<open>ringbuffer.h\<close>
  (\<open>jnk0le::Ringbuffer\<close>), at its instance with \<open>index_t = size_t\<close>: two free-running 64-bit
  indexes \<open>head\<close> and \<open>tail\<close> that wrap around, and an array of \<open>buffer_size\<close> slots addressed by
  the low bits of the index. First every operation as the code writes it, then the abstraction to
  the list of buffered elements (\<open>rb_elems\<close>), the invariant (\<open>rb_ok\<close>: the size is a power of two,
  never more elements than slots), the refinement of each operation, the interface \<open>fifo\<close> on
  which the receive thread rests, and the interleaving of one producer with one consumer.
\<close>

section \<open>State and operations\<close>

record 'a ringbuffer =
  rb_head :: u64
  rb_tail :: u64
  data_buff :: "'a list"

definition buffer_size :: "'a ringbuffer \<Rightarrow> size_t" where
  "buffer_size r = of_nat (length (data_buff r))"

definition buffer_mask :: "'a ringbuffer \<Rightarrow> u64" where
  "buffer_mask r = buffer_size r - 1"

text \<open>\<open>data_buff\<close> is not initialised by the constructor: its contents are an argument.\<close>

definition Ringbuffer :: "'a list \<Rightarrow> 'a ringbuffer" where
  "Ringbuffer raw = \<lparr>rb_head = 0, rb_tail = 0, data_buff = raw\<rparr>"

definition consumerClear :: "'a ringbuffer \<Rightarrow> 'a ringbuffer" where
  "consumerClear r = r\<lparr>rb_tail := rb_head r\<rparr>"

definition producerClear :: "'a ringbuffer \<Rightarrow> 'a ringbuffer" where
  "producerClear r = consumerClear r"

definition readAvailable :: "'a ringbuffer \<Rightarrow> u64" where
  "readAvailable r = rb_head r - rb_tail r"

definition writeAvailable :: "'a ringbuffer \<Rightarrow> u64" where
  "writeAvailable r = buffer_size r - (rb_head r - rb_tail r)"

definition isEmpty :: "'a ringbuffer \<Rightarrow> bool" where
  "isEmpty r \<longleftrightarrow> readAvailable r = 0"

definition isFull :: "'a ringbuffer \<Rightarrow> bool" where
  "isFull r \<longleftrightarrow> writeAvailable r = 0"

text \<open>The array index of \<open>data_buff[i & buffer_mask]\<close>.\<close>

definition slot :: "'a ringbuffer \<Rightarrow> u64 \<Rightarrow> nat" where
  "slot r i = unat (i AND buffer_mask r)"

text \<open>\<open>data_buff[tmp_head++ & buffer_mask] = data; head.store(tmp_head)\<close>\<close>

definition rb_push :: "'a \<Rightarrow> 'a ringbuffer \<Rightarrow> 'a ringbuffer" where
  "rb_push x r = r\<lparr>data_buff := (data_buff r)[slot r (rb_head r) := x], rb_head := rb_head r + 1\<rparr>"

definition rb_insert :: "'a \<Rightarrow> 'a ringbuffer \<Rightarrow> bool \<times> 'a ringbuffer" where
  "rb_insert x r =
     (if rb_head r - rb_tail r = buffer_size r then (False, r) else (True, rb_push x r))"

text \<open>The callback runs only when there is room; it acts on a state of its own.\<close>

definition insertFromCallbackWhenAvailable ::
    "('s \<Rightarrow> 'a \<times> 's) \<Rightarrow> 'a ringbuffer \<times> 's \<Rightarrow> bool \<times> 'a ringbuffer \<times> 's" where
  "insertFromCallbackWhenAvailable cb = (\<lambda>(r, s).
     if rb_head r - rb_tail r = buffer_size r then (False, r, s)
     else let (x, s') = cb s in (True, rb_push x r, s'))"

definition remove_drop :: "'a ringbuffer \<Rightarrow> bool \<times> 'a ringbuffer" where
  "remove_drop r =
     (if rb_tail r = rb_head r then (False, r) else (True, r\<lparr>rb_tail := rb_tail r + 1\<rparr>))"

definition remove_count :: "size_t \<Rightarrow> 'a ringbuffer \<Rightarrow> size_t \<times> 'a ringbuffer" where
  "remove_count cnt r =
     (let avail = rb_head r - rb_tail r;
          cnt' = (if cnt > avail then avail else cnt)
      in (cnt', r\<lparr>rb_tail := rb_tail r + cnt'\<rparr>))"

text \<open>\<open>remove(T*)\<close>: the element stored through the pointer, \<open>None\<close> when it returns false.\<close>

definition remove_elem :: "'a ringbuffer \<Rightarrow> 'a option \<times> 'a ringbuffer" where
  "remove_elem r =
     (if rb_tail r = rb_head r then (None, r)
      else (Some (data_buff r ! slot r (rb_tail r)), r\<lparr>rb_tail := rb_tail r + 1\<rparr>))"

text \<open>\<open>peek\<close>, \<open>at\<close>, \<open>operator[]\<close>: a pointer into the buffer is the index of its slot.\<close>

definition peek :: "'a ringbuffer \<Rightarrow> nat option" where
  "peek r = (if rb_tail r = rb_head r then None else Some (slot r (rb_tail r)))"

definition rb_at :: "size_t \<Rightarrow> 'a ringbuffer \<Rightarrow> nat option" where
  "rb_at index r =
     (if rb_head r - rb_tail r \<le> index then None else Some (slot r (rb_tail r + index)))"

definition rb_index :: "size_t \<Rightarrow> 'a ringbuffer \<Rightarrow> nat" where
  "rb_index index r = slot r (rb_tail r + index)"

text \<open>The copying loops: \<open>tmp_head\<close> (\<open>tmp_tail\<close>) and the buffer are the state of the loop.\<close>

primrec store_loop :: "u64 \<Rightarrow> 'a list \<Rightarrow> u64 \<times> 'a list \<Rightarrow> u64 \<times> 'a list" where
  "store_loop msk [] st = st"
| "store_loop msk (x # xs) st =
     store_loop msk xs (fst st + 1, (snd st)[unat (fst st AND msk) := x])"

primrec load_loop :: "u64 \<Rightarrow> 'a list \<Rightarrow> nat \<Rightarrow> u64 \<Rightarrow> 'a list \<times> u64" where
  "load_loop msk d 0 t = ([], t)"
| "load_loop msk d (Suc n) t =
     (let (xs, t') = load_loop msk d n (t + 1) in (d ! unat (t AND msk) # xs, t'))"

text \<open>
  \<open>writeBuff(buff, count)\<close>: \<open>buff\<close> holds at least \<open>count\<close> elements. Result: the number written.
\<close>

definition writeBuff :: "'a list \<Rightarrow> size_t \<Rightarrow> 'a ringbuffer \<Rightarrow> size_t \<times> 'a ringbuffer" where
  "writeBuff buff count r =
     (let tmp_head = rb_head r;
          available = buffer_size r - (tmp_head - rb_tail r);
          to_write = (if available < count then available else count);
          (h, d) = store_loop (buffer_mask r) (take (unat to_write) buff) (tmp_head, data_buff r)
      in (to_write, r\<lparr>data_buff := d, rb_head := h\<rparr>))"

text \<open>\<open>readBuff(buff, count)\<close>: the elements stored to \<open>buff\<close>; their number is the result.\<close>

definition readBuff :: "size_t \<Rightarrow> 'a ringbuffer \<Rightarrow> 'a list \<times> 'a ringbuffer" where
  "readBuff count r =
     (let tmp_tail = rb_tail r;
          available = rb_head r - tmp_tail;
          to_read = (if available < count then available else count);
          (xs, t) = load_loop (buffer_mask r) (data_buff r) (unat to_read) tmp_tail
      in (xs, r\<lparr>rb_tail := t\<rparr>))"

text \<open>
  The variants with a callback, which runs after every batch (\<open>None\<close>: a null pointer). The
  callback is the other side's chance to act on the buffer: it maps the buffer and a state of its
  own. The outer loop ends when everything is copied or no slot (element) is left; a loop that
  never ends is \<open>None\<close>.
\<close>

definition run_callback ::
    "('a ringbuffer \<times> 's \<Rightarrow> 'a ringbuffer \<times> 's) option \<Rightarrow> 'a ringbuffer \<times> 's \<Rightarrow> 'a ringbuffer \<times> 's" where
  "run_callback cb rs = (case cb of None \<Rightarrow> rs | Some f \<Rightarrow> f rs)"

partial_function (option) write_cb_loop ::
    "('a ringbuffer \<times> 's \<Rightarrow> 'a ringbuffer \<times> 's) option \<Rightarrow> 'a list \<Rightarrow> size_t \<Rightarrow> size_t \<Rightarrow> size_t \<Rightarrow> u64 \<Rightarrow>
     'a ringbuffer \<times> 's \<Rightarrow> (size_t \<times> 'a ringbuffer \<times> 's) option" where
  "write_cb_loop cb buff count to_write written tmp_head rs =
     (if written < count then
        let r = fst rs;
            available = buffer_size r - (tmp_head - rb_tail r)
        in if available = 0 then Some (written, rs)
           else
             let n = (if to_write > available then available else to_write);
                 hd = store_loop (buffer_mask r) (take (unat n) (drop (unat written) buff))
                        (tmp_head, data_buff r)
             in write_cb_loop cb buff count (count - (written + n)) (written + n) (fst hd)
                  (run_callback cb (r\<lparr>data_buff := snd hd, rb_head := fst hd\<rparr>, snd rs))
      else Some (written, rs))"

declare write_cb_loop.simps [code]

definition writeBuff_cb ::
    "('a ringbuffer \<times> 's \<Rightarrow> 'a ringbuffer \<times> 's) option \<Rightarrow> size_t \<Rightarrow> 'a list \<Rightarrow> size_t \<Rightarrow>
     'a ringbuffer \<times> 's \<Rightarrow> (size_t \<times> 'a ringbuffer \<times> 's) option" where
  "writeBuff_cb cb count_to_callback buff count rs =
     write_cb_loop cb buff count
       (if count_to_callback \<noteq> 0 \<and> count_to_callback < count then count_to_callback else count)
       0 (rb_head (fst rs)) rs"

partial_function (option) read_cb_loop ::
    "('a ringbuffer \<times> 's \<Rightarrow> 'a ringbuffer \<times> 's) option \<Rightarrow> size_t \<Rightarrow> size_t \<Rightarrow> 'a list \<Rightarrow> u64 \<Rightarrow>
     'a ringbuffer \<times> 's \<Rightarrow> ('a list \<times> 'a ringbuffer \<times> 's) option" where
  "read_cb_loop cb count to_read out tmp_tail rs =
     (if of_nat (length out) < count then
        let r = fst rs;
            available = rb_head r - tmp_tail
        in if available = 0 then Some (out, rs)
           else
             let n = (if to_read > available then available else to_read);
                 xt = load_loop (buffer_mask r) (data_buff r) (unat n) tmp_tail
             in read_cb_loop cb count (count - of_nat (length (out @ fst xt))) (out @ fst xt) (snd xt)
                  (run_callback cb (r\<lparr>rb_tail := snd xt\<rparr>, snd rs))
      else Some (out, rs))"

declare read_cb_loop.simps [code]

definition readBuff_cb ::
    "('a ringbuffer \<times> 's \<Rightarrow> 'a ringbuffer \<times> 's) option \<Rightarrow> size_t \<Rightarrow> size_t \<Rightarrow>
     'a ringbuffer \<times> 's \<Rightarrow> ('a list \<times> 'a ringbuffer \<times> 's) option" where
  "readBuff_cb cb count_to_callback count rs =
     read_cb_loop cb count
       (if count_to_callback \<noteq> 0 \<and> count_to_callback < count then count_to_callback else count)
       [] (rb_tail (fst rs)) rs"

section \<open>Abstraction and invariant\<close>

definition rb_count :: "'a ringbuffer \<Rightarrow> nat" where
  "rb_count r = unat (rb_head r - rb_tail r)"

text \<open>The buffered elements, oldest first.\<close>

definition rb_elems :: "'a ringbuffer \<Rightarrow> 'a list" where
  "rb_elems r = map (\<lambda>i. data_buff r ! slot r (rb_tail r + of_nat i)) [0..<rb_count r]"

definition rb_capacity :: "'a ringbuffer \<Rightarrow> nat" where
  "rb_capacity r = length (data_buff r)"

text \<open>
  The static assertions of the class (the size is a power of two that leaves the top bit of the
  index free) and the bound that the operations keep.
\<close>

definition rb_size_ok :: "'a ringbuffer \<Rightarrow> bool" where
  "rb_size_ok r \<longleftrightarrow> (\<exists>k \<le> 63. length (data_buff r) = 2 ^ k)"

definition rb_ok :: "'a ringbuffer \<Rightarrow> bool" where
  "rb_ok r \<longleftrightarrow> rb_size_ok r \<and> rb_count r \<le> rb_capacity r"

lemma length_rb_elems [simp]: "length (rb_elems r) = rb_count r"
  by (simp add: rb_elems_def)

lemma nth_rb_elems: "i < rb_count r \<Longrightarrow> rb_elems r ! i = data_buff r ! slot r (rb_tail r + of_nat i)"
  by (simp add: rb_elems_def)

lemma rb_capacity_bound:
  assumes "rb_size_ok r"
  shows "0 < rb_capacity r \<and> rb_capacity r \<le> 2 ^ 63"
proof -
  obtain k where k: "k \<le> 63" "length (data_buff r) = 2 ^ k"
    using assms by (auto simp: rb_size_ok_def)
  then have "(2 :: nat) ^ k \<le> 2 ^ 63" by (intro power_increasing) auto
  with k show ?thesis by (simp add: rb_capacity_def)
qed

lemma unat_buffer_size: "rb_size_ok r \<Longrightarrow> unat (buffer_size r) = rb_capacity r"
  using rb_capacity_bound [of r] by (simp add: buffer_size_def rb_capacity_def unat_of_nat_lt)

lemma slot_mod:
  assumes "rb_size_ok r"
  shows "slot r i = unat i mod rb_capacity r"
proof -
  obtain k where k: "k \<le> 63" "length (data_buff r) = 2 ^ k"
    using assms by (auto simp: rb_size_ok_def)
  then have "buffer_mask r = mask k"
    by (simp add: buffer_mask_def buffer_size_def mask_pow2)
  with k show ?thesis by (simp add: slot_def unat_and_mask rb_capacity_def)
qed

text \<open>Wrapping the index around \<open>2 ^ 64\<close> does not move its slot.\<close>

lemma slot_add:
  assumes "rb_size_ok r"
  shows "slot r (t + of_nat i) = (unat t + i) mod rb_capacity r"
proof -
  obtain k where k: "k \<le> 63" "rb_capacity r = 2 ^ k"
    using assms by (auto simp: rb_size_ok_def rb_capacity_def)
  have "rb_capacity r dvd 2 ^ 64" using k le_imp_power_dvd [of k 64 "2 :: nat"] by simp
  moreover have "unat (t + of_nat i) = (unat t + i) mod 2 ^ 64"
    by (simp add: unat_word_ariths unat_of_nat take_bit_eq_mod mod_add_right_eq)
  ultimately show ?thesis using assms by (simp add: slot_mod mod_mod_cancel)
qed

lemma mod_window_inj:
  fixes a i j n :: nat
  assumes "i < n" "j < n" "(a + i) mod n = (a + j) mod n"
  shows "i = j"
proof (rule ccontr)
  assume "i \<noteq> j"
  have "\<bar>int i - int j\<bar> < int n" using assms(1,2) by linarith
  moreover have "int n dvd int i - int j"
    using assms(3) by (metis add_diff_cancel_left mod_eq_dvd_iff of_nat_add zmod_int)
  ultimately have "int i - int j = 0" by (metis abs_of_nat dvd_imp_le_int not_less)
  with \<open>i \<noteq> j\<close> show False by simp
qed

lemma slot_lt: "rb_size_ok r \<Longrightarrow> slot r i < length (data_buff r)"
  using rb_capacity_bound [of r] by (simp add: slot_mod) (simp add: rb_capacity_def)

lemma head_as_tail_plus: "rb_head r = rb_tail r + of_nat (rb_count r)"
  by (simp add: rb_count_def)

section \<open>One element in, one element out\<close>

lemma rb_push_sel [simp]:
  "rb_head (rb_push x r) = rb_head r + 1"
  "rb_tail (rb_push x r) = rb_tail r"
  "rb_capacity (rb_push x r) = rb_capacity r"
  "rb_size_ok (rb_push x r) = rb_size_ok r"
  "slot (rb_push x r) = slot r"
  "buffer_size (rb_push x r) = buffer_size r"
  "buffer_mask (rb_push x r) = buffer_mask r"
  "data_buff (rb_push x r) = (data_buff r)[slot r (rb_head r) := x]"
  by (simp_all add: rb_push_def rb_capacity_def rb_size_ok_def slot_def buffer_mask_def
      buffer_size_def fun_eq_iff)

lemma rb_count_push:
  "rb_size_ok r \<Longrightarrow> rb_count r < rb_capacity r \<Longrightarrow> rb_count (rb_push x r) = Suc (rb_count r)"
proof -
  assume ok: "rb_size_ok r" and lt: "rb_count r < rb_capacity r"
  have "unat (rb_head r - rb_tail r) + unat (1 :: u64) < 2 ^ LENGTH(64)"
    using lt rb_capacity_bound [OF ok] by (simp add: rb_count_def)
  then have "unat (rb_head r - rb_tail r + 1) = Suc (rb_count r)"
    by (subst unat_add_lt) (simp_all add: rb_count_def)
  then show ?thesis by (simp add: rb_count_def algebra_simps)
qed

lemma rb_elems_push:
  assumes "rb_size_ok r" "rb_count r < rb_capacity r"
  shows "rb_elems (rb_push x r) = rb_elems r @ [x]"
proof -
  have other: "slot r (rb_head r) \<noteq> slot r (rb_tail r + of_nat i)" if "i < rb_count r" for i
    using that assms mod_window_inj [of i "rb_capacity r" "rb_count r" "unat (rb_tail r)"]
    by (subst head_as_tail_plus) (auto simp: slot_add)
  have last: "(data_buff r)[slot r (rb_head r) := x] ! slot r (rb_tail r + of_nat (rb_count r)) = x"
    using slot_lt [OF assms(1)] by (simp add: head_as_tail_plus [symmetric])
  show ?thesis
    unfolding rb_elems_def rb_count_push [OF assms] using other last by simp
qed

lemma rb_ok_push: "rb_ok r \<Longrightarrow> rb_count r < rb_capacity r \<Longrightarrow> rb_ok (rb_push x r)"
  by (simp add: rb_ok_def rb_count_push)

lemma rb_advance_sel [simp]:
  "slot (r\<lparr>rb_tail := t\<rparr>) = slot r"
  "rb_capacity (r\<lparr>rb_tail := t\<rparr>) = rb_capacity r"
  "rb_size_ok (r\<lparr>rb_tail := t\<rparr>) = rb_size_ok r"
  by (simp_all add: slot_def buffer_mask_def buffer_size_def rb_capacity_def rb_size_ok_def fun_eq_iff)

lemma rb_count_advance:
  assumes "n \<le> rb_count r"
  shows "rb_count (r\<lparr>rb_tail := rb_tail r + of_nat n\<rparr>) = rb_count r - n"
proof -
  have "n < 2 ^ LENGTH(64)"
    using assms unat_lt_exp [of "rb_head r - rb_tail r"] unfolding rb_count_def by (rule le_less_trans)
  then have un: "unat (of_nat n :: u64) = n" by (rule unat_of_nat_lt)
  then have "unat (rb_head r - rb_tail r - of_nat n) = rb_count r - n"
    using assms by (subst unat_sub_le) (simp_all add: word_le_nat_alt rb_count_def)
  then show ?thesis by (simp add: rb_count_def algebra_simps)
qed

lemma rb_elems_advance:
  assumes "n \<le> rb_count r"
  shows "rb_elems (r\<lparr>rb_tail := rb_tail r + of_nat n\<rparr>) = drop n (rb_elems r)"
  using assms
  by (intro nth_equalityI) (simp_all add: rb_count_advance nth_rb_elems add.assoc less_diff_conv2)

lemma rb_ok_advance:
  "rb_ok r \<Longrightarrow> n \<le> rb_count r \<Longrightarrow> rb_ok (r\<lparr>rb_tail := rb_tail r + of_nat n\<rparr>)"
  by (auto simp: rb_ok_def rb_count_advance)

section \<open>Copying runs of elements\<close>

lemma store_loop_push:
  "store_loop (buffer_mask r) xs (rb_head r, data_buff r) =
     (rb_head (fold rb_push xs r), data_buff (fold rb_push xs r))"
proof (induction xs arbitrary: r)
  case Nil
  then show ?case by simp
next
  case (Cons x xs)
  from Cons.IH [of "rb_push x r"] show ?case by (simp add: slot_def)
qed

lemma fold_push_sel [simp]:
  "rb_tail (fold rb_push xs r) = rb_tail r"
  "rb_capacity (fold rb_push xs r) = rb_capacity r"
  "rb_size_ok (fold rb_push xs r) = rb_size_ok r"
  by (induction xs arbitrary: r) auto

lemma fold_push_update [simp]:
  "r\<lparr>data_buff := data_buff (fold rb_push xs r), rb_head := rb_head (fold rb_push xs r)\<rparr> = fold rb_push xs r"
  by (rule ringbuffer.equality) simp_all

lemma rb_elems_fold_push:
  assumes "rb_size_ok r" "rb_count r + length xs \<le> rb_capacity r"
  shows "rb_elems (fold rb_push xs r) = rb_elems r @ xs"
  using assms
proof (induction xs arbitrary: r)
  case Nil
  then show ?case by simp
next
  case (Cons x xs)
  then have "rb_count r < rb_capacity r" by simp
  with Cons show ?case by (simp add: rb_count_push rb_elems_push)
qed

lemma rb_ok_fold_push:
  assumes "rb_ok r" "rb_count r + length xs \<le> rb_capacity r"
  shows "rb_ok (fold rb_push xs r)"
proof -
  have "rb_count (fold rb_push xs r) = rb_count r + length xs"
    using assms rb_elems_fold_push [of r xs] by (metis length_append length_rb_elems rb_ok_def)
  with assms show ?thesis by (simp add: rb_ok_def)
qed

lemma load_loop_eq:
  "load_loop msk d n t = (map (\<lambda>i. d ! unat ((t + of_nat i) AND msk)) [0..<n], t + of_nat n)"
proof (induction n arbitrary: t)
  case 0
  then show ?case by simp
next
  case (Suc n)
  have "[0..<Suc n] = 0 # map Suc [0..<n]" by (simp add: upt_conv_Cons map_Suc_upt)
  with Suc show ?case by (simp add: algebra_simps comp_def del: upt_Suc)
qed

lemma unat_write_space:
  assumes "rb_ok r"
  shows "unat (buffer_size r - (rb_head r - rb_tail r)) = rb_capacity r - rb_count r"
  using assms unat_buffer_size [of r]
  by (subst unat_sub_le) (simp_all add: rb_ok_def rb_count_def word_le_nat_alt)

lemma full_iff: "rb_ok r \<Longrightarrow> rb_head r - rb_tail r = buffer_size r \<longleftrightarrow> rb_count r = rb_capacity r"
  using unat_buffer_size [of r] by (simp add: rb_ok_def rb_count_def word_unat_eq_iff)

lemma empty_iff: "rb_tail r = rb_head r \<longleftrightarrow> rb_count r = 0"
  by (auto simp: rb_count_def unat_0_iff)

section \<open>Refinement of the operations\<close>

lemma readAvailable_count: "unat (readAvailable r) = rb_count r"
  by (simp add: readAvailable_def rb_count_def)

lemma writeAvailable_space: "rb_ok r \<Longrightarrow> unat (writeAvailable r) = rb_capacity r - rb_count r"
  by (simp add: writeAvailable_def unat_write_space)

lemma rb_ok_constructor: "length raw = 2 ^ k \<Longrightarrow> k \<le> 63 \<Longrightarrow> rb_ok (Ringbuffer raw)"
  by (auto simp: rb_ok_def rb_size_ok_def rb_count_def Ringbuffer_def)

lemma rb_elems_constructor: "rb_elems (Ringbuffer raw) = []"
  by (simp add: rb_elems_def rb_count_def Ringbuffer_def)

lemma rb_insert_refines:
  assumes "rb_ok r"
  shows "rb_insert x r =
     (if length (rb_elems r) = rb_capacity r then (False, r) else (True, rb_push x r))"
  using assms by (simp add: rb_insert_def full_iff)

lemma remove_elem_refines:
  "rb_elems r = [] \<Longrightarrow> remove_elem r = (None, r)"
  "rb_elems r = x # xs \<Longrightarrow>
     fst (remove_elem r) = Some x \<and> rb_elems (snd (remove_elem r)) = xs"
proof -
  assume "rb_elems r = []"
  then have "rb_count r = 0" by (metis length_rb_elems list.size(3))
  then show "remove_elem r = (None, r)" by (simp add: remove_elem_def empty_iff)
next
  assume xs: "rb_elems r = x # xs"
  then have n: "rb_count r = Suc (length xs)" by (metis length_rb_elems length_Cons)
  with nth_rb_elems [of 0 r] xs have "data_buff r ! slot r (rb_tail r) = x" by simp
  moreover have "rb_elems (r\<lparr>rb_tail := rb_tail r + 1\<rparr>) = xs"
    using rb_elems_advance [of 1 r] xs n by simp
  ultimately show "fst (remove_elem r) = Some x \<and> rb_elems (snd (remove_elem r)) = xs"
    using n by (simp add: remove_elem_def empty_iff)
qed

lemma writeBuff_fold:
  "writeBuff buff count r =
     (let n = (if buffer_size r - (rb_head r - rb_tail r) < count
               then buffer_size r - (rb_head r - rb_tail r) else count)
      in (n, fold rb_push (take (unat n) buff) r))"
  by (simp add: writeBuff_def Let_def store_loop_push)

lemma writeBuff_refines:
  assumes "rb_ok r" "unat count \<le> length buff" "writeBuff buff count r = (n, r')"
  shows "unat n = min (unat count) (rb_capacity r - rb_count r)"
    and "rb_elems r' = rb_elems r @ take (unat n) buff"
    and "rb_ok r'"
    and "rb_capacity r' = rb_capacity r"
proof -
  let ?space = "buffer_size r - (rb_head r - rb_tail r)"
  have n: "n = (if ?space < count then ?space else count)"
    and r': "r' = fold rb_push (take (unat n) buff) r"
    using assms(3) by (auto simp: writeBuff_fold Let_def split: if_splits)
  show un: "unat n = min (unat count) (rb_capacity r - rb_count r)"
    using n unat_write_space [OF assms(1)] by (simp add: word_less_nat_alt)
  then have room: "rb_count r + length (take (unat n) buff) \<le> rb_capacity r"
    using assms(1) by (auto simp: rb_ok_def)
  then show "rb_elems r' = rb_elems r @ take (unat n) buff"
    using assms(1) by (simp add: r' rb_elems_fold_push rb_ok_def)
  show "rb_ok r'" using room assms(1) by (simp only: r' rb_ok_fold_push)
  show "rb_capacity r' = rb_capacity r" by (simp add: r')
qed

lemma readBuff_eq:
  "readBuff count r =
     (take (unat count) (rb_elems r),
      r\<lparr>rb_tail := rb_tail r + of_nat (min (unat count) (rb_count r))\<rparr>)"
proof -
  let ?n = "if rb_head r - rb_tail r < count then rb_head r - rb_tail r else count"
  have un: "unat ?n = min (unat count) (rb_count r)"
    by (simp add: rb_count_def word_less_nat_alt)
  have "map (\<lambda>i. data_buff r ! unat ((rb_tail r + of_nat i) AND buffer_mask r)) [0..<unat ?n] =
      take (unat count) (rb_elems r)"
    by (rule nth_equalityI) (simp_all add: un nth_rb_elems slot_def min.commute)
  moreover have "of_nat (unat ?n) = ?n" by simp
  ultimately show ?thesis
    unfolding readBuff_def Let_def load_loop_eq un [symmetric] by simp
qed

lemma readBuff_refines:
  assumes "readBuff count r = (xs, r')"
  shows "xs = take (unat count) (rb_elems r)"
    and "rb_elems r' = drop (unat count) (rb_elems r)"
    and "rb_ok r \<Longrightarrow> rb_ok r'"
    and "rb_capacity r' = rb_capacity r"
  using assms by (auto simp: readBuff_eq rb_elems_advance rb_ok_advance min_def)

section \<open>The remaining operations\<close>

lemma remove_drop_refines:
  "fst (remove_drop r) \<longleftrightarrow> rb_elems r \<noteq> []"
  "rb_elems (snd (remove_drop r)) = tl (rb_elems r)"
  "rb_ok r \<Longrightarrow> rb_ok (snd (remove_drop r))"
proof -
  have empty: "rb_elems r = [] \<longleftrightarrow> rb_count r = 0" by (metis length_0_conv length_rb_elems)
  then show "fst (remove_drop r) \<longleftrightarrow> rb_elems r \<noteq> []"
    by (simp add: remove_drop_def empty_iff)
  show "rb_elems (snd (remove_drop r)) = tl (rb_elems r)"
    using empty rb_elems_advance [of 1 r]
    by (cases "rb_count r") (simp_all add: remove_drop_def empty_iff drop_Suc)
  show "rb_ok r \<Longrightarrow> rb_ok (snd (remove_drop r))"
    using rb_ok_advance [of r 1] by (simp add: remove_drop_def empty_iff Suc_le_eq)
qed

lemma remove_count_refines:
  "unat (fst (remove_count cnt r)) = min (unat cnt) (length (rb_elems r))"
  "rb_elems (snd (remove_count cnt r)) = drop (unat cnt) (rb_elems r)"
  "rb_ok r \<Longrightarrow> rb_ok (snd (remove_count cnt r))"
proof -
  let ?n = "fst (remove_count cnt r)"
  show un: "unat ?n = min (unat cnt) (length (rb_elems r))"
    by (simp add: remove_count_def Let_def rb_count_def word_less_nat_alt)
  have r': "snd (remove_count cnt r) = r\<lparr>rb_tail := rb_tail r + of_nat (unat ?n)\<rparr>"
    by (simp add: remove_count_def Let_def)
  show "rb_elems (snd (remove_count cnt r)) = drop (unat cnt) (rb_elems r)"
    unfolding r' un by (simp add: rb_elems_advance min_def)
  show "rb_ok r \<Longrightarrow> rb_ok (snd (remove_count cnt r))"
    unfolding r' un by (simp add: rb_ok_advance)
qed

lemma rb_at_refines:
  "rb_at i r = (if unat i < length (rb_elems r) then Some (rb_index i r) else None)"
  "unat i < length (rb_elems r) \<Longrightarrow> data_buff r ! rb_index i r = rb_elems r ! unat i"
  by (simp_all add: rb_at_def rb_index_def rb_count_def word_le_nat_alt nth_rb_elems)

lemma peek_refines: "peek r = (if rb_elems r = [] then None else rb_at 0 r)"
proof -
  have "rb_elems r = [] \<longleftrightarrow> rb_count r = 0" by (metis length_0_conv length_rb_elems)
  then show ?thesis by (simp add: peek_def empty_iff rb_at_refines rb_index_def)
qed

lemma rb_index_in_bounds: "rb_size_ok r \<Longrightarrow> rb_index i r < length (data_buff r)"
  by (simp add: rb_index_def slot_lt)

lemma consumerClear_refines: "rb_elems (consumerClear r) = []" "rb_ok r \<Longrightarrow> rb_ok (consumerClear r)"
  by (simp_all add: consumerClear_def rb_elems_def rb_count_def rb_ok_def)

lemma isEmpty_iff: "isEmpty r \<longleftrightarrow> rb_elems r = []"
  by (metis isEmpty_def length_0_conv length_rb_elems readAvailable_count unat_0_iff)

lemma isFull_iff: "rb_ok r \<Longrightarrow> isFull r \<longleftrightarrow> length (rb_elems r) = rb_capacity r"
  using writeAvailable_space [of r] by (auto simp: isFull_def rb_ok_def unat_0_iff [symmetric])

section \<open>The interface of a bounded byte queue\<close>

text \<open>
  What the receive thread of the link uses of the ring buffer: the number of buffered elements,
  writing a run of elements as far as it fits, reading a run. The laws speak of the list of
  buffered elements only.
\<close>

locale fifo =
  fixes avail :: "'q \<Rightarrow> size_t"
    and put :: "'a list \<Rightarrow> size_t \<Rightarrow> 'q \<Rightarrow> size_t \<times> 'q"
    and get :: "size_t \<Rightarrow> 'q \<Rightarrow> 'a list \<times> 'q"
    and elems :: "'q \<Rightarrow> 'a list"
    and capacity :: "'q \<Rightarrow> nat"
    and ok :: "'q \<Rightarrow> bool"
  assumes avail_elems: "unat (avail q) = length (elems q)"
    and put_spec: "ok q \<Longrightarrow> unat n \<le> length xs \<Longrightarrow> put xs n q = (m, q') \<Longrightarrow>
          unat m = min (unat n) (capacity q - length (elems q)) \<and>
          elems q' = elems q @ take (unat m) xs \<and> ok q' \<and> capacity q' = capacity q"
    and get_spec: "get n q = (xs, q') \<Longrightarrow>
          xs = take (unat n) (elems q) \<and> elems q' = drop (unat n) (elems q) \<and>
          (ok q \<longrightarrow> ok q') \<and> capacity q' = capacity q"
begin

text \<open>A run that fits is stored whole.\<close>

lemma put_fits:
  assumes "ok q" "unat n = length xs" "length (elems q) + length xs \<le> capacity q"
  shows "elems (snd (put xs n q)) = elems q @ xs \<and> ok (snd (put xs n q)) \<and>
         capacity (snd (put xs n q)) = capacity q"
  using put_spec [of q n xs "fst (put xs n q)" "snd (put xs n q)"] assms by simp

text \<open>What does not fit is dropped: the bytes beyond the free space are lost.\<close>

lemma put_overflow:
  assumes "ok q" "unat n = length xs" "capacity q - length (elems q) < length xs"
  shows "elems (snd (put xs n q)) = elems q @ take (capacity q - length (elems q)) xs"
  using put_spec [of q n xs "fst (put xs n q)" "snd (put xs n q)"] assms by simp

lemma get_elems: "fst (get n q) = take (unat n) (elems q)"
  and get_rest: "elems (snd (get n q)) = drop (unat n) (elems q)"
  and get_ok: "ok q \<Longrightarrow> ok (snd (get n q))"
  and get_capacity: "capacity (snd (get n q)) = capacity q"
  using get_spec [of n q "fst (get n q)" "snd (get n q)"] by simp_all

text \<open>Reading a prefix that is there, in the form in which a parser uses it.\<close>

lemma get_prefix:
  assumes "elems q = xs @ rest" "unat n = length xs"
  shows "fst (get n q) = xs \<and> elems (snd (get n q)) = rest"
  using assms by (simp add: get_elems get_rest)

lemma avail_after_get: "unat (avail (snd (get n q))) = unat (avail q) - unat n"
  by (simp add: avail_elems get_rest)

end

interpretation rbq: fifo readAvailable writeBuff readBuff rb_elems rb_capacity rb_ok
proof
  show "unat (readAvailable r) = length (rb_elems r)" for r :: "'a ringbuffer"
    by (simp add: readAvailable_count)
  show "unat m = min (unat n) (rb_capacity r - length (rb_elems r)) \<and>
      rb_elems r' = rb_elems r @ take (unat m) xs \<and> rb_ok r' \<and> rb_capacity r' = rb_capacity r"
    if "rb_ok r" "unat n \<le> length xs" "writeBuff xs n r = (m, r')" for r r' :: "'a ringbuffer" and n m xs
    using writeBuff_refines [OF that] by simp
  show "xs = take (unat n) (rb_elems r) \<and> rb_elems r' = drop (unat n) (rb_elems r) \<and>
      (rb_ok r \<longrightarrow> rb_ok r') \<and> rb_capacity r' = rb_capacity r"
    if "readBuff n r = (xs, r')" for r r' :: "'a ringbuffer" and n xs
    using readBuff_refines [OF that] by simp
qed

section \<open>The variants with a callback\<close>

text \<open>A callback on the producer's side may consume; one on the consumer's side may produce.\<close>

definition cb_consumes :: "('a ringbuffer \<times> 's \<Rightarrow> 'a ringbuffer \<times> 's) option \<Rightarrow> bool" where
  "cb_consumes cb \<longleftrightarrow>
     (\<forall>r s. \<exists>n \<le> rb_count r. fst (run_callback cb (r, s)) = r\<lparr>rb_tail := rb_tail r + of_nat n\<rparr>)"

definition cb_produces :: "('a ringbuffer \<times> 's \<Rightarrow> 'a ringbuffer \<times> 's) option \<Rightarrow> bool" where
  "cb_produces cb \<longleftrightarrow>
     (\<forall>r s. \<exists>xs. rb_ok r \<longrightarrow> rb_count r + length xs \<le> rb_capacity r \<and>
        fst (run_callback cb (r, s)) = fold rb_push xs r)"

lemma cb_consumesE:
  assumes "cb_consumes cb"
  obtains n where "n \<le> rb_count r"
    "fst (run_callback cb (r, s)) = r\<lparr>rb_tail := rb_tail r + of_nat n\<rparr>"
  using assms unfolding cb_consumes_def by blast

lemma cb_producesE:
  assumes "cb_produces cb" "rb_ok r"
  obtains xs where "rb_count r + length xs \<le> rb_capacity r"
    "fst (run_callback cb (r, s)) = fold rb_push xs r"
  using assms unfolding cb_produces_def by blast

lemma write_cb_loop_step:
  assumes "written < count" "buffer_size r - (rb_head r - rb_tail r) = space" "space \<noteq> 0"
    "n = (if to_write > space then space else to_write)"
    "run_callback cb (fold rb_push (take (unat n) (drop (unat written) buff)) r, s) = (r2, s2)"
    "rb_head r2 = rb_head (fold rb_push (take (unat n) (drop (unat written) buff)) r)"
  shows "write_cb_loop cb buff count to_write written (rb_head r) (r, s) =
    write_cb_loop cb buff count (count - (written + n)) (written + n) (rb_head r2) (r2, s2)"
proof -
  have "buffer_size r \<noteq> rb_head r - rb_tail r" using assms(2,3) by auto
  then show ?thesis
    using assms by (subst write_cb_loop.simps) (cases "space < to_write"; simp add: Let_def store_loop_push)
qed

lemma batch_then_consume:
  assumes "rb_ok r" "cb_consumes cb" "rb_count r + length xs \<le> rb_capacity r"
  obtains j r2 s2 where "run_callback cb (fold rb_push xs r, s) = (r2, s2)"
    "rb_ok r2" "rb_capacity r2 = rb_capacity r" "rb_head r2 = rb_head (fold rb_push xs r)"
    "j \<le> length (rb_elems r @ xs)" "rb_elems r2 = drop j (rb_elems r @ xs)"
proof -
  let ?r1 = "fold rb_push xs r"
  have el: "rb_elems ?r1 = rb_elems r @ xs"
    using assms by (intro rb_elems_fold_push) (simp_all add: rb_ok_def)
  obtain j where j: "j \<le> rb_count ?r1"
    "fst (run_callback cb (?r1, s)) = ?r1\<lparr>rb_tail := rb_tail ?r1 + of_nat j\<rparr>"
    using assms(2) by (rule cb_consumesE)
  let ?r2 = "?r1\<lparr>rb_tail := rb_tail ?r1 + of_nat j\<rparr>"
  have call: "run_callback cb (?r1, s) = (?r2, snd (run_callback cb (?r1, s)))"
    using j(2) by (metis prod.collapse)
  have ok2: "rb_ok ?r2" by (intro rb_ok_advance rb_ok_fold_push assms j)
  have el2: "rb_elems ?r2 = drop j (rb_elems r @ xs)" by (simp only: rb_elems_advance [OF j(1)] el)
  have "j \<le> length (rb_elems r @ xs)" using j(1) el by (metis length_rb_elems)
  from call ok2 _ _ this el2 show thesis by (rule that) simp_all
qed

lemma drop_run:
  assumes "j \<le> length (as @ xs)" "xs = take n ys" "length xs = n" "n \<le> m"
  shows "drop k (drop j (as @ xs) @ take (m - n) (drop n ys)) = drop (k + j) (as @ take m ys)"
proof -
  have "take m ys = xs @ take (m - n) (drop n ys)"
    using assms(2,4) take_add [of n "m - n" ys] by simp
  then have "drop j (as @ take m ys) = drop j ((as @ xs) @ take (m - n) (drop n ys))" by simp
  also have "\<dots> = drop j (as @ xs) @ take (m - n) (drop n ys)"
    using assms(1) by (simp only: drop_append diff_is_0_eq' drop_0)
  finally show ?thesis by (simp only: drop_drop [symmetric])
qed

lemma write_cb_loop_spec:
  assumes "cb_consumes cb" "rb_ok r" "unat count \<le> length buff" "written \<le> count"
    "written < count \<Longrightarrow> 0 < to_write \<and> to_write \<le> count - written"
  shows "\<exists>w r' s' k. write_cb_loop cb buff count to_write written (rb_head r) (r, s) = Some (w, r', s') \<and>
    written \<le> w \<and> w \<le> count \<and> rb_ok r' \<and> rb_capacity r' = rb_capacity r \<and>
    rb_elems r' = drop k (rb_elems r @ take (unat w - unat written) (drop (unat written) buff)) \<and>
    (w < count \<longrightarrow> rb_count r' = rb_capacity r)"
  using assms(2,4,5)
proof (induction "unat count - unat written" arbitrary: written to_write r s rule: less_induct)
  case less
  let ?space = "buffer_size r - (rb_head r - rb_tail r)"
  have sp: "unat ?space = rb_capacity r - rb_count r" using less.prems(1) by (rule unat_write_space)
  show ?case
  proof (cases "written < count \<and> ?space \<noteq> 0")
    case False
    have "rb_count r = rb_capacity r" if "written < count"
      using False that sp less.prems(1) by (simp add: rb_ok_def)
    then show ?thesis using False less.prems
      by (subst write_cb_loop.simps) (force intro: exI [where x = 0])
  next
    case True
    define n where "n = (if to_write > ?space then ?space else to_write)"
    let ?ys = "drop (unat written) buff"
    let ?xs = "take (unat n) ?ys"
    have n: "0 < unat n" "unat n \<le> rb_capacity r - rb_count r" "unat n \<le> unat count - unat written"
      using True less.prems sp
      by (auto simp: n_def word_le_nat_alt word_less_nat_alt unat_sub_le unat_gt_0)
    have le: "unat written + unat n \<le> unat count" using n(3) True by (auto simp: word_less_nat_alt)
    then have sum: "unat (written + n) = unat written + unat n"
      by (intro unat_add_lt le_less_trans [OF _ unat_lt_exp [of count]])
    then have le': "written + n \<le> count" using le by (simp add: word_le_nat_alt)
    have len: "length ?xs = unat n" using n(3) assms(3) by simp
    have room: "rb_count r + length ?xs \<le> rb_capacity r"
      using n(1,2) len less.prems(1) by (simp add: rb_ok_def)
    obtain j r2 s2 where r2: "run_callback cb (fold rb_push ?xs r, s) = (r2, s2)"
      "rb_ok r2" "rb_capacity r2 = rb_capacity r" "rb_head r2 = rb_head (fold rb_push ?xs r)"
      "j \<le> length (rb_elems r @ ?xs)" "rb_elems r2 = drop j (rb_elems r @ ?xs)"
      using batch_then_consume [OF less.prems(1) assms(1) room] by blast
    have step: "write_cb_loop cb buff count to_write written (rb_head r) (r, s) =
        write_cb_loop cb buff count (count - (written + n)) (written + n) (rb_head r2) (r2, s2)"
      using True by (intro write_cb_loop_step [OF _ refl _ n_def r2(1,4)]) simp_all
    have dec: "unat count - unat (written + n) < unat count - unat written"
      using n(1) le sum by simp
    have next_write: "0 < count - (written + n)" if "written + n < count"
      using that by (simp add: word_gt_0)
    obtain w r' s' k where IH:
      "write_cb_loop cb buff count (count - (written + n)) (written + n) (rb_head r2) (r2, s2) = Some (w, r', s')"
      "written + n \<le> w" "w \<le> count" "rb_ok r'" "rb_capacity r' = rb_capacity r2"
      "rb_elems r' = drop k (rb_elems r2 @ take (unat w - unat (written + n)) (drop (unat (written + n)) buff))"
      "w < count \<longrightarrow> rb_count r' = rb_capacity r2"
      using less.hyps [OF dec r2(2) le', of "count - (written + n)" s2] next_write by blast
    have res: "unat written + unat n \<le> unat w"
      "rb_elems r' = drop k (rb_elems r2 @ take (unat w - unat written - unat n) (drop (unat n) ?ys))"
      using IH(2,6) by (simp_all add: word_le_nat_alt sum add.commute [of "unat n" "unat written"])
    have "rb_elems r' = drop (k + j) (rb_elems r @ take (unat w - unat written) ?ys)"
      unfolding res(2) r2(6) using res(1) len by (intro drop_run r2(5)) auto
    moreover have "written \<le> w" using res(1) by (simp add: word_le_nat_alt)
    ultimately show ?thesis using IH(1,3-5,7) unfolding step r2(3) by blast
  qed
qed

lemma load_loop_elems:
  "n \<le> rb_count r \<Longrightarrow>
     load_loop (buffer_mask r) (data_buff r) n (rb_tail r) = (take n (rb_elems r), rb_tail r + of_nat n)"
  by (auto simp: load_loop_eq intro!: nth_equalityI simp: nth_rb_elems slot_def)

lemma batch_then_produce:
  assumes "rb_ok r" "cb_produces cb" "unat n \<le> rb_count r"
  obtains ys r2 s2 where
    "run_callback cb (r\<lparr>rb_tail := rb_tail r + n\<rparr>, s) = (r2, s2)"
    "rb_ok r2" "rb_capacity r2 = rb_capacity r" "rb_tail r2 = rb_tail r + n"
    "rb_elems r2 = drop (unat n) (rb_elems r) @ ys"
proof -
  let ?r1 = "r\<lparr>rb_tail := rb_tail r + n\<rparr>"
  have ok1: "rb_ok ?r1" using rb_ok_advance [OF assms(1,3)] by simp
  have el1: "rb_elems ?r1 = drop (unat n) (rb_elems r)" using rb_elems_advance [OF assms(3)] by simp
  obtain ys where ys: "rb_count ?r1 + length ys \<le> rb_capacity ?r1"
    "fst (run_callback cb (?r1, s)) = fold rb_push ys ?r1"
    using assms(2) ok1 by (rule cb_producesE)
  have call: "run_callback cb (?r1, s) = (fold rb_push ys ?r1, snd (run_callback cb (?r1, s)))"
    using ys(2) by (metis prod.collapse)
  have ok2: "rb_ok (fold rb_push ys ?r1)" using ok1 ys(1) by (rule rb_ok_fold_push)
  have el2: "rb_elems (fold rb_push ys ?r1) = drop (unat n) (rb_elems r) @ ys"
    using ok1 ys(1) el1 by (simp add: rb_elems_fold_push rb_ok_def)
  from call ok2 _ _ el2 show thesis by (rule that) simp_all
qed

lemma read_cb_loop_step:
  assumes "length out < unat count" "rb_head r - rb_tail r = avail" "avail \<noteq> 0"
    "n = (if to_read > avail then avail else to_read)"
    "run_callback cb (r\<lparr>rb_tail := rb_tail r + n\<rparr>, s) = (r2, s2)"
    "rb_tail r2 = rb_tail r + n"
  shows "read_cb_loop cb count to_read out (rb_tail r) (r, s) =
    read_cb_loop cb count (count - of_nat (length (out @ take (unat n) (rb_elems r))))
      (out @ take (unat n) (rb_elems r)) (rb_tail r2) (r2, s2)"
proof -
  have "rb_head r \<noteq> rb_tail r" using assms(2,3) by auto
  moreover have "of_nat (length out) < count"
    using assms(1) unat_of_nat_le [of "length out" count] by (simp add: word_less_nat_alt)
  moreover have "unat n \<le> rb_count r"
    using assms(2,4) by (auto simp: rb_count_def word_less_nat_alt)
  note load_loop_elems [OF this]
  ultimately show ?thesis
    using assms(2-6) by (subst read_cb_loop.simps) (cases "avail < to_read"; simp add: Let_def)
qed

lemma read_cb_loop_spec:
  assumes "cb_produces cb" "rb_ok r" "length out \<le> unat count"
    "length out < unat count \<Longrightarrow> 0 < to_read \<and> unat to_read \<le> unat count - length out"
  shows "\<exists>out' r' s' ys. read_cb_loop cb count to_read out (rb_tail r) (r, s) = Some (out', r', s') \<and>
    rb_ok r' \<and> rb_capacity r' = rb_capacity r \<and> length out' \<le> unat count \<and>
    out' @ rb_elems r' = out @ rb_elems r @ ys \<and> (length out' < unat count \<longrightarrow> rb_elems r' = [])"
  using assms(2-4)
proof (induction "unat count - length out" arbitrary: out to_read r s rule: less_induct)
  case less
  let ?avail = "rb_head r - rb_tail r"
  show ?case
  proof (cases "length out < unat count \<and> ?avail \<noteq> 0")
    case False
    have lt: "of_nat (length out) < count \<longleftrightarrow> length out < unat count"
      using less.prems(2) unat_of_nat_le [of "length out" count] by (simp add: word_less_nat_alt)
    have "rb_elems r = []" if "length out < unat count"
      using False that by (simp add: rb_elems_def rb_count_def)
    then show ?thesis using False less.prems
      by (subst read_cb_loop.simps) (force simp: lt Let_def)
  next
    case True
    define n where "n = (if to_read > ?avail then ?avail else to_read)"
    have n: "0 < unat n" "unat n \<le> rb_count r" "unat n \<le> unat count - length out"
      using True less.prems(3) by (auto simp: n_def rb_count_def word_less_nat_alt unat_gt_0)
    let ?out = "out @ take (unat n) (rb_elems r)"
    have len: "length ?out = length out + unat n" using n(2) by simp
    have le: "length ?out \<le> unat count" using n(3) True len by linarith
    obtain ys r2 s2 where r2: "run_callback cb (r\<lparr>rb_tail := rb_tail r + n\<rparr>, s) = (r2, s2)"
      "rb_ok r2" "rb_capacity r2 = rb_capacity r" "rb_tail r2 = rb_tail r + n"
      "rb_elems r2 = drop (unat n) (rb_elems r) @ ys"
      by (rule batch_then_produce [OF less.prems(1) assms(1) n(2)])
    have step: "read_cb_loop cb count to_read out (rb_tail r) (r, s) =
        read_cb_loop cb count (count - of_nat (length ?out)) ?out (rb_tail r2) (r2, s2)"
      using True by (intro read_cb_loop_step [OF _ refl _ n_def r2(1,4)]) simp_all
    have dec: "unat count - length ?out < unat count - length out" using n(1) le len by linarith
    have un: "unat (of_nat (length ?out) :: u64) = length ?out"
      using le by (rule unat_of_nat_le)
    then have "unat (count - of_nat (length ?out)) = unat count - length ?out"
      using le by (subst unat_sub_le) (simp_all add: word_le_nat_alt)
    then have next_read: "0 < count - of_nat (length ?out) \<and>
        unat (count - of_nat (length ?out)) \<le> unat count - length ?out" if "length ?out < unat count"
      using that by (simp add: word_less_nat_alt)
    obtain out' r' s' zs where IH:
      "read_cb_loop cb count (count - of_nat (length ?out)) ?out (rb_tail r2) (r2, s2) = Some (out', r', s')"
      "rb_ok r'" "rb_capacity r' = rb_capacity r2" "length out' \<le> unat count"
      "out' @ rb_elems r' = ?out @ rb_elems r2 @ zs" "length out' < unat count \<longrightarrow> rb_elems r' = []"
      using less.hyps [OF dec r2(2) le next_read, of s2] by blast
    have "out' @ rb_elems r' = out @ rb_elems r @ (ys @ zs)" using IH(5) r2(5) by simp
    then show ?thesis using IH(1-4,6) unfolding step r2(3) by blast
  qed
qed

section \<open>Properties\<close>

text \<open>
  C1: \<open>writeBuff\<close> appends the longest prefix of the given elements that fits, reports its length,
  keeps the invariant, and touches nothing else: the ring is a bounded FIFO also where the 64-bit
  indexes wrap around.
\<close>

theorem writeBuff_appends_prefix:
  assumes "rb_ok r" "unat count \<le> length buff" "writeBuff buff count r = (n, r')"
  shows "unat n = min (unat count) (rb_capacity r - length (rb_elems r)) \<and>
    rb_elems r' = rb_elems r @ take (unat n) buff \<and> rb_ok r' \<and> rb_tail r' = rb_tail r"
  using writeBuff_refines [OF assms] assms(3) by (auto simp: writeBuff_fold Let_def)

text \<open>A ring of four slots whose indexes are about to wrap: two elements in, room for two.\<close>

definition wrap_ring :: "nat ringbuffer" where
  "wrap_ring = \<lparr>rb_head = 1, rb_tail = 18446744073709551615, data_buff = [11, 0, 0, 10]\<rparr>"

lemma wrap_ring_ok: "rb_ok wrap_ring"
  unfolding rb_ok_def rb_size_ok_def wrap_ring_def rb_count_def rb_capacity_def
  by (auto intro: exI [where x = 2])

theorem writeBuff_appends_prefix_witness:
  "rb_elems wrap_ring = [10, 11] \<and> fst (writeBuff [12, 13, 14] 3 wrap_ring) = 2 \<and>
   rb_elems (snd (writeBuff [12, 13, 14] 3 wrap_ring)) = [10, 11, 12, 13]"
proof -
  have el: "rb_elems wrap_ring = [10, 11]" by code_simp
  have w: "writeBuff [12, 13, 14] 3 wrap_ring = (2, snd (writeBuff [12, 13, 14] 3 wrap_ring))"
    by code_simp
  show ?thesis using writeBuff_appends_prefix [OF wrap_ring_ok _ w] el w by (simp add: prod_eq_iff)
qed

text \<open>
  Reading after writing gives back, in order, what was buffered followed by what was written:
  no byte is lost, repeated or reordered as long as it fits.
\<close>

theorem write_read_roundtrip:
  assumes "rb_ok r" "unat count = length buff" "length (rb_elems r) + length buff \<le> rb_capacity r"
    "unat m = length (rb_elems r) + length buff"
  shows "fst (readBuff m (snd (writeBuff buff count r))) = rb_elems r @ buff \<and>
    isEmpty (snd (readBuff m (snd (writeBuff buff count r))))"
  using rbq.put_fits [OF assms(1-3)] rbq.get_prefix [of _ "rb_elems r @ buff" "[]" m] assms(4)
  by (simp add: isEmpty_iff)

theorem write_read_roundtrip_witness:
  "fst (readBuff 4 (snd (writeBuff [12, 13] 2 wrap_ring))) = [10, 11, 12, 13]"
proof -
  have "rb_elems wrap_ring = [10, 11]" "rb_capacity wrap_ring = 4" by code_simp+
  then show ?thesis using write_read_roundtrip [OF wrap_ring_ok, of 2 "[12, 13]" 4] by simp
qed

text \<open>
  C2: \<open>insert\<close> fails exactly when every slot is used and then changes nothing; otherwise the element
  goes to the end. \<open>remove\<close> fails exactly on an empty buffer; otherwise it takes the oldest element.
\<close>

theorem insert_remove_bounded_fifo:
  assumes "rb_ok r"
  shows "rb_insert x r = (length (rb_elems r) \<noteq> rb_capacity r, snd (rb_insert x r)) \<and>
    rb_elems (snd (rb_insert x r)) =
      (if length (rb_elems r) = rb_capacity r then rb_elems r else rb_elems r @ [x]) \<and>
    fst (remove_elem r) = (if rb_elems r = [] then None else Some (hd (rb_elems r))) \<and>
    rb_elems (snd (remove_elem r)) = tl (rb_elems r) \<and>
    rb_ok (snd (rb_insert x r)) \<and> rb_ok (snd (remove_elem r))"
proof -
  have room: "rb_size_ok r" "length (rb_elems r) \<noteq> rb_capacity r \<Longrightarrow> rb_count r < rb_capacity r"
    using assms by (auto simp: rb_ok_def)
  have "fst (remove_elem r) = (if rb_elems r = [] then None else Some (hd (rb_elems r))) \<and>
      rb_elems (snd (remove_elem r)) = tl (rb_elems r)"
    using remove_elem_refines [of r] by (cases "rb_elems r") auto
  moreover have "rb_ok (snd (remove_elem r))"
    using assms remove_drop_refines(3) [of r] by (simp add: remove_elem_def remove_drop_def split: if_splits)
  ultimately show ?thesis
    using assms room by (simp add: rb_insert_refines rb_elems_push rb_ok_push)
qed

theorem insert_remove_bounded_fifo_witness:
  "rb_elems (snd (rb_insert 12 wrap_ring)) = [10, 11, 12] \<and> fst (remove_elem wrap_ring) = Some 10"
proof -
  have "rb_elems wrap_ring = [10, 11]" "rb_capacity wrap_ring = 4" by code_simp+
  then show ?thesis using insert_remove_bounded_fifo [OF wrap_ring_ok, of 12] by simp
qed

text \<open>
  C3: \<open>writeBuff\<close> with a callback returns for every callback that only consumes, writes the first
  \<open>w\<close> elements in order behind the buffered ones (of which the callback has consumed \<open>k\<close>), and
  stops short of \<open>count\<close> only when the buffer is full.
\<close>

theorem writeBuff_cb_total:
  assumes "cb_consumes cb" "rb_ok r" "unat count \<le> length buff"
  shows "\<exists>w r' s' k. writeBuff_cb cb count_to_callback buff count (r, s) = Some (w, r', s') \<and>
    w \<le> count \<and> rb_ok r' \<and> rb_elems r' = drop k (rb_elems r @ take (unat w) buff) \<and>
    (w < count \<longrightarrow> isFull r')"
proof -
  let ?w = "if count_to_callback \<noteq> 0 \<and> count_to_callback < count then count_to_callback else count"
  have "0 < ?w \<and> ?w \<le> count - 0" if "0 < count" using that by (auto simp: word_gt_0)
  from write_cb_loop_spec [OF assms(1,2,3) word_zero_le this, of s]
  obtain w r' s' k where res: "write_cb_loop cb buff count ?w 0 (rb_head r) (r, s) = Some (w, r', s')"
    "w \<le> count" "rb_ok r'" "rb_capacity r' = rb_capacity r"
    "rb_elems r' = drop k (rb_elems r @ take (unat w) buff)" "w < count \<longrightarrow> rb_count r' = rb_capacity r"
    by auto
  moreover have "w < count \<longrightarrow> isFull r'" using res(3,4,6) by (simp add: isFull_iff)
  ultimately show ?thesis unfolding writeBuff_cb_def fst_conv by blast
qed

text \<open>A consumer that takes one element, if there is one, whenever it is called.\<close>

definition take_one :: "nat ringbuffer \<times> nat list \<Rightarrow> nat ringbuffer \<times> nat list" where
  "take_one = (\<lambda>(r, log). case remove_elem r of (None, r') \<Rightarrow> (r', log) | (Some x, r') \<Rightarrow> (r', log @ [x]))"

lemma take_one_consumes: "cb_consumes (Some take_one)"
proof -
  have "\<exists>n \<le> rb_count r. fst (take_one (r, s)) = r\<lparr>rb_tail := rb_tail r + of_nat n\<rparr>" for r s
    by (cases "rb_count r = 0")
      (auto simp: take_one_def remove_elem_def empty_iff Suc_le_eq intro: exI [where x = 0] exI [where x = 1])
  then show ?thesis by (simp add: cb_consumes_def run_callback_def)
qed

theorem writeBuff_cb_total_witness:
  "\<exists>w r' s' k. writeBuff_cb (Some take_one) 1 [1, 2, 3, 4, 5] 5 (wrap_ring, []) = Some (w, r', s') \<and>
    w \<le> 5 \<and> rb_ok r' \<and> rb_elems r' = drop k ([10, 11] @ take (unat w) [1, 2, 3, 4, 5]) \<and>
    (w < 5 \<longrightarrow> isFull r')"
proof -
  have "rb_elems wrap_ring = [10, 11]" by code_simp
  then show ?thesis
    using writeBuff_cb_total [OF take_one_consumes wrap_ring_ok, of 5 "[1, 2, 3, 4, 5]" 1 "[]"] by simp
qed

text \<open>
  C4: \<open>readBuff\<close> with a callback returns for every callback that only produces within the free
  space; what it has read, followed by what is left, is what was buffered followed by what the
  callback has produced, and it stops short of \<open>count\<close> only when the buffer is empty.
\<close>

theorem readBuff_cb_total:
  assumes "cb_produces cb" "rb_ok r"
  shows "\<exists>out r' s' ys. readBuff_cb cb count_to_callback count (r, s) = Some (out, r', s') \<and>
    rb_ok r' \<and> length out \<le> unat count \<and> out @ rb_elems r' = rb_elems r @ ys \<and>
    (length out < unat count \<longrightarrow> isEmpty r')"
proof -
  let ?w = "if count_to_callback \<noteq> 0 \<and> count_to_callback < count then count_to_callback else count"
  have "0 < ?w \<and> unat ?w \<le> unat count - length []" if "length [] < unat count"
    using that by (auto simp: word_gt_0 word_less_nat_alt unat_gt_0)
  from read_cb_loop_spec [OF assms(1,2) _ this, of s]
  obtain out r' s' ys where res: "read_cb_loop cb count ?w [] (rb_tail r) (r, s) = Some (out, r', s')"
    "rb_ok r'" "length out \<le> unat count" "out @ rb_elems r' = rb_elems r @ ys"
    "length out < unat count \<longrightarrow> rb_elems r' = []"
    by auto
  moreover have "length out < unat count \<longrightarrow> isEmpty r'" using res(5) by (simp add: isEmpty_iff)
  ultimately show ?thesis unfolding readBuff_cb_def fst_conv by blast
qed

text \<open>A producer that inserts one element, if there is room, whenever it is called.\<close>

definition give_one :: "nat ringbuffer \<times> nat \<Rightarrow> nat ringbuffer \<times> nat" where
  "give_one = (\<lambda>(r, n). let (done, r') = rb_insert n r in (r', if done then n + 1 else n))"

lemma give_one_produces: "cb_produces (Some give_one)"
proof -
  have "\<exists>xs. rb_ok r \<longrightarrow> rb_count r + length xs \<le> rb_capacity r \<and>
      fst (give_one (r, n)) = fold rb_push xs r" for r n
    by (cases "rb_ok r"; cases "rb_count r = rb_capacity r")
      (auto simp: give_one_def Let_def rb_insert_refines rb_ok_def
        intro: exI [where x = "[]"] exI [where x = "[n]"])
  then show ?thesis by (simp add: cb_produces_def run_callback_def)
qed

theorem readBuff_cb_total_witness:
  "\<exists>out r' s' ys. readBuff_cb (Some give_one) 1 5 (wrap_ring, 0) = Some (out, r', s') \<and>
    rb_ok r' \<and> length out \<le> 5 \<and> out @ rb_elems r' = [10, 11] @ ys \<and> (length out < 5 \<longrightarrow> isEmpty r')"
proof -
  have "rb_elems wrap_ring = [10, 11]" by code_simp
  then show ?thesis using readBuff_cb_total [OF give_one_produces wrap_ring_ok, of 1 5 0] by simp
qed

end
