(* ===== verification/RingbufferSpsc.thy ===== *)
theory RingbufferSpsc
  imports Ringbuffer "HOL-Library.Sublist"
begin

text \<open>
  The ring buffer under its intended use: one producer thread calling \<open>insert\<close>, one consumer
  thread calling \<open>remove(T*)\<close>, with their loads and stores of the shared indexes and slots
  interleaved in any order. Each thread is a program counter with the local variables of the
  function; each rule of \<open>spsc_step\<close> is one access of shared memory. The accesses are taken as
  sequentially consistent, which the acquire/release pairs of the code are there to guarantee for
  the one-producer one-consumer case; reordering by the processor is not modelled. \<open>sent\<close> and
  \<open>received\<close> are histories: the elements whose \<open>insert\<close> has published them and those that a
  \<open>remove\<close> has returned.
\<close>

section \<open>Threads and steps\<close>

text \<open>
  \<open>PIdle\<close>: not in \<open>insert\<close>. \<open>PLoaded x h\<close>: \<open>tmp_head = h\<close> is loaded. \<open>PRoom x h\<close>: the full check
  has passed. \<open>PStored x h\<close>: the element is in its slot, \<open>h\<close> is the incremented \<open>tmp_head\<close>.
\<close>

datatype 'a producer = PIdle | PLoaded 'a u64 | PRoom 'a u64 | PStored 'a u64

text \<open>
  \<open>CLoaded t\<close>: \<open>tmp_tail = t\<close> is loaded. \<open>CNonEmpty t\<close>: the empty check has passed.
  \<open>CRead v t\<close>: the element \<open>v\<close> is read, \<open>t\<close> is the incremented \<open>tmp_tail\<close>.
\<close>

datatype 'a consumer = CIdle | CLoaded u64 | CNonEmpty u64 | CRead 'a u64

record 'a spsc =
  ring :: "'a ringbuffer"
  prod :: "'a producer"
  cons :: "'a consumer"
  sent :: "'a list"
  received :: "'a list"

inductive spsc_step :: "'a spsc \<Rightarrow> 'a spsc \<Rightarrow> bool" where
  insert_load: "prod s = PIdle \<Longrightarrow> spsc_step s (s\<lparr>prod := PLoaded x (rb_head (ring s))\<rparr>)"
| insert_full: "prod s = PLoaded x h \<Longrightarrow> h - rb_tail (ring s) = buffer_size (ring s) \<Longrightarrow>
    spsc_step s (s\<lparr>prod := PIdle\<rparr>)"
| insert_room: "prod s = PLoaded x h \<Longrightarrow> h - rb_tail (ring s) \<noteq> buffer_size (ring s) \<Longrightarrow>
    spsc_step s (s\<lparr>prod := PRoom x h\<rparr>)"
| insert_store: "prod s = PRoom x h \<Longrightarrow>
    spsc_step s (s\<lparr>ring := (ring s)\<lparr>data_buff := (data_buff (ring s))[slot (ring s) h := x]\<rparr>,
                   prod := PStored x (h + 1)\<rparr>)"
| insert_publish: "prod s = PStored x h \<Longrightarrow>
    spsc_step s (s\<lparr>ring := (ring s)\<lparr>rb_head := h\<rparr>, prod := PIdle, sent := sent s @ [x]\<rparr>)"
| remove_load: "cons s = CIdle \<Longrightarrow> spsc_step s (s\<lparr>cons := CLoaded (rb_tail (ring s))\<rparr>)"
| remove_empty: "cons s = CLoaded t \<Longrightarrow> t = rb_head (ring s) \<Longrightarrow> spsc_step s (s\<lparr>cons := CIdle\<rparr>)"
| remove_some: "cons s = CLoaded t \<Longrightarrow> t \<noteq> rb_head (ring s) \<Longrightarrow>
    spsc_step s (s\<lparr>cons := CNonEmpty t\<rparr>)"
| remove_read: "cons s = CNonEmpty t \<Longrightarrow>
    spsc_step s (s\<lparr>cons := CRead (data_buff (ring s) ! slot (ring s) t) (t + 1)\<rparr>)"
| remove_publish: "cons s = CRead v t \<Longrightarrow>
    spsc_step s (s\<lparr>ring := (ring s)\<lparr>rb_tail := t\<rparr>, cons := CIdle, received := received s @ [v]\<rparr>)"

definition spsc_init :: "'a ringbuffer \<Rightarrow> 'a spsc" where
  "spsc_init r = \<lparr>ring = r, prod = PIdle, cons = CIdle, sent = [], received = []\<rparr>"

inductive spsc_reachable :: "'a ringbuffer \<Rightarrow> 'a spsc \<Rightarrow> bool" for r where
  start: "spsc_reachable r (spsc_init r)"
| step: "spsc_reachable r s \<Longrightarrow> spsc_step s t \<Longrightarrow> spsc_reachable r t"

section \<open>The invariant\<close>

text \<open>
  What the locals of a thread know of the shared state. The index that a thread owns is the one
  it has loaded; the other thread can only make its check more true: there stays room for the
  producer, and an element for the consumer.
\<close>

fun prod_ok :: "'a ringbuffer \<Rightarrow> 'a producer \<Rightarrow> bool" where
  "prod_ok r PIdle = True"
| "prod_ok r (PLoaded x h) = (h = rb_head r)"
| "prod_ok r (PRoom x h) = (h = rb_head r \<and> rb_count r < rb_capacity r)"
| "prod_ok r (PStored x h) = (h = rb_head r + 1 \<and> rb_count r < rb_capacity r \<and>
     data_buff r ! slot r (rb_head r) = x)"

fun cons_ok :: "'a ringbuffer \<Rightarrow> 'a consumer \<Rightarrow> bool" where
  "cons_ok r CIdle = True"
| "cons_ok r (CLoaded t) = (t = rb_tail r)"
| "cons_ok r (CNonEmpty t) = (t = rb_tail r \<and> rb_elems r \<noteq> [])"
| "cons_ok r (CRead v t) = (t = rb_tail r + 1 \<and> rb_elems r \<noteq> [] \<and> hd (rb_elems r) = v)"

definition spsc_inv :: "'a spsc \<Rightarrow> bool" where
  "spsc_inv s \<longleftrightarrow> rb_ok (ring s) \<and> prod_ok (ring s) (prod s) \<and> cons_ok (ring s) (cons s) \<and>
     received s @ rb_elems (ring s) = sent s"

lemma elems_nonempty: "rb_elems r \<noteq> [] \<longleftrightarrow> 0 < rb_count r"
  by (metis length_greater_0_conv length_rb_elems)

text \<open>Storing into the slot at the head leaves the published elements alone.\<close>

lemma store_at_head:
  assumes "rb_ok r" "rb_count r < rb_capacity r"
    and "r' = r\<lparr>data_buff := (data_buff r)[slot r (rb_head r) := x]\<rparr>"
  shows "rb_elems r' = rb_elems r" "rb_ok r'" "rb_count r' = rb_count r" "rb_capacity r' = rb_capacity r"
    "slot r' = slot r" "data_buff r' ! slot r (rb_head r) = x"
proof -
  have ok: "rb_size_ok r" using assms(1) by (simp add: rb_ok_def)
  show sl: "slot r' = slot r"
    by (simp add: assms(3) slot_def buffer_mask_def buffer_size_def fun_eq_iff)
  show cnt: "rb_count r' = rb_count r" and cap: "rb_capacity r' = rb_capacity r"
    by (simp_all add: assms(3) rb_count_def rb_capacity_def)
  show "rb_ok r'" using assms(1) by (simp add: rb_ok_def cnt cap) (simp add: assms(3) rb_size_ok_def)
  show "data_buff r' ! slot r (rb_head r) = x" using slot_lt [OF ok] by (simp add: assms(3))
  have "slot r (rb_head r) \<noteq> slot r (rb_tail r + of_nat i)" if "i < rb_count r" for i
    using that assms(2) ok mod_window_inj [of i "rb_capacity r" "rb_count r" "unat (rb_tail r)"]
    by (subst head_as_tail_plus) (auto simp: slot_add)
  then show "rb_elems r' = rb_elems r"
    unfolding rb_elems_def cnt sl by (simp add: assms(3))
qed

text \<open>Publishing the head after the store is \<open>rb_push\<close> done in two steps.\<close>

lemma publish_head:
  assumes "rb_ok r" "rb_count r < rb_capacity r" "data_buff r ! slot r (rb_head r) = x"
  shows "r\<lparr>rb_head := rb_head r + 1\<rparr> = rb_push x r"
proof -
  have "(data_buff r)[slot r (rb_head r) := x] = data_buff r" using assms(3) by auto
  then show ?thesis by (simp add: rb_push_def)
qed

lemma cons_ok_push:
  assumes "rb_ok r" "rb_count r < rb_capacity r" "cons_ok r c"
  shows "cons_ok (rb_push x r) c"
  using assms rb_elems_push [of r x] by (cases c) (auto simp: rb_ok_def)

lemma cons_ok_store:
  assumes "rb_ok r" "rb_count r < rb_capacity r" "cons_ok r c"
  shows "cons_ok (r\<lparr>data_buff := (data_buff r)[slot r (rb_head r) := x]\<rparr>) c"
  using assms store_at_head(1) [OF assms(1,2) refl, of x] by (cases c) auto

text \<open>Publishing the tail is advancing by one; the producer's room only grows.\<close>

lemma publish_tail:
  assumes "rb_ok r" "rb_elems r \<noteq> []"
  shows "rb_elems (r\<lparr>rb_tail := rb_tail r + 1\<rparr>) = tl (rb_elems r)" "rb_ok (r\<lparr>rb_tail := rb_tail r + 1\<rparr>)"
    "rb_count (r\<lparr>rb_tail := rb_tail r + 1\<rparr>) = rb_count r - 1"
  using assms rb_elems_advance [of 1 r] rb_ok_advance [of r 1] rb_count_advance [of 1 r]
  by (simp_all add: elems_nonempty Suc_le_eq drop_Suc)

lemma prod_ok_advance:
  assumes "rb_ok r" "rb_elems r \<noteq> []" "prod_ok r p"
  shows "prod_ok (r\<lparr>rb_tail := rb_tail r + 1\<rparr>) p"
  using assms publish_tail(3) [OF assms(1,2)] by (cases p) auto

lemma spsc_step_inv: "spsc_step s t \<Longrightarrow> spsc_inv s \<Longrightarrow> spsc_inv t"
proof (induction rule: spsc_step.induct)
  case (insert_room s x h)
  then show ?case by (auto simp: spsc_inv_def full_iff rb_ok_def)
next
  case (insert_store s x h)
  let ?r = "ring s"
  have r: "rb_ok ?r" "rb_count ?r < rb_capacity ?r" "h = rb_head ?r"
    using insert_store by (auto simp: spsc_inv_def)
  from insert_store show ?case
    using store_at_head [OF r(1,2) refl, of x] cons_ok_store [OF r(1,2), of "cons s" x]
    by (simp add: spsc_inv_def r(3))
next
  case (insert_publish s x h)
  let ?r = "ring s"
  have r: "rb_ok ?r" "rb_count ?r < rb_capacity ?r" "h = rb_head ?r + 1"
    "data_buff ?r ! slot ?r (rb_head ?r) = x"
    using insert_publish by (auto simp: spsc_inv_def)
  have pub: "?r\<lparr>rb_head := rb_head ?r + 1\<rparr> = rb_push x ?r" using r(1,2,4) by (rule publish_head)
  have ok: "rb_ok (rb_push x ?r)" using r(1,2) by (rule rb_ok_push)
  have el: "rb_elems (rb_push x ?r) = rb_elems ?r @ [x]"
    using r(1,2) by (intro rb_elems_push) (simp_all add: rb_ok_def)
  show ?case using insert_publish cons_ok_push [OF r(1,2), of "cons s" x] ok el
    by (simp add: spsc_inv_def pub r(3))
next
  case (remove_some s t)
  then show ?case by (auto simp: spsc_inv_def empty_iff elems_nonempty)
next
  case (remove_read s t)
  then have "rb_elems (ring s) \<noteq> []" "t = rb_tail (ring s)" by (auto simp: spsc_inv_def)
  then have "hd (rb_elems (ring s)) = data_buff (ring s) ! slot (ring s) t"
    using nth_rb_elems [of 0 "ring s"] by (simp add: hd_conv_nth elems_nonempty)
  with remove_read show ?case by (simp add: spsc_inv_def)
next
  case (remove_publish s v t)
  let ?r = "ring s"
  have r: "rb_ok ?r" "rb_elems ?r \<noteq> []" "t = rb_tail ?r + 1" "hd (rb_elems ?r) = v"
    using remove_publish by (auto simp: spsc_inv_def)
  have "[v] @ tl (rb_elems ?r) = rb_elems ?r" using r(2,4) by auto
  then show ?case using remove_publish publish_tail [OF r(1,2)] prod_ok_advance [OF r(1,2), of "prod s"]
    by (simp add: spsc_inv_def r(3))
qed (simp_all add: spsc_inv_def)

lemma spsc_reachable_inv:
  "spsc_reachable r s \<Longrightarrow> rb_ok r \<Longrightarrow> rb_elems r = [] \<Longrightarrow> spsc_inv s"
proof (induction rule: spsc_reachable.induct)
  case start
  then show ?case by (simp add: spsc_inv_def spsc_init_def)
next
  case (step s t)
  then show ?case by (blast intro: spsc_step_inv)
qed

section \<open>Property\<close>

text \<open>
  C5: in every interleaving of one producer and one consumer, what the consumer has received is a
  prefix of what the producer has sent, what is in between is exactly the buffer's content, and
  the buffer never holds more than its capacity: nothing is lost, duplicated, reordered or read
  before it is written.
\<close>

theorem spsc_fifo:
  assumes "rb_ok r" "rb_elems r = []" "spsc_reachable r s"
  shows "sent s = received s @ rb_elems (ring s) \<and> prefix (received s) (sent s) \<and>
    length (rb_elems (ring s)) \<le> rb_capacity (ring s)"
proof -
  have "spsc_inv s" using assms(3,1,2) by (rule spsc_reachable_inv)
  then have "sent s = received s @ rb_elems (ring s)" "rb_count (ring s) \<le> rb_capacity (ring s)"
    by (simp_all add: spsc_inv_def rb_ok_def)
  then show ?thesis by simp
qed

text \<open>
  A run on a ring of two slots: the consumer looks at the buffer while the producer is about to
  store its element, finds it once it is published, and takes it while a second one is inserted.
\<close>

definition small_ring :: "nat ringbuffer" where
  "small_ring = Ringbuffer [0, 0]"

lemma small_ring_ok: "rb_ok small_ring" "rb_elems small_ring = []"
  using rb_ok_constructor [of "[0, 0]" 1] by (simp_all add: small_ring_def rb_elems_constructor)

lemma small_ring_run:
  "spsc_reachable small_ring
     \<lparr>ring = \<lparr>rb_head = 1, rb_tail = 1, data_buff = [7, 0]\<rparr>, prod = PLoaded 8 1, cons = CIdle,
      sent = [7], received = [7]\<rparr>"
proof -
  note go = spsc_reachable.step [where r = small_ring]
  have 0: "spsc_init small_ring = \<lparr>ring = \<lparr>rb_head = 0, rb_tail = 0, data_buff = [0, 0]\<rparr>, prod = PIdle,
      cons = CIdle, sent = [], received = []\<rparr>"
    by (simp add: spsc_init_def small_ring_def Ringbuffer_def)
  note 1 = go [OF spsc_reachable.start insert_load [where x = 7], unfolded 0, simplified]
  note 2 = go [OF 1 insert_room, simplified, simplified buffer_size_def, simplified]
  note 3 = go [OF 2 insert_store, simplified, simplified slot_def buffer_mask_def buffer_size_def, simplified]
  note 4 = go [OF 3 insert_publish, simplified]
  note 5 = go [OF 4 remove_load, simplified]
  note 6 = go [OF 5 remove_some, simplified]
  note 7 = go [OF 6 insert_load [where x = 8], simplified]
  note 8 = go [OF 7 remove_read, simplified, simplified slot_def buffer_mask_def buffer_size_def, simplified]
  note 9 = go [OF 8 remove_publish, simplified]
  show ?thesis using 9 by simp
qed

theorem spsc_fifo_witness:
  "\<exists>s. spsc_reachable small_ring s \<and> prod s \<noteq> PIdle \<and> received s = [7] \<and> prefix (received s) (sent s)"
  using spsc_fifo [OF small_ring_ok small_ring_run] small_ring_run by fastforce

end
