(* ===== verification/MemorySpace.thy ===== *)
theory MemorySpace
  imports Prelude
begin

text \<open>
  \<^verbatim>\<open>memory_space.cpp\<close> and \<^verbatim>\<open>memory_space.h\<close>: the allocator of the
  memory that host and device share, and the access to its bytes. The hole table is the code's:
  an array of \<open>NR_HOLES\<close> slots linked through \<open>h_next\<close>, one list of holes in address order from
  \<open>hole_head\<close>, one of unused slots from \<open>free_slots\<close>. A pointer to a slot is its index, a null
  pointer \<open>None\<close>. \<open>alloc_mutex\<close> is held over every operation, so each is one step.
\<close>

section \<open>State\<close>

record hole =
  h_next :: "nat option"
  h_base :: u32
  h_len :: u32

text \<open>
  \<open>bytes\<close> is the mapped memory, indexed from \<open>map_base\<close>; it has \<open>map_size\<close> bytes.
\<close>

record memory_space =
  hole_tab :: "nat \<Rightarrow> hole"
  hole_head :: "nat option"
  free_slots :: "nat option"
  iova_base :: u32
  map_size :: size_t
  bytes :: "nat \<Rightarrow> u8"

definition NR_HOLES :: nat where
  "NR_HOLES = 512"

text \<open>The constructor: every slot unused, linked in index order. \<open>map_size\<close> is set later.\<close>

definition MemorySpace :: "u32 \<Rightarrow> size_t \<Rightarrow> (nat \<Rightarrow> u8) \<Rightarrow> memory_space" where
  "MemorySpace iova sz raw =
     \<lparr>hole_tab = (\<lambda>i. \<lparr>h_next = (if i + 1 < NR_HOLES then Some (i + 1) else None), h_base = 0, h_len = 0\<rparr>),
      hole_head = None, free_slots = Some 0, iova_base = iova, map_size = sz, bytes = raw\<rparr>"

definition set_hole :: "nat \<Rightarrow> hole \<Rightarrow> memory_space \<Rightarrow> memory_space" where
  "set_hole i h s = s\<lparr>hole_tab := (hole_tab s)(i := h)\<rparr>"

section \<open>The hole table\<close>

text \<open>
  \<open>prev_ptr\<close> is dereferenced only if \<open>hp\<close> is not the first hole; a null pointer there is undefined.
\<close>

definition delete_slot :: "nat option \<Rightarrow> nat \<Rightarrow> memory_space \<Rightarrow> fault + memory_space" where
  "delete_slot prev_ptr hp s =
     (let unlinked =
        (if Some hp = hole_head s then Inr (s\<lparr>hole_head := h_next (hole_tab s hp)\<rparr>)
         else case prev_ptr of
             None \<Rightarrow> Inl UndefinedBehaviour
           | Some p \<Rightarrow> Inr (set_hole p ((hole_tab s p)\<lparr>h_next := h_next (hole_tab s hp)\<rparr>) s))
      in case unlinked of
          Inl e \<Rightarrow> Inl e
        | Inr s1 \<Rightarrow> Inr ((set_hole hp \<lparr>h_next = free_slots s1, h_base = 0, h_len = 0\<rparr> s1)
                       \<lparr>free_slots := Some hp\<rparr>))"

text \<open>One merging attempt: the hole \<open>hp\<close> absorbs its successor if the successor begins at its end.\<close>

definition touches :: "memory_space \<Rightarrow> nat \<Rightarrow> nat \<Rightarrow> bool" where
  "touches s hp nx \<longleftrightarrow>
     h_base (hole_tab s hp) + h_len (hole_tab s hp) = h_base (hole_tab s nx)"

definition absorb :: "nat \<Rightarrow> nat \<Rightarrow> memory_space \<Rightarrow> fault + memory_space" where
  "absorb hp nx s =
     delete_slot (Some hp) nx
       (set_hole hp ((hole_tab s hp)\<lparr>h_len := h_len (hole_tab s hp) + h_len (hole_tab s nx)\<rparr>) s)"

definition merge_hole :: "nat \<Rightarrow> memory_space \<Rightarrow> fault + memory_space" where
  "merge_hole hp s =
     (case h_next (hole_tab s hp) of
        None \<Rightarrow> Inr s
      | Some nx \<Rightarrow>
          (case (if touches s hp nx then map_sum id (\<lambda>s1. (hp, s1)) (absorb hp nx s) else Inr (nx, s)) of
             Inl e \<Rightarrow> Inl e
           | Inr (hp', s') \<Rightarrow>
               (case h_next (hole_tab s' hp') of
                  None \<Rightarrow> Inr s'
                | Some nx' \<Rightarrow> if touches s' hp' nx' then absorb hp' nx' s' else Inr s')))"

section \<open>Allocation\<close>

text \<open>
  The alignment gap of a hole (\<open>h_base % align\<close> in \<open>size_t\<close>), and taking a block out of the hole
  \<open>hp\<close> that is large enough.
\<close>

definition alignment_of :: "u32 \<Rightarrow> size_t \<Rightarrow> size_t" where
  "alignment_of base align =
     (if (ucast base :: size_t) mod align \<noteq> 0 then align - (ucast base :: size_t) mod align else 0)"

definition take_block ::
    "nat option \<Rightarrow> nat \<Rightarrow> size_t \<Rightarrow> size_t \<Rightarrow> memory_space \<Rightarrow> fault + (u32 \<times> memory_space)" where
  "take_block prev_ptr hp len alignment s =
     (let h = hole_tab s hp;
          old_base = (ucast ((ucast (h_base h) :: size_t) + alignment) :: u32);
          s1 = set_hole hp (h\<lparr>h_base := ucast ((ucast (h_base h) :: size_t) + (len + alignment)),
                              h_len := ucast ((ucast (h_len h) :: size_t) - (len + alignment))\<rparr>) s;
          s2 = (case prev_ptr of
                  None \<Rightarrow> s1
                | Some p \<Rightarrow>
                    if h_base (hole_tab s1 p) + h_len (hole_tab s1 p) = old_base
                    then set_hole p ((hole_tab s1 p)\<lparr>h_len :=
                           ucast ((ucast (h_len (hole_tab s1 p)) :: size_t) + alignment)\<rparr>) s1
                    else s1)
      in if h_len (hole_tab s2 hp) = 0
         then map_sum id (\<lambda>s3. (old_base, s3)) (delete_slot prev_ptr hp s2)
         else Inr (old_base, s2))"

text \<open>
  The search loop. It visits at most every slot once when the list is well formed, so a fuel of
  \<open>NR_HOLES + 1\<close> is enough; running out of fuel is \<open>Diverges\<close>. A zero \<open>align\<close> divides by zero.
\<close>

fun allocate_loop ::
    "nat \<Rightarrow> nat option \<Rightarrow> nat option \<Rightarrow> size_t \<Rightarrow> size_t \<Rightarrow> memory_space \<Rightarrow> fault + (u32 \<times> memory_space)" where
  "allocate_loop 0 prev_ptr hp len align s = Inl Diverges"
| "allocate_loop (Suc fuel) prev_ptr None len align s = Inl MemoryNotAvailable"
| "allocate_loop (Suc fuel) prev_ptr (Some hp) len align s =
     (if align = 0 then Inl UndefinedBehaviour
      else
        let alignment = alignment_of (h_base (hole_tab s hp)) align
        in if (ucast (h_len (hole_tab s hp)) :: size_t) \<ge> len + alignment
           then take_block prev_ptr hp len alignment s
           else allocate_loop fuel (Some hp) (h_next (hole_tab s hp)) len align s)"

definition allocate :: "size_t \<Rightarrow> size_t \<Rightarrow> memory_space \<Rightarrow> fault + (u32 \<times> memory_space)" where
  "allocate len align s = allocate_loop (Suc NR_HOLES) None (hole_head s) len align s"

text \<open>The macro \<open>roundup\<close>, and the page variants.\<close>

definition roundup :: "size_t \<Rightarrow> size_t \<Rightarrow> size_t" where
  "roundup x align = (if x mod align = 0 then x else (x + align) - (x mod align))"

definition allocate_pages :: "size_t \<Rightarrow> memory_space \<Rightarrow> fault + (u32 \<times> memory_space)" where
  "allocate_pages len s = allocate (roundup len 0x1000) 0x1000 s"

section \<open>Freeing\<close>

text \<open>The last hole below \<open>addr\<close>.\<close>

fun find_prev :: "nat \<Rightarrow> nat option \<Rightarrow> nat option \<Rightarrow> u32 \<Rightarrow> memory_space \<Rightarrow> fault + nat option" where
  "find_prev 0 prev_ptr hp addr s = Inl Diverges"
| "find_prev (Suc fuel) prev_ptr None addr s = Inr prev_ptr"
| "find_prev (Suc fuel) prev_ptr (Some hp) addr s =
     (if addr > h_base (hole_tab s hp)
      then find_prev fuel (Some hp) (h_next (hole_tab s hp)) addr s
      else Inr prev_ptr)"

text \<open>\<open>MemorySpace::free\<close>; \<open>h_len\<close> has 32 bits, so the length is cut down to them.\<close>

definition free_mem :: "u32 \<Rightarrow> size_t \<Rightarrow> memory_space \<Rightarrow> fault + memory_space" where
  "free_mem addr len s =
     (if len = 0 then Inr s
      else case free_slots s of
          None \<Rightarrow> Inl Aborted
        | Some new \<Rightarrow>
            let s1 = (set_hole new ((hole_tab s new)\<lparr>h_base := addr, h_len := ucast len\<rparr>) s)
                       \<lparr>free_slots := h_next (hole_tab s new)\<rparr>;
                hp = hole_head s1
            in if (case hp of None \<Rightarrow> True | Some i \<Rightarrow> addr \<le> h_base (hole_tab s1 i))
               then merge_hole new
                      ((set_hole new ((hole_tab s1 new)\<lparr>h_next := hp\<rparr>) s1)\<lparr>hole_head := Some new\<rparr>)
               else (case find_prev (Suc NR_HOLES) None hp addr s1 of
                       Inl e \<Rightarrow> Inl e
                     | Inr None \<Rightarrow> Inl UndefinedBehaviour
                     | Inr (Some p) \<Rightarrow>
                         let s2 = set_hole new ((hole_tab s1 new)\<lparr>h_next := h_next (hole_tab s1 p)\<rparr>) s1
                         in merge_hole p (set_hole p ((hole_tab s2 p)\<lparr>h_next := Some new\<rparr>) s2)))"

definition free_pages :: "u32 \<Rightarrow> size_t \<Rightarrow> memory_space \<Rightarrow> fault + memory_space" where
  "free_pages addr len s = free_mem addr (roundup len 0x1000) s"

section \<open>Access to the bytes\<close>

text \<open>
  The range check of \<open>read\<close>, \<open>write\<close> and \<open>memset\<close>: the address is taken relative to \<open>iova_base\<close>
  in 32 bits, then compared in \<open>size_t\<close>.
\<close>

definition in_map :: "u32 \<Rightarrow> size_t \<Rightarrow> memory_space \<Rightarrow> bool" where
  "in_map addr len s \<longleftrightarrow>
     (ucast (addr - iova_base s) :: size_t) < map_size s \<and>
     (ucast (addr - iova_base s) :: size_t) + len \<le> map_size s"

definition peek_bytes :: "(nat \<Rightarrow> u8) \<Rightarrow> nat \<Rightarrow> nat \<Rightarrow> u8 list" where
  "peek_bytes m a n = map (\<lambda>i. m (a + i)) [0..<n]"

definition poke_bytes :: "nat \<Rightarrow> u8 list \<Rightarrow> (nat \<Rightarrow> u8) \<Rightarrow> (nat \<Rightarrow> u8)" where
  "poke_bytes a bs m = (\<lambda>i. if a \<le> i \<and> i < a + length bs then bs ! (i - a) else m i)"

text \<open>The three cases of the \<open>switch\<close> on the length all copy \<open>len\<close> bytes.\<close>

definition mem_read :: "u32 \<Rightarrow> size_t \<Rightarrow> memory_space \<Rightarrow> fault + u8 list" where
  "mem_read addr len s =
     (if in_map addr len s
      then Inr (peek_bytes (bytes s) (unat (addr - iova_base s)) (unat len))
      else Inl AssertFailed)"

definition mem_write :: "u32 \<Rightarrow> u8 list \<Rightarrow> memory_space \<Rightarrow> fault + memory_space" where
  "mem_write addr buf s =
     (if in_map addr (of_nat (length buf)) s
      then Inr (s\<lparr>bytes := poke_bytes (unat (addr - iova_base s)) buf (bytes s)\<rparr>)
      else Inl AssertFailed)"

definition mem_set :: "u32 \<Rightarrow> u8 \<Rightarrow> size_t \<Rightarrow> memory_space \<Rightarrow> fault + memory_space" where
  "mem_set addr c len s =
     (if in_map addr len s
      then Inr (s\<lparr>bytes := poke_bytes (unat (addr - iova_base s)) (replicate (unat len) c) (bytes s)\<rparr>)
      else Inl AssertFailed)"

section \<open>The two kinds of memory\<close>

text \<open>
  The constructors, after \<open>open\<close> and \<open>mmap\<close> have succeeded: \<open>raw\<close> is the content of the mapping,
  \<open>file_size\<close> the size of the shared file.
\<close>

definition SharedMemorySpace :: "size_t \<Rightarrow> (nat \<Rightarrow> u8) \<Rightarrow> fault + memory_space" where
  "SharedMemorySpace file_size raw =
     free_mem 0x1000 (file_size - 0x1000) (MemorySpace 0 file_size raw)"

definition VfioMemorySpace :: "u32 \<Rightarrow> size_t \<Rightarrow> (nat \<Rightarrow> u8) \<Rightarrow> fault + memory_space" where
  "VfioMemorySpace iova sz raw =
     free_mem iova (ucast iova + sz) (MemorySpace iova sz raw)"

end
