(* ===== verification/HoleSpec.thy ===== *)
theory HoleSpec
  imports Prelude
begin

text \<open>
  The abstract specification of the address-range allocator: the free memory as a list of holes
  (base, length) in address order, over natural numbers, with first-fit allocation and freeing
  with coalescing as list functions. Theory MemorySpace refines it to the linked hole table of
  \<^verbatim>\<open>memory_space.cpp\<close>. The lemmas say which addresses an operation takes and gives back.
\<close>

type_synonym hole_list = "(nat \<times> nat) list"

text \<open>Holes in address order, none empty, never two that touch, all within 32-bit addresses.\<close>

fun wf_from :: "nat \<Rightarrow> hole_list \<Rightarrow> bool" where
  "wf_from lo [] = True"
| "wf_from lo ((b, l) # hs) = (lo \<le> b \<and> 0 < l \<and> b + l \<le> 2 ^ 32 \<and> wf_from (Suc (b + l)) hs)"

abbreviation wf_holes :: "hole_list \<Rightarrow> bool" where
  "wf_holes \<equiv> wf_from 0"

fun span :: "hole_list \<Rightarrow> nat set" where
  "span [] = {}"
| "span ((b, l) # hs) = {b..<b + l} \<union> span hs"

text \<open>The bytes skipped in a hole to reach the alignment.\<close>

definition pad :: "nat \<Rightarrow> nat \<Rightarrow> nat" where
  "pad b align = (if b mod align \<noteq> 0 then align - b mod align else 0)"

fun alloc_spec :: "nat \<Rightarrow> nat \<Rightarrow> hole_list \<Rightarrow> (nat \<times> hole_list) option" where
  "alloc_spec len align [] = None"
| "alloc_spec len align ((b, l) # hs) =
     (if len + pad b align \<le> l then
        Some (b + pad b align,
              if len + pad b align = l then hs
              else (b + pad b align + len, l - (len + pad b align)) # hs)
      else map_option (\<lambda>(a, hs'). (a, (b, l) # hs')) (alloc_spec len align hs))"

fun free_spec :: "nat \<Rightarrow> nat \<Rightarrow> hole_list \<Rightarrow> hole_list" where
  "free_spec a n [] = [(a, n)]"
| "free_spec a n ((b, l) # hs) =
     (if a \<le> b then if a + n = b then (a, n + l) # hs else (a, n) # (b, l) # hs
      else if b + l = a then free_spec b (l + n) hs
      else (b, l) # free_spec a n hs)"

section \<open>Well-formed hole lists\<close>

lemma wf_from_mono: "wf_from lo hs \<Longrightarrow> lo' \<le> lo \<Longrightarrow> wf_from lo' hs"
  by (cases hs) auto

lemma wf_from_holes: "wf_from lo hs \<Longrightarrow> wf_holes hs"
  by (erule wf_from_mono) simp

lemma wf_from_append:
  "wf_from lo (xs @ ys) \<longleftrightarrow>
     wf_from lo xs \<and> wf_from (if xs = [] then lo else Suc (fst (last xs) + snd (last xs))) ys"
  by (induction lo xs rule: wf_from.induct) auto

lemma span_append [simp]: "span (xs @ ys) = span xs \<union> span ys"
  by (induction xs rule: span.induct) auto

lemma span_bound: "wf_from lo hs \<Longrightarrow> x \<in> span hs \<Longrightarrow> lo \<le> x \<and> x < 2 ^ 32"
proof (induction lo hs rule: wf_from.induct)
  case (1 lo)
  then show ?case by simp
next
  case (2 lo b l hs)
  then show ?case by (cases "x \<in> span hs") auto
qed

lemma finite_span [simp]: "finite (span hs)"
  by (induction hs rule: span.induct) auto

text \<open>The number of free bytes is the sum of the lengths: holes do not overlap.\<close>

lemma card_span: "wf_from lo hs \<Longrightarrow> card (span hs) = sum_list (map snd hs)"
proof (induction lo hs rule: wf_from.induct)
  case (1 lo)
  then show ?case by simp
next
  case (2 lo b l hs)
  then have "{b..<b + l} \<inter> span hs = {}" by (fastforce dest: span_bound)
  with 2 show ?case by (simp add: card_Un_disjoint)
qed

section \<open>Allocation\<close>

lemma pad_aligned:
  assumes "0 < align"
  shows "(b + pad b align) mod align = 0"
proof (cases "b mod align = 0")
  case True
  then show ?thesis by (simp add: pad_def)
next
  case False
  have "b + (align - b mod align) = align * (b div align) + align"
    using mult_div_mod_eq [of align b] mod_less_divisor [OF assms, of b] by linarith
  with False show ?thesis by (simp add: pad_def)
qed

lemma pad_less: "0 < align \<Longrightarrow> pad b align < align"
  by (simp add: pad_def)

lemma pad_one [simp]: "pad b (Suc 0) = 0"
  by (simp add: pad_def)

lemma pad_aligned_base [simp]: "b mod align = 0 \<Longrightarrow> pad b align = 0"
  by (simp add: pad_def)

text \<open>
  First fit: the holes before the chosen one are too small, the block lies in the chosen hole
  right behind the padding, and exactly the padding and the block leave the free memory.
\<close>

lemma alloc_spec_Some:
  assumes "alloc_spec len align hs = Some (a, hs')"
  obtains pre b l post where "hs = pre @ (b, l) # post" "a = b + pad b align"
    "len + pad b align \<le> l" "\<forall>(c, m) \<in> set pre. m < len + pad c align"
    "hs' = pre @ (if len + pad b align = l then post
                  else (b + pad b align + len, l - (len + pad b align)) # post)"
proof -
  have "\<exists>pre b l post. hs = pre @ (b, l) # post \<and> a = b + pad b align \<and>
      len + pad b align \<le> l \<and> (\<forall>(c, m) \<in> set pre. m < len + pad c align) \<and>
      hs' = pre @ (if len + pad b align = l then post
                  else (b + pad b align + len, l - (len + pad b align)) # post)"
    using assms
  proof (induction hs arbitrary: hs')
    case Nil
    then show ?case by simp
  next
    case (Cons h hs)
    obtain b l where h: "h = (b, l)" by (cases h)
    show ?case
    proof (cases "len + pad b align \<le> l")
      case True
      with Cons.prems h show ?thesis by (intro exI [of _ "[]"]) auto
    next
      case False
      with Cons.prems h obtain hs1 where rec: "alloc_spec len align hs = Some (a, hs1)"
        and hs': "hs' = h # hs1"
        by auto
      from Cons.IH [OF rec] obtain pre b' l' post where IH: "hs = pre @ (b', l') # post"
        "a = b' + pad b' align" "len + pad b' align \<le> l'" "\<forall>(c, m) \<in> set pre. m < len + pad c align"
        "hs1 = pre @ (if len + pad b' align = l' then post
                  else (b' + pad b' align + len, l' - (len + pad b' align)) # post)"
        by blast
      show ?thesis using IH False h hs'
        by (intro exI [of _ "h # pre"] exI [of _ b'] exI [of _ l'] exI [of _ post]) auto
    qed
  qed
  then show thesis using that by blast
qed

lemma alloc_spec_None: "alloc_spec len align hs = None \<longleftrightarrow> (\<forall>(b, l) \<in> set hs. l < len + pad b align)"
  by (induction hs) (auto split: if_splits)

lemma alloc_spec_effect:
  assumes "wf_from lo hs" "alloc_spec len align hs = Some (a, hs')"
  shows "wf_from lo hs'"
    and "{a..<a + len} \<subseteq> span hs"
    and "\<exists>b l. (b, l) \<in> set hs \<and> a = b + pad b align \<and> {b..<a + len} \<subseteq> span hs \<and>
      span hs' = span hs - {b..<a + len}"
proof -
  obtain pre b l post where alloc: "hs = pre @ (b, l) # post" "a = b + pad b align"
    "len + pad b align \<le> l"
    "hs' = pre @ (if len + pad b align = l then post
                  else (b + pad b align + len, l - (len + pad b align)) # post)"
    using alloc_spec_Some [OF assms(2)] by metis
  define lo' where "lo' = (if pre = [] then lo else Suc (fst (last pre) + snd (last pre)))"
  have wf: "wf_from lo pre" "lo' \<le> b" "0 < l" "b + l \<le> 2 ^ 32" "wf_from (Suc (b + l)) post"
    using assms(1) unfolding alloc(1) by (auto simp: wf_from_append lo'_def)
  have post': "wf_from lo' post" using wf(2,5) by (auto intro: wf_from_mono)
  show "wf_from lo hs'"
    unfolding alloc(4) wf_from_append lo'_def [symmetric]
    using wf alloc(3) post' by (auto intro: wf_from_mono)
  show "{a..<a + len} \<subseteq> span hs" using alloc(1-3) by auto
  have before: "x < b" if "x \<in> span pre" for x
    using that assms(1) unfolding alloc(1)
  proof (induction pre arbitrary: lo)
    case (Cons h pre)
    obtain c m where h: "h = (c, m)" by (cases h)
    show ?case
    proof (cases "x \<in> span pre")
      case True
      with Cons h show ?thesis by auto
    next
      case False
      then have "x < c + m" using Cons.prems(1) h by auto
      moreover have "b \<in> span (pre @ (b, l) # post)" using wf(3) by simp
      then have "c + m < b" using Cons.prems(2) h span_bound [of "Suc (c + m)"] by fastforce
      ultimately show ?thesis by simp
    qed
  qed simp
  have after: "b + l < x" if "x \<in> span post" for x using span_bound [OF wf(5) that] by simp
  have "span hs' = span hs - {b..<a + len}"
    using before after alloc(2,3) unfolding alloc(1,4) by (auto dest: before after)
  moreover have "{b..<a + len} \<subseteq> span hs" using alloc(1-3) by auto
  ultimately show "\<exists>b l. (b, l) \<in> set hs \<and> a = b + pad b align \<and> {b..<a + len} \<subseteq> span hs \<and>
      span hs' = span hs - {b..<a + len}"
    using alloc(1,2) by auto
qed

section \<open>Freeing\<close>

lemma free_spec_effect:
  assumes "wf_from lo hs" "lo \<le> a" "0 < n" "a + n \<le> 2 ^ 32" "{a..<a + n} \<inter> span hs = {}"
  shows "wf_from lo (free_spec a n hs) \<and> span (free_spec a n hs) = {a..<a + n} \<union> span hs"
  using assms
proof (induction a n hs arbitrary: lo rule: free_spec.induct)
  case (1 a n)
  then show ?case by simp
next
  case (2 a n b l hs)
  have b: "lo \<le> b" "0 < l" "b + l \<le> 2 ^ 32" "wf_from (Suc (b + l)) hs" using "2.prems"(1) by auto
  have apart: "a + n \<le> b \<or> b + l \<le> a"
  proof (rule ccontr)
    assume "\<not> ?thesis"
    then have "max a b \<in> {a..<a + n} \<inter> span ((b, l) # hs)" using b(2) "2.prems"(3) by auto
    with "2.prems"(5) show False by blast
  qed
  have later: "b + l < x" if "x \<in> span hs" for x using span_bound [OF b(4) that] by simp
  show ?case
  proof (cases "a \<le> b")
    case True
    with apart b(2) have "a + n \<le> b" by linarith
    with True b "2.prems"(2,3) show ?thesis by (auto simp: add.assoc)
  next
    case False
    with apart have a: "b + l \<le> a" using "2.prems"(3) by linarith
    have dis: "{a..<a + n} \<inter> span hs = {}" using "2.prems"(5) by auto
    show ?thesis
    proof (cases "b + l = a")
      case True
      have "x \<notin> span hs" if "x \<in> {b..<b + (l + n)}" for x
        using dis True later [of x] that by (auto simp: disjoint_iff)
      then have "{b..<b + (l + n)} \<inter> span hs = {}" by blast
      moreover have "wf_from lo hs" by (rule wf_from_mono [OF b(4)]) (use b(1) in simp)
      ultimately have IH: "wf_from lo (free_spec b (l + n) hs) \<and>
          span (free_spec b (l + n) hs) = {b..<b + (l + n)} \<union> span hs"
        using False True b(1,2) "2.prems"(4) by (intro "2.IH"(1)) auto
      have step: "free_spec a n ((b, l) # hs) = free_spec b (l + n) hs" using False True by simp
      have "{b..<b + (l + n)} = {a..<a + n} \<union> {b..<b + l}" using True by auto
      then show ?thesis using IH unfolding step by (simp only: span.simps Un_assoc simp_thms)
    next
      case far: False
      then have "Suc (b + l) \<le> a" using a by simp
      then have "wf_from (Suc (b + l)) (free_spec a n hs) \<and>
          span (free_spec a n hs) = {a..<a + n} \<union> span hs"
        using False far b(4) "2.prems"(3,4) dis by (intro "2.IH"(2)) auto
      then show ?thesis using False far b(1-3) by auto
    qed
  qed
qed

text \<open>Freeing a block that an unaligned allocation has just taken restores the hole list.\<close>

lemma free_after_alloc:
  assumes "wf_from lo hs" "0 < n" "alloc_spec n (Suc 0) hs = Some (a, hs')"
  shows "free_spec a n hs' = hs"
  using assms
proof (induction hs arbitrary: lo hs')
  case Nil
  then show ?case by simp
next
  case (Cons h hs)
  obtain b l where h: "h = (b, l)" by (cases h)
  show ?case
  proof (cases "n \<le> l")
    case True
    then have a: "a = b" and hs': "hs' = (if n = l then hs else (b + n, l - n) # hs)"
      using Cons.prems(3) h by (auto split: if_splits)
    have "free_spec b l hs = (b, l) # hs"
      using Cons.prems(1,2) h by (cases hs) auto
    with True a hs' h Cons.prems(2) show ?thesis by auto
  next
    case False
    then obtain hs1 where rec: "alloc_spec n (Suc 0) hs = Some (a, hs1)" and hs': "hs' = h # hs1"
      using Cons.prems(3) h by auto
    have wf: "wf_from (Suc (b + l)) hs" using Cons.prems(1) h by simp
    have "a \<in> span hs" using alloc_spec_effect(2) [OF wf rec] Cons.prems(2) by auto
    then have "b + l < a" using span_bound [OF wf] by fastforce
    then show ?thesis using Cons.IH [OF wf Cons.prems(2) rec] hs' h by simp
  qed
qed

end
