(* ===== verification/HoleTable.thy ===== *)
theory HoleTable
  imports MemorySpace HoleSpec
begin

text \<open>
  The linked hole table of theory MemorySpace refines the hole lists of theory HoleSpec: the
  well-formedness of the two linked lists of slots, what \<open>delete_slot\<close>, \<open>merge_hole\<close>, \<open>allocate\<close>
  and \<open>free\<close> do to them, and the invariant \<open>ms_ok\<close> with the abstraction \<open>free_list\<close>.
\<close>

section \<open>The linked lists of the table\<close>

text \<open>The slots met on the way from pointer \<open>p\<close> to pointer \<open>q\<close>.\<close>

primrec seg :: "(nat \<Rightarrow> hole) \<Rightarrow> nat option \<Rightarrow> nat list \<Rightarrow> nat option \<Rightarrow> bool" where
  "seg t p [] q = (p = q)"
| "seg t p (i # is) q = (p = Some i \<and> seg t (h_next (t i)) is q)"

lemma seg_append [simp]: "seg t p (xs @ ys) q \<longleftrightarrow> (\<exists>r. seg t p xs r \<and> seg t r ys q)"
  by (induction xs arbitrary: p) auto

lemma seg_upd [simp]: "i \<notin> set xs \<Longrightarrow> seg (t(i := v)) p xs q = seg t p xs q"
  by (induction xs arbitrary: p) auto

lemma seg_upd_same_next [simp]: "h_next v = h_next (t i) \<Longrightarrow> seg (t(i := v)) p xs q = seg t p xs q"
  by (induction xs arbitrary: p) auto

text \<open>
  \<open>chains s us fs\<close>: \<open>us\<close> is the list of holes and \<open>fs\<close> the list of unused slots; together they are
  all slots of the table, each once.
\<close>

definition chains :: "memory_space \<Rightarrow> nat list \<Rightarrow> nat list \<Rightarrow> bool" where
  "chains s us fs \<longleftrightarrow>
     seg (hole_tab s) (hole_head s) us None \<and> seg (hole_tab s) (free_slots s) fs None \<and>
     distinct (us @ fs) \<and> set (us @ fs) = {..<NR_HOLES}"

definition hole_abs :: "(nat \<Rightarrow> hole) \<Rightarrow> nat \<Rightarrow> nat \<times> nat" where
  "hole_abs t i = (unat (h_base (t i)), unat (h_len (t i)))"

abbreviation habs :: "memory_space \<Rightarrow> nat list \<Rightarrow> hole_list" where
  "habs s us \<equiv> map (hole_abs (hole_tab s)) us"

text \<open>Only the hole table changes, not the memory.\<close>

definition same_mem :: "memory_space \<Rightarrow> memory_space \<Rightarrow> bool" where
  "same_mem s s' \<longleftrightarrow> iova_base s' = iova_base s \<and> map_size s' = map_size s \<and> bytes s' = bytes s"

lemma same_mem_refl [simp]: "same_mem s s"
  by (simp add: same_mem_def)

lemma same_mem_trans: "same_mem s t \<Longrightarrow> same_mem t u \<Longrightarrow> same_mem s u"
  by (simp add: same_mem_def)

lemma set_hole_sel [simp]:
  "hole_tab (set_hole i h s) = (hole_tab s)(i := h)"
  "hole_head (set_hole i h s) = hole_head s"
  "free_slots (set_hole i h s) = free_slots s"
  "same_mem s' (set_hole i h s) = same_mem s' s"
  by (simp_all add: set_hole_def same_mem_def)

lemma same_mem_upd [simp]:
  "same_mem s' (s\<lparr>hole_head := p\<rparr>) = same_mem s' s"
  "same_mem s' (s\<lparr>free_slots := p\<rparr>) = same_mem s' s"
  by (simp_all add: same_mem_def)

text \<open>Whatever the state, an operation that returns has left the memory alone.\<close>

lemma delete_slot_same_mem: "delete_slot p i s = Inr s' \<Longrightarrow> same_mem s s'"
  by (auto simp: delete_slot_def set_hole_def same_mem_def split: if_splits option.splits)

lemma absorb_same_mem: "absorb i j s = Inr s' \<Longrightarrow> same_mem s s'"
  unfolding absorb_def by (drule delete_slot_same_mem) (simp add: same_mem_def set_hole_def)

lemma merge_hole_same_mem: "merge_hole i s = Inr s' \<Longrightarrow> same_mem s s'"
  unfolding merge_hole_def
  by (auto simp: map_sum_Inr_iff split: option.splits sum.splits if_splits dest!: absorb_same_mem intro: same_mem_trans)

lemma free_mem_same_mem: 
  assumes "free_mem a n s = Inr s'" shows "same_mem s s'"
proof -
  have *: "same_mem s s'" if "merge_hole i s2 = Inr s'" "same_mem s s2" for i s2
    using that by (blast dest: merge_hole_same_mem intro: same_mem_trans)
  show ?thesis using assms unfolding free_mem_def
    by (auto simp: Let_def split: option.splits sum.splits if_splits elim!: *)
qed

lemma take_block_same_mem: "take_block p i len al s = Inr (a, s') \<Longrightarrow> same_mem s s'"
proof -
  have *: "same_mem s s'" if "delete_slot q i s2 = Inr s'" "same_mem s s2" for q i s2
    using that by (blast dest: delete_slot_same_mem intro: same_mem_trans)
  show "take_block p i len al s = Inr (a, s') \<Longrightarrow> same_mem s s'"
    unfolding take_block_def
  by (auto simp: Let_def map_sum_def  split: option.splits sum.splits if_splits elim!: *)
qed

lemma allocate_same_mem: "allocate len al s = Inr (a, s') \<Longrightarrow> same_mem s s'"
proof -
  have "allocate_loop fuel p q len al s = Inr (a, s') \<Longrightarrow> same_mem s s'" for fuel p q
    by (induction fuel p q len al s rule: allocate_loop.induct) (auto simp: Let_def split: if_splits dest: take_block_same_mem)
  then show "allocate len al s = Inr (a, s') \<Longrightarrow> same_mem s s'" by (simp add: allocate_def)
qed

lemma chains_length: "chains s us fs \<Longrightarrow> length us + length fs = NR_HOLES"
proof -
  assume c: "chains s us fs"
  then have "card (set (us @ fs)) = length (us @ fs)" by (intro distinct_card) (simp add: chains_def)
  with c show ?thesis by (simp only: chains_def card_lessThan length_append)
qed

text \<open>Changing base and length of a slot leaves the lists as they are.\<close>

lemma chains_set_fields:
  "chains s us fs \<Longrightarrow> h_next h = h_next (hole_tab s i) \<Longrightarrow> chains (set_hole i h s) us fs"
  by (simp add: chains_def)

lemma habs_set_other [simp]: "i \<notin> set us \<Longrightarrow> map (hole_abs ((hole_tab s)(i := h))) us = habs s us"
  by (simp add: hole_abs_def)

lemma hole_abs_upd [simp]: "hole_abs (t(i := h)) i = (unat (h_base h), unat (h_len h))"
  by (simp add: hole_abs_def)

lemma hole_abs_upd_other [simp]: "i \<noteq> j \<Longrightarrow> hole_abs (t(i := h)) j = hole_abs t j"
  by (simp add: hole_abs_def)

definition prev_of :: "nat list \<Rightarrow> nat option" where
  "prev_of ps = (if ps = [] then None else Some (last ps))"

lemma prev_of_simps [simp]: "prev_of [] = None" "prev_of (ps @ [i]) = Some i"
  by (simp_all add: prev_of_def)

text \<open>Unlinking a hole moves its slot to the front of the unused ones.\<close>

lemma delete_slot_chains:
  assumes "chains s (ps @ i # qs) fs" "ps \<noteq> [] \<Longrightarrow> p = Some (last ps)"
  obtains s' where "delete_slot p i s = Inr s'" "chains s' (ps @ qs) (i # fs)"
    "\<And>us. i \<notin> set us \<Longrightarrow> habs s' us = habs s us" "same_mem s s'"
proof (cases ps rule: rev_cases)
  case Nil
  with assms(1) have head: "hole_head s = Some i" by (simp add: chains_def)
  let ?s' = "(set_hole i \<lparr>h_next = free_slots s, h_base = 0, h_len = 0\<rparr>
      (s\<lparr>hole_head := h_next (hole_tab s i)\<rparr>))\<lparr>free_slots := Some i\<rparr>"
  have "delete_slot p i s = Inr ?s'" using head by (simp add: delete_slot_def)
  moreover have "chains ?s' (ps @ qs) (i # fs)" using assms(1) Nil by (auto simp: chains_def)
  ultimately show thesis by (rule that) simp_all
next
  case (snoc ps' j)
  have p: "p = Some j" using assms(2) snoc by simp
  have head: "hole_head s \<noteq> Some i" using assms(1) snoc by (cases ps') (auto simp: chains_def)
  let ?s1 = "set_hole j ((hole_tab s j)\<lparr>h_next := h_next (hole_tab s i)\<rparr>) s"
  let ?s' = "(set_hole i \<lparr>h_next = free_slots s, h_base = 0, h_len = 0\<rparr> ?s1)\<lparr>free_slots := Some i\<rparr>"
  have "delete_slot p i s = Inr ?s'" using head p by (simp add: delete_slot_def)
  moreover have "chains ?s' (ps @ qs) (i # fs)" using assms(1) snoc by (auto simp: chains_def)
  moreover have "habs ?s' us = habs s us" if "i \<notin> set us" for us
    using that by (auto simp: hole_abs_def)
  ultimately show thesis by (rule that) simp_all
qed

section \<open>Merging\<close>

text \<open>As \<open>wf_from\<close>, but neighbours may touch: the list right after a hole has been linked in.\<close>

fun wf_touch :: "nat \<Rightarrow> hole_list \<Rightarrow> bool" where
  "wf_touch lo [] = True"
| "wf_touch lo ((b, l) # hs) = (lo \<le> b \<and> 0 < l \<and> b + l \<le> 2 ^ 32 \<and> wf_touch (b + l) hs)"

fun merge_one :: "hole_list \<Rightarrow> hole_list" where
  "merge_one ((b, l) # (c, m) # hs) = (if b + l = c then (b, l + m) # hs else (b, l) # (c, m) # hs)"
| "merge_one hs = hs"

fun merge_two :: "hole_list \<Rightarrow> hole_list" where
  "merge_two ((b, l) # (c, m) # hs) =
     (if b + l = c then merge_one ((b, l + m) # hs) else (b, l) # merge_one ((c, m) # hs))"
| "merge_two hs = hs"

lemma wf_touch_mono: "wf_touch lo hs \<Longrightarrow> lo' \<le> lo \<Longrightarrow> wf_touch lo' hs"
  by (cases hs) auto

lemma wf_from_touch: "wf_from lo hs \<Longrightarrow> wf_touch lo hs"
  by (induction lo hs rule: wf_from.induct) (auto intro: wf_touch_mono)

lemma unat_eq_add:
  fixes x y z :: u32
  assumes "unat x + unat y \<le> 2 ^ 32" "0 < unat z"
  shows "x + y = z \<longleftrightarrow> unat x + unat y = unat z"
proof (cases "unat x + unat y = 2 ^ 32")
  case True
  then have "unat (x + y) = 0" by (simp add: unat_word_ariths)
  with True assms(2) show ?thesis using less_imp_neq [OF unat_u32_lt [of z]] by (auto simp: word_unat_eq_iff)
next
  case False
  then have "unat (x + y) = unat x + unat y" using assms(1) by (intro unat_add_lt) simp
  then show ?thesis by (simp add: word_unat_eq_iff)
qed

lemma touches_iff:
  assumes "wf_touch lo (hole_abs (hole_tab s) i # hole_abs (hole_tab s) j # hs)" "0 < lo"
  shows "touches s i j \<longleftrightarrow> fst (hole_abs (hole_tab s) i) + snd (hole_abs (hole_tab s) i) =
    fst (hole_abs (hole_tab s) j)"
  using assms by (auto simp: touches_def hole_abs_def intro!: unat_eq_add)

lemma absorb_chains:
  assumes "chains s (ps @ i # j # qs) fs"
    and "unat (h_len (hole_tab s i)) + unat (h_len (hole_tab s j)) < 2 ^ 32"
  obtains s' where "absorb i j s = Inr s'" "chains s' (ps @ i # qs) (j # fs)"
    "habs s' (ps @ i # qs) = habs s ps @ (fst (hole_abs (hole_tab s) i),
       snd (hole_abs (hole_tab s) i) + snd (hole_abs (hole_tab s) j)) # habs s qs"
    "same_mem s s'"
proof -
  let ?s1 = "set_hole i ((hole_tab s i)\<lparr>h_len := h_len (hole_tab s i) + h_len (hole_tab s j)\<rparr>) s"
  have "chains ?s1 ((ps @ [i]) @ j # qs) fs" using assms(1) by (intro chains_set_fields) simp_all
  then obtain s' where s': "delete_slot (Some i) j ?s1 = Inr s'" "chains s' ((ps @ [i]) @ qs) (j # fs)"
    "\<And>us. j \<notin> set us \<Longrightarrow> habs s' us = habs ?s1 us" "same_mem ?s1 s'"
    by (rule delete_slot_chains [where p = "Some i"]) simp_all
  have dist: "j \<notin> set (ps @ i # qs)" "i \<notin> set ps" "i \<notin> set qs" using assms(1) by (auto simp: chains_def)
  have "unat (h_len (hole_tab s i) + h_len (hole_tab s j)) =
      unat (h_len (hole_tab s i)) + unat (h_len (hole_tab s j))"
    using assms(2) by (intro unat_add_lt) simp
  then have ab: "habs s' (ps @ i # qs) = habs s ps @ (fst (hole_abs (hole_tab s) i),
      snd (hole_abs (hole_tab s) i) + snd (hole_abs (hole_tab s) j)) # habs s qs"
    using s'(3) [OF dist(1)] dist(2,3) by (simp add: hole_abs_def [of "hole_tab s"])
  have "same_mem s s'" using s'(4) by (simp add: same_mem_def set_hole_def)
  with s'(1,2) ab show thesis by (intro that [of s']) (simp_all add: absorb_def)
qed

text \<open>One attempt: merge \<open>i\<close> with its successor if they touch.\<close>

lemma try_absorb:
  assumes "chains s (ps @ i # qs) fs" "wf_touch lo (habs s (i # qs))" "0 < lo"
  obtains s' us' fs' where
    "(case h_next (hole_tab s i) of None \<Rightarrow> Inr s | Some j \<Rightarrow> if touches s i j then absorb i j s else Inr s)
      = Inr s'"
    "chains s' us' fs'" "habs s' us' = habs s ps @ merge_one (habs s (i # qs))" "same_mem s s'"
proof (cases qs)
  case Nil
  with assms(1) have "h_next (hole_tab s i) = None" by (simp add: chains_def)
  then show thesis using assms(1) Nil by (intro that [of s "ps @ [i]" fs]) simp_all
next
  case (Cons j qs')
  with assms(1) have next_j: "h_next (hole_tab s i) = Some j" by (auto simp: chains_def)
  have t: "touches s i j \<longleftrightarrow> fst (hole_abs (hole_tab s) i) + snd (hole_abs (hole_tab s) i) =
      fst (hole_abs (hole_tab s) j)"
    using assms(2,3) Cons by (intro touches_iff) simp_all
  show thesis
  proof (cases "touches s i j")
    case False
    then show thesis using assms(1) next_j t Cons
      by (intro that [of s "ps @ i # qs" fs]) (auto simp: hole_abs_def)
  next
    case True
    have "unat (h_len (hole_tab s i)) + unat (h_len (hole_tab s j)) < 2 ^ 32"
      using assms(2,3) True t Cons by (auto simp: hole_abs_def)
    with assms(1) Cons obtain s' where s': "absorb i j s = Inr s'" "chains s' (ps @ i # qs') (j # fs)"
      "habs s' (ps @ i # qs') = habs s ps @ (fst (hole_abs (hole_tab s) i),
         snd (hole_abs (hole_tab s) i) + snd (hole_abs (hole_tab s) j)) # habs s qs'"
      "same_mem s s'"
      using absorb_chains by metis
    then show thesis using next_j True t Cons
      by (intro that [of s' "ps @ i # qs'" "j # fs"]) (auto simp: hole_abs_def)
  qed
qed

lemma merge_hole_chains:
  assumes "chains s (ps @ i # qs) fs" "wf_touch lo (habs s (i # qs))" "0 < lo"
  obtains s' us' fs' where "merge_hole i s = Inr s'" "chains s' us' fs'"
    "habs s' us' = habs s ps @ merge_two (habs s (i # qs))" "same_mem s s'"
proof (cases qs)
  case Nil
  with assms(1) have "h_next (hole_tab s i) = None" by (simp add: chains_def)
  then show thesis using assms(1) Nil
    by (intro that [of s "ps @ [i]" fs]) (simp_all add: merge_hole_def)
next
  case (Cons j qs')
  with assms(1) have next_j: "h_next (hole_tab s i) = Some j" by (auto simp: chains_def)
  obtain b l where i: "hole_abs (hole_tab s) i = (b, l)" by (cases "hole_abs (hole_tab s) i")
  obtain c m where j: "hole_abs (hole_tab s) j = (c, m)" by (cases "hole_abs (hole_tab s) j")
  have t: "touches s i j \<longleftrightarrow> b + l = c"
    using touches_iff [of lo s i j "habs s qs'"] assms(2,3) Cons i j by simp
  show thesis
  proof (cases "b + l = c")
    case False
    have "chains s ((ps @ [i]) @ j # qs') fs" "wf_touch c (habs s (j # qs'))" "0 < c"
      using assms Cons i j False by auto
    then obtain s' us' fs' where
      "(case h_next (hole_tab s j) of None \<Rightarrow> Inr s | Some k \<Rightarrow> if touches s j k then absorb j k s else Inr s)
        = Inr s'"
      "chains s' us' fs'" "habs s' us' = habs s (ps @ [i]) @ merge_one (habs s (j # qs'))" "same_mem s s'"
      by (rule try_absorb)
    then show thesis using next_j t False i j Cons
      by (intro that [of s' us' fs']) (simp_all add: merge_hole_def)
  next
    case True
    have "unat (h_len (hole_tab s i)) + unat (h_len (hole_tab s j)) < 2 ^ 32"
      using assms(2,3) True i j Cons by (auto simp: hole_abs_def)
    moreover have "chains s (ps @ i # j # qs') fs" using assms(1) Cons by simp
    ultimately obtain s1 where s1: "absorb i j s = Inr s1" "chains s1 (ps @ i # qs') (j # fs)"
      "habs s1 (ps @ i # qs') = habs s ps @ (b, l + m) # habs s qs'" "same_mem s s1"
      using absorb_chains i j by (metis fst_conv snd_conv)
    from s1(3) have split: "habs s1 ps = habs s ps" "habs s1 (i # qs') = (b, l + m) # habs s qs'"
      by simp_all
    have "wf_touch lo (habs s1 (i # qs'))"
      unfolding split using assms(2) Cons i j True by (auto simp: add.assoc [symmetric])
    with s1(2) obtain s' us' fs' where
      "(case h_next (hole_tab s1 i) of None \<Rightarrow> Inr s1 | Some k \<Rightarrow> if touches s1 i k then absorb i k s1 else Inr s1)
        = Inr s'"
      "chains s' us' fs'" "habs s' us' = habs s1 ps @ merge_one (habs s1 (i # qs'))" "same_mem s1 s'"
      using assms(3) by (rule try_absorb)
    note merged = this
    have "habs s' us' = habs s ps @ merge_two (habs s (i # qs))"
      using merged(3) unfolding split using Cons i j True by simp
    moreover have "merge_hole i s = Inr s'"
      using merged(1) next_j t True s1(1) by (simp add: merge_hole_def)
    ultimately show thesis using that merged(2) same_mem_trans [OF s1(4) merged(4)] by blast
  qed
qed

section \<open>Freeing refines its specification\<close>

text \<open>Linking the freed range in front of the first hole above it and merging there is \<open>free_spec\<close>.\<close>

lemma merge_one_wf: "wf_from lo hs \<Longrightarrow> merge_one hs = hs"
  by (cases hs rule: merge_one.cases) auto

lemma free_spec_merge:
  assumes "wf_from lo (xs @ ys)" "\<forall>(b, l) \<in> set xs. b < a" "ys \<noteq> [] \<Longrightarrow> a \<le> fst (hd ys)"
  shows "free_spec a n (xs @ ys) =
    (if xs = [] then merge_two ((a, n) # ys) else butlast xs @ merge_two (last xs # (a, n) # ys))"
  using assms
proof (induction xs arbitrary: lo)
  case Nil
  show ?case
  proof (cases ys)
    case (Cons h ys')
    obtain c m where h: "h = (c, m)" by (cases h)
    have "merge_one ((a, n + m) # ys') = (a, n + m) # ys'" if "a + n = c"
      using Nil(1) Cons h that by (cases ys') auto
    then show ?thesis using Nil Cons h merge_one_wf [of lo ys] by auto
  qed simp
next
  case (Cons h xs)
  obtain b l where h: "h = (b, l)" by (cases h)
  have b: "b < a" "0 < l" using Cons.prems h by auto
  show ?case
  proof (cases xs)
    case Nil
    have "merge_one ((a, n) # ys) = free_spec a n ys"
      using Cons.prems(3) by (cases ys) auto
    moreover have "merge_one ((b, l + n) # ys) = free_spec b (l + n) ys" if "b + l = a"
      using Cons.prems(3) that b by (cases ys) auto
    ultimately show ?thesis using Nil h b by auto
  next
    case (Cons h2 xs')
    obtain c m where h2: "h2 = (c, m)" by (cases h2)
    have lt: "b + l < c" "c < a" using Cons.prems(1,2) h Cons h2 by auto
    then have step: "free_spec a n ((h # xs) @ ys) = h # free_spec a n (xs @ ys)" using h by simp
    have "wf_from (Suc (b + l)) (xs @ ys)" using Cons.prems(1) h by simp
    moreover have "\<forall>(b, l) \<in> set xs. b < a" using Cons.prems(2) by simp
    ultimately have "free_spec a n (xs @ ys) =
        (if xs = [] then merge_two ((a, n) # ys) else butlast xs @ merge_two (last xs # (a, n) # ys))"
      using Cons.prems(3) by (rule Cons.IH)
    then show ?thesis unfolding step using Cons by simp
  qed
qed

section \<open>Allocation refines its specification\<close>

lemma unat_alignment_of:
  "0 < unat align \<Longrightarrow> unat (alignment_of b align) = pad (unat b) (unat align)"
proof -
  assume pos: "0 < unat align"
  have m: "unat ((ucast b :: size_t) mod align) = unat b mod unat align"
    by (simp add: unat_mod unat_ucast_up)
  moreover have "unat (align - (ucast b :: size_t) mod align) = unat align - unat b mod unat align"
    using m pos by (simp add: unat_sub_le word_le_nat_alt less_imp_le)
  ultimately show ?thesis by (simp add: alignment_of_def pad_def word_unat_eq_iff)
qed

lemma wf_from_prev:
  assumes "wf_from lo (hs @ (c, m) # (b, l) # ts)"
  shows "lo \<le> c" "c + m < b" "0 < l" "b + l \<le> 2 ^ 32"
proof -
  show "c + m < b" "0 < l" "b + l \<le> 2 ^ 32" using assms by (auto simp: wf_from_append)
  show "lo \<le> c" using assms
  proof (induction hs arbitrary: lo)
    case (Cons h hs)
    obtain d k where h: "h = (d, k)" by (cases h)
    with Cons.prems have "Suc (d + k) \<le> c" by (intro Cons.IH) simp
    with Cons.prems h show ?case by simp
  qed simp
qed

text \<open>
  Under the invariant the hole before the chosen one never ends where the block begins: the test
  of \<open>prev_ptr\<close> in \<open>allocate\<close> fails always.
\<close>

lemma prev_never_adjacent:
  fixes c m b l w :: u32
  assumes "wf_from 1 (hs @ (unat c, unat m) # (unat b, unat l) # ts)" "k \<le> unat l"
    "unat w = (unat b + k) mod 2 ^ 32"
  shows "c + m \<noteq> w"
proof
  assume eq: "c + m = w"
  note wf = wf_from_prev [OF assms(1)]
  have "unat (c + m) = unat c + unat m" using wf by (intro unat_add_lt) simp
  with eq assms(3) have sum: "unat c + unat m = (unat b + k) mod 2 ^ 32" by simp
  show False
  proof (cases "unat b + k = 2 ^ 32")
    case True
    with sum wf(1) show False by simp
  next
    case False
    then have "unat b + k < 2 ^ 32" using wf(4) assms(2) by linarith
    with sum wf(2) show False by simp
  qed
qed


lemma take_block_chains:
  assumes "chains s (ps @ i # qs) fs" "wf_from 1 (habs s (ps @ i # qs))"
    and "hole_abs (hole_tab s) i = (b, l)" "unat len + unat al \<le> l"
  obtains s' us' fs' where
    "take_block (prev_of ps) i len al s = Inr (of_nat (b + unat al), s')" "chains s' us' fs'"
    "habs s' us' = habs s ps @ (if unat len + unat al = l then habs s qs
       else (b + unat al + unat len, l - (unat len + unat al)) # habs s qs)"
    "same_mem s s'"
proof -
  let ?h = "hole_tab s i"
  have b: "unat (h_base ?h) = b" and l: "unat (h_len ?h) = l" using assms(3) by (auto simp: hole_abs_def)
  have wf: "0 < l" "b + l \<le> 2 ^ 32" using assms(2,3) by (auto simp: wf_from_append split: if_splits)
  define ob :: u32 where "ob = ucast ((ucast (h_base ?h) :: size_t) + al)"
  define nb :: u32 where "nb = ucast ((ucast (h_base ?h) :: size_t) + (len + al))"
  define nl :: u32 where "nl = ucast ((ucast (h_len ?h) :: size_t) - (len + al))"
  have sum: "unat (len + al) = unat len + unat al" using assms(4) wf by (intro unat_add_lt) simp
  have ob: "unat ob = (b + unat al) mod 2 ^ 32"
    using assms(4) wf b by (simp add: ob_def unat_ucast_mod unat_add_lt unat_ucast_up)
  have nb: "unat nb = (b + (unat len + unat al)) mod 2 ^ 32"
    using assms(4) wf b sum by (simp add: nb_def unat_ucast_mod unat_add_lt unat_ucast_up)
  have "unat ((ucast (h_len ?h) :: size_t) - (len + al)) = l - (unat len + unat al)"
    using assms(4) l sum by (simp add: word_le_nat_alt unat_sub_le unat_ucast_up)
  moreover have "l < 2 ^ 32" using l by auto
  ultimately have nl: "unat nl = l - (unat len + unat al)" by (simp add: nl_def unat_ucast_mod)
  have ob': "of_nat (b + unat al) = ob" using ob by (simp add: word_unat_eq_iff unat_of_nat take_bit_eq_mod del: of_nat_add)
  define s1 where "s1 = set_hole i (?h\<lparr>h_base := nb, h_len := nl\<rparr>) s"
  have dist: "i \<notin> set ps" "i \<notin> set qs" using assms(1) by (auto simp: chains_def)
  have c1: "chains s1 (ps @ i # qs) fs" unfolding s1_def using assms(1) by (intro chains_set_fields) simp_all
  have m1: "same_mem s s1" by (simp add: s1_def)
  have skip: "take_block (prev_of ps) i len al s =
      (if nl = 0 then map_sum id (\<lambda>s3. (ob, s3)) (delete_slot (prev_of ps) i s1) else Inr (ob, s1))"
  proof (cases ps rule: rev_cases)
    case Nil
    then show ?thesis
      by (simp add: take_block_def Let_def s1_def ob_def nb_def nl_def)
  next
    case (snoc ps' p)
    have p: "p \<noteq> i" using dist snoc by auto
    have "h_base (hole_tab s p) + h_len (hole_tab s p) \<noteq> ob"
    proof (rule prev_never_adjacent)
      show "wf_from 1 (habs s ps' @ (unat (h_base (hole_tab s p)), unat (h_len (hole_tab s p))) #
          (unat (h_base ?h), unat (h_len ?h)) # habs s qs)"
        using assms(2) snoc by (simp add: hole_abs_def)
      show "unat al \<le> unat (h_len ?h)" using assms(4) l by simp
      show "unat ob = (unat (h_base ?h) + unat al) mod 2 ^ 32" using ob b by simp
    qed
    then show ?thesis using p snoc
      by (simp add: take_block_def Let_def s1_def ob_def nb_def nl_def)
  qed
  show thesis
  proof (cases "unat len + unat al = l")
    case True
    then have "nl = 0" using nl by (simp add: word_unat_eq_iff)
    moreover obtain s' where "delete_slot (prev_of ps) i s1 = Inr s'" "chains s' (ps @ qs) (i # fs)"
      "\<And>us. i \<notin> set us \<Longrightarrow> habs s' us = habs s1 us" "same_mem s1 s'"
      using delete_slot_chains [OF c1, of "prev_of ps"] by (auto simp: prev_of_def)
    ultimately show thesis using True skip ob' dist same_mem_trans [OF m1]
      by (intro that [of s' "ps @ qs" "i # fs"]) (simp_all add: s1_def)
  next
    case False
    then have "nl \<noteq> 0" using nl assms(4) by (auto simp: word_unat_eq_iff)
    moreover have "b + (unat len + unat al) < 2 ^ 32" using False assms(4) wf(2) by linarith
    then have "hole_abs (hole_tab s1) i = (b + unat al + unat len, l - (unat len + unat al))"
      using nb nl by (simp add: s1_def)
    ultimately show thesis using False skip ob' dist c1 m1
      by (intro that [of s1 "ps @ i # qs" fs]) (simp_all add: s1_def)
  qed
qed

lemma allocate_loop_chains:
  assumes "chains s (ps @ qs) fs" "wf_from 1 (habs s (ps @ qs))" "seg (hole_tab s) p qs None"
    and "length qs < fuel" "0 < unat align" "unat len + unat align < 2 ^ 64"
  shows "case alloc_spec (unat len) (unat align) (habs s qs) of
      None \<Rightarrow> allocate_loop fuel (prev_of ps) p len align s = Inl MemoryNotAvailable
    | Some (a, hs) \<Rightarrow> \<exists>s' us' fs'.
        allocate_loop fuel (prev_of ps) p len align s = Inr (of_nat a, s') \<and> chains s' us' fs' \<and>
        habs s' us' = habs s ps @ hs \<and> same_mem s s'"
  using assms
proof (induction qs arbitrary: ps p fuel)
  case Nil
  then show ?case by (cases fuel) simp_all
next
  case (Cons i qs)
  obtain b l where i: "hole_abs (hole_tab s) i = (b, l)" by (cases "hole_abs (hole_tab s) i")
  obtain fuel' where fuel: "fuel = Suc fuel'" using Cons.prems(4) by (cases fuel) auto
  have p: "p = Some i" and rest: "seg (hole_tab s) (h_next (hole_tab s i)) qs None"
    using Cons.prems(3) by auto
  define al where "al = alignment_of (h_base (hole_tab s i)) align"
  have al: "unat al = pad b (unat align)"
    using unat_alignment_of [OF Cons.prems(5)] i by (auto simp: al_def hole_abs_def)
  then have "unat al < unat align" using pad_less [OF Cons.prems(5)] by simp
  then have sum: "unat (len + al) = unat len + unat al" using Cons.prems(6) by (intro unat_add_lt) simp
  have nz: "align \<noteq> 0" using Cons.prems(5) by auto
  have fits: "(ucast (h_len (hole_tab s i)) :: size_t) \<ge> len + al \<longleftrightarrow> unat len + pad b (unat align) \<le> l"
    using i sum al by (auto simp: word_le_nat_alt unat_ucast_up hole_abs_def)
  show ?case
  proof (cases "unat len + pad b (unat align) \<le> l")
    case True
    then have "unat len + unat al \<le> l" using al by simp
    with Cons.prems(1,2) i obtain s' us' fs' where
      "take_block (prev_of ps) i len al s = Inr (of_nat (b + unat al), s')" "chains s' us' fs'"
      "habs s' us' = habs s ps @ (if unat len + unat al = l then habs s qs
         else (b + unat al + unat len, l - (unat len + unat al)) # habs s qs)"
      "same_mem s s'"
      by (rule take_block_chains)
    moreover have "allocate_loop fuel (prev_of ps) p len align s = take_block (prev_of ps) i len al s"
      using True fits fuel p nz by (simp add: al_def)
    ultimately show ?thesis using True i al by auto
  next
    case False
    have step: "allocate_loop fuel (prev_of ps) p len align s =
        allocate_loop fuel' (prev_of (ps @ [i])) (h_next (hole_tab s i)) len align s"
      using False fits fuel p nz by (simp add: al_def)
    note IH = Cons.IH [of "ps @ [i]" "h_next (hole_tab s i)" fuel', OF _ _ rest]
    show ?thesis unfolding step
      using IH Cons.prems(1,2,4,5,6) fuel False i by (auto split: option.splits)
  qed
qed

text \<open>\<open>find_prev\<close> finds the end of the holes below the address.\<close>

lemma find_prev_seg:
  assumes "seg (hole_tab s) p xs q" "seg (hole_tab s) q ys None" "length xs < fuel"
    and "\<forall>i \<in> set xs. h_base (hole_tab s i) < a" "ys \<noteq> [] \<Longrightarrow> a \<le> h_base (hole_tab s (hd ys))"
  shows "find_prev fuel pv p a s = Inr (if xs = [] then pv else Some (last xs))"
  using assms
proof (induction xs arbitrary: p pv fuel)
  case Nil
  then obtain fuel' where "fuel = Suc fuel'" by (cases fuel) auto
  with Nil show ?case by (cases ys) (auto simp: not_less)
next
  case (Cons i xs)
  then obtain fuel' where fuel: "fuel = Suc fuel'" by (cases fuel) auto
  with Cons show ?case by auto
qed

lemma wf_touch_insert:
  assumes "wf_from lo (xs @ ys)" "\<forall>(b, l) \<in> set xs. b < a" "ys \<noteq> [] \<Longrightarrow> a \<le> fst (hd ys)"
    and "lo \<le> a" "0 < n" "a + n \<le> 2 ^ 32" "{a..<a + n} \<inter> span (xs @ ys) = {}"
  shows "wf_touch lo (xs @ (a, n) # ys)"
  using assms
proof (induction xs arbitrary: lo)
  case Nil
  show ?case
  proof (cases ys)
    case (Cons h ys')
    obtain b l where h: "h = (b, l)" by (cases h)
    have "a + n \<le> b"
    proof (rule ccontr)
      assume "\<not> a + n \<le> b"
      moreover have "a \<le> b" "0 < l" using Nil(1,3) Cons h by auto
      ultimately have "b \<in> {a..<a + n}" "b \<in> span ys" using Cons h by auto
      then show False using Nil(7) by auto
    qed
    with Nil Cons h show ?thesis by (auto intro: wf_from_touch wf_touch_mono)
  qed (use Nil in auto)
next
  case (Cons h xs)
  obtain b l where h: "h = (b, l)" by (cases h)
  have wf: "wf_from (Suc (b + l)) (xs @ ys)" and b: "b < a" "lo \<le> b" "0 < l" "b + l \<le> 2 ^ 32"
    using Cons.prems(1,2) h by auto
  have "b + l \<le> a"
  proof (rule ccontr)
    assume "\<not> b + l \<le> a"
    then have "a \<in> {a..<a + n} \<inter> span ((h # xs) @ ys)" using b(1) Cons.prems(5) h by auto
    then show False using Cons.prems(7) by blast
  qed
  moreover have "wf_from (b + l) (xs @ ys)" by (rule wf_from_mono [OF wf]) simp
  moreover have "{a..<a + n} \<inter> span (xs @ ys) = {}" using Cons.prems(7) h by auto
  ultimately have "wf_touch (b + l) (xs @ (a, n) # ys)"
    using Cons.prems(2,3,5,6) by (intro Cons.IH) auto
  with b h show ?case by simp
qed

lemma wf_touch_suffix: "wf_touch lo (xs @ ys) \<Longrightarrow> wf_touch lo ys"
proof (induction xs arbitrary: lo)
  case (Cons h xs)
  obtain b l where h: "h = (b, l)" by (cases h)
  with Cons have "wf_touch (b + l) ys" by simp
  then show ?case by (rule wf_touch_mono) (use Cons.prems h in simp)
qed simp

lemma takeWhile_split:
  fixes t :: "nat \<Rightarrow> hole"
  obtains xs ys where "us = xs @ ys" "\<forall>i \<in> set xs. h_base (t i) < a"
    "ys = [] \<or> a \<le> h_base (t (hd ys))"
proof
  show "us = takeWhile (\<lambda>i. h_base (t i) < a) us @ dropWhile (\<lambda>i. h_base (t i) < a) us" by simp
  show "\<forall>i \<in> set (takeWhile (\<lambda>i. h_base (t i) < a) us). h_base (t i) < a" by (auto dest: set_takeWhileD)
  show "dropWhile (\<lambda>i. h_base (t i) < a) us = [] \<or>
      a \<le> h_base (t (hd (dropWhile (\<lambda>i. h_base (t i) < a) us)))"
    using hd_dropWhile [of "\<lambda>i. h_base (t i) < a" us] by (metis not_less)
qed

lemma free_mem_chains:
  assumes "chains s us (new # fs)" "wf_from 1 (habs s us)"
    and "1 \<le> unat a" "0 < unat n" "unat a + unat n \<le> 2 ^ 32"
    and "{unat a..<unat a + unat n} \<inter> span (habs s us) = {}"
  obtains s' us' fs' where "free_mem a n s = Inr s'" "chains s' us' fs'"
    "habs s' us' = free_spec (unat a) (unat n) (habs s us)" "same_mem s s'"
proof -
  obtain xs ys where us: "us = xs @ ys" and xs: "\<forall>i \<in> set xs. h_base (hole_tab s i) < a"
    and ys: "ys = [] \<or> a \<le> h_base (hole_tab s (hd ys))"
    by (rule takeWhile_split [of us "hole_tab s" a])
  have xs': "\<forall>(b, l) \<in> set (habs s xs). b < unat a" using xs by (auto simp: hole_abs_def word_less_nat_alt)
  have ys': "unat a \<le> fst (hd (habs s ys))" if "habs s ys \<noteq> []"
    using ys that by (cases ys) (auto simp: hole_abs_def word_le_nat_alt)
  have dist: "new \<notin> set xs" "new \<notin> set ys" "distinct (xs @ ys)" using assms(1) us by (auto simp: chains_def)
  have slot: "free_slots s = Some new" "seg (hole_tab s) (h_next (hole_tab s new)) fs None"
    using assms(1) by (auto simp: chains_def)
  have nz: "n \<noteq> 0" using assms(4) by auto
  have cut: "unat (ucast n :: u32) = unat n"
    using assms(3,5) by (simp add: unat_ucast_mod)
  define s1 where "s1 = (set_hole new ((hole_tab s new)\<lparr>h_base := a, h_len := ucast n\<rparr>) s)
      \<lparr>free_slots := h_next (hole_tab s new)\<rparr>"
  have s1: "hole_head s1 = hole_head s" "hole_abs (hole_tab s1) new = (unat a, unat n)"
      "\<And>i. i \<noteq> new \<Longrightarrow> hole_tab s1 i = hole_tab s i" "same_mem s s1"
    using cut by (simp_all add: s1_def)
  have run: "free_mem a n s =
      (if (case hole_head s1 of None \<Rightarrow> True | Some i \<Rightarrow> a \<le> h_base (hole_tab s1 i))
       then merge_hole new
         ((set_hole new ((hole_tab s1 new)\<lparr>h_next := hole_head s1\<rparr>) s1)\<lparr>hole_head := Some new\<rparr>)
       else case find_prev (Suc NR_HOLES) None (hole_head s1) a s1 of
           Inl e \<Rightarrow> Inl e
         | Inr None \<Rightarrow> Inl UndefinedBehaviour
         | Inr (Some p) \<Rightarrow>
             let s2 = set_hole new ((hole_tab s1 new)\<lparr>h_next := h_next (hole_tab s1 p)\<rparr>) s1
             in merge_hole p (set_hole p ((hole_tab s2 p)\<lparr>h_next := Some new\<rparr>) s2))"
    using nz slot(1) unfolding free_mem_def s1_def by (simp only: Let_def if_False option.case)
  have touch: "wf_touch 1 (habs s xs @ (unat a, unat n) # habs s ys)"
    using assms(2-6) us xs' ys' by (intro wf_touch_insert) (auto simp: hole_abs_def)
  have spec: "free_spec (unat a) (unat n) (habs s us) = (if habs s xs = []
      then merge_two ((unat a, unat n) # habs s ys)
      else butlast (habs s xs) @ merge_two (last (habs s xs) # (unat a, unat n) # habs s ys))"
    unfolding us map_append using assms(2) us xs' ys' by (intro free_spec_merge) auto
  show thesis
  proof (cases xs rule: rev_cases)
    case Nil
    let ?s2 = "(set_hole new ((hole_tab s1 new)\<lparr>h_next := hole_head s1\<rparr>) s1)\<lparr>hole_head := Some new\<rparr>"
    have first: "case hole_head s1 of None \<Rightarrow> True | Some i \<Rightarrow> a \<le> h_base (hole_tab s1 i)"
      using assms(1) us Nil ys dist s1(1,3) by (cases ys) (auto simp: chains_def)
    have c2: "chains ?s2 ([] @ new # ys) fs" using assms(1) us Nil dist by (auto simp: chains_def s1_def)
    have ab: "habs ?s2 (new # ys) = (unat a, unat n) # habs s ys"
      using dist s1 by (auto simp: hole_abs_def s1_def cut)
    have "wf_touch 1 (habs ?s2 (new # ys))" unfolding ab using touch Nil by simp
    with c2 obtain s' us' fs' where merged: "merge_hole new ?s2 = Inr s'" "chains s' us' fs'"
      "habs s' us' = habs ?s2 [] @ merge_two (habs ?s2 (new # ys))" "same_mem ?s2 s'"
      using zero_less_one by (rule merge_hole_chains)
    have "free_mem a n s = Inr s'"
      using merged(1) first unfolding run by simp
    moreover have "habs s' us' = free_spec (unat a) (unat n) (habs s us)"
      using merged(3) Nil unfolding ab spec by simp
    moreover have "same_mem s s'" using merged(4) s1(4) by (simp add: same_mem_def set_hole_def)
    ultimately show thesis using that merged(2) by blast
  next
    case (snoc xs0 p)
    let ?s2 = "set_hole new ((hole_tab s1 new)\<lparr>h_next := h_next (hole_tab s1 p)\<rparr>) s1"
    let ?s3 = "set_hole p ((hole_tab ?s2 p)\<lparr>h_next := Some new\<rparr>) ?s2"
    have p: "p \<noteq> new" "p \<notin> set xs0" "p \<notin> set ys" using dist snoc by auto
    have later: "\<not> (case hole_head s1 of None \<Rightarrow> True | Some i \<Rightarrow> a \<le> h_base (hole_tab s1 i))"
      using assms(1) us snoc xs dist s1(1,3) by (cases xs0) (auto simp: chains_def not_le)
    obtain q where seg1: "seg (hole_tab s) (hole_head s) xs q" "seg (hole_tab s) q ys None"
      using assms(1) us by (auto simp: chains_def)
    have "find_prev (Suc NR_HOLES) None (hole_head s1) a s1 = Inr (if xs = [] then None else Some (last xs))"
    proof (rule find_prev_seg)
      show "seg (hole_tab s1) (hole_head s1) xs q" "seg (hole_tab s1) q ys None"
        using seg1 dist by (simp_all add: s1_def)
      show "length xs < Suc NR_HOLES" using chains_length [OF assms(1)] us by simp
      show "\<forall>i\<in>set xs. h_base (hole_tab s1 i) < a"
        using xs dist(1) s1(3) by metis
      show "ys \<noteq> [] \<Longrightarrow> a \<le> h_base (hole_tab s1 (hd ys))" using ys dist s1(3) by (cases ys) auto
    qed
    then have found: "find_prev (Suc NR_HOLES) None (hole_head s1) a s1 = Inr (Some p)"
      using snoc by simp
    have c3: "chains ?s3 (xs0 @ p # new # ys) fs"
      using assms(1) us snoc dist p by (auto simp: chains_def s1_def)
    have ab: "habs ?s3 (p # new # ys) = hole_abs (hole_tab s) p # (unat a, unat n) # habs s ys"
      "habs ?s3 xs0 = habs s xs0"
      using dist p snoc by (auto simp: hole_abs_def s1_def cut)
    have "wf_touch 1 (habs s xs0 @ habs ?s3 (p # new # ys))" unfolding ab using touch snoc by simp
    then have "wf_touch 1 (habs ?s3 (p # new # ys))" by (rule wf_touch_suffix)
    with c3 obtain s' us' fs' where merged: "merge_hole p ?s3 = Inr s'" "chains s' us' fs'"
      "habs s' us' = habs ?s3 xs0 @ merge_two (habs ?s3 (p # new # ys))" "same_mem ?s3 s'"
      using zero_less_one by (rule merge_hole_chains)
    have "free_mem a n s = Inr s'"
      using merged(1) later found unfolding run by (simp add: Let_def)
    moreover have "habs s' us' = free_spec (unat a) (unat n) (habs s us)"
      using merged(3) snoc unfolding ab spec by simp
    moreover have "same_mem s s'" using merged(4) s1(4) by (simp add: same_mem_def set_hole_def)
    ultimately show thesis using that merged(2) by blast
  qed
qed

section \<open>The invariant and the abstraction, executable\<close>

fun walk :: "nat \<Rightarrow> (nat \<Rightarrow> hole) \<Rightarrow> nat option \<Rightarrow> nat list" where
  "walk 0 t p = []"
| "walk (Suc k) t None = []"
| "walk (Suc k) t (Some i) = i # walk k t (h_next (t i))"

lemma walk_seg: "seg t p us None \<Longrightarrow> length us \<le> k \<Longrightarrow> walk k t p = us"
proof (induction us arbitrary: p k)
  case Nil
  then show ?case by (cases k) auto
next
  case (Cons i us)
  then show ?case by (cases k) auto
qed

definition used :: "memory_space \<Rightarrow> nat list" where
  "used s = walk NR_HOLES (hole_tab s) (hole_head s)"

definition unused :: "memory_space \<Rightarrow> nat list" where
  "unused s = walk NR_HOLES (hole_tab s) (free_slots s)"

definition free_list :: "memory_space \<Rightarrow> hole_list" where
  "free_list s = habs s (used s)"

definition free_set :: "memory_space \<Rightarrow> nat set" where
  "free_set s = span (free_list s)"

text \<open>
  The invariant: the two lists partition the slots, the holes are in address order, apart,
  non-empty, above address 0 and within 32 bits.
\<close>

definition ms_ok :: "memory_space \<Rightarrow> bool" where
  "ms_ok s \<longleftrightarrow> chains s (used s) (unused s) \<and> wf_from 1 (free_list s)"

lemma chains_abs:
  assumes "chains s us fs"
  shows "used s = us" "unused s = fs" "free_list s = habs s us"
proof -
  have "length us \<le> NR_HOLES" "length fs \<le> NR_HOLES" using chains_length [OF assms] by simp_all
  with assms show "used s = us" "unused s = fs" by (auto simp: used_def unused_def chains_def walk_seg)
  then show "free_list s = habs s us" by (simp add: free_list_def)
qed

lemma ms_okI: "chains s us fs \<Longrightarrow> wf_from 1 (habs s us) \<Longrightarrow> ms_ok s"
  by (simp add: ms_ok_def chains_abs)

lemma ms_ok_slots: "ms_ok s \<Longrightarrow> length (free_list s) + length (unused s) = NR_HOLES"
  using chains_length [of s "used s" "unused s"] by (simp add: ms_ok_def free_list_def)

lemma free_set_bound: "ms_ok s \<Longrightarrow> x \<in> free_set s \<Longrightarrow> 1 \<le> x \<and> x < 2 ^ 32"
  unfolding ms_ok_def free_set_def by (blast dest: span_bound)

lemma seg_upto:
  assumes "\<And>i. i < n \<Longrightarrow> h_next (t i) = (if i + 1 < n then Some (i + 1) else None)" "k \<le> n"
  shows "seg t (if k < n then Some k else None) [k..<n] None"
  using assms(2)
proof (induction "n - k" arbitrary: k)
  case 0
  then show ?case by simp
next
  case (Suc m)
  then have lt: "k < n" by simp
  have "seg t (if Suc k < n then Some (Suc k) else None) [Suc k..<n] None"
    using Suc by (intro Suc.hyps(1)) simp_all
  with lt assms(1) [of k] show ?case by (cases "Suc k < n") (simp_all add: upt_conv_Cons [OF lt])
qed

lemma MemorySpace_chains: "chains (MemorySpace iova sz raw) [] [0..<NR_HOLES]"
proof -
  have "seg (hole_tab (MemorySpace iova sz raw)) (if 0 < NR_HOLES then Some 0 else None)
      [0..<NR_HOLES] None"
    by (rule seg_upto) (simp_all add: MemorySpace_def)
  then show ?thesis by (auto simp: chains_def MemorySpace_def NR_HOLES_def)
qed

lemma free_mem_refines_raw:
  assumes "ms_ok s" "1 \<le> unat a" "0 < unat n" "unat a + unat n \<le> 2 ^ 32"
    and "{unat a..<unat a + unat n} \<inter> free_set s = {}" "length (free_list s) < NR_HOLES"
  shows "\<exists>s'. free_mem a n s = Inr s' \<and> ms_ok s' \<and>
    free_list s' = free_spec (unat a) (unat n) (free_list s) \<and> same_mem s s'"
proof -
  have c: "chains s (used s) (unused s)" and wf: "wf_from 1 (habs s (used s))"
    using assms(1) by (auto simp: ms_ok_def free_list_def)
  obtain new fs where "unused s = new # fs"
    using ms_ok_slots [OF assms(1)] assms(6) by (cases "unused s") auto
  with c have "chains s (used s) (new # fs)" by simp
  moreover note wf assms(2-4)
  moreover have "{unat a..<unat a + unat n} \<inter> span (habs s (used s)) = {}"
    using assms(5) by (simp add: free_set_def free_list_def)
  ultimately obtain s' us' fs' where s': "free_mem a n s = Inr s'" "chains s' us' fs'"
    "habs s' us' = free_spec (unat a) (unat n) (habs s (used s))" "same_mem s s'"
    by (rule free_mem_chains)
  have "wf_from 1 (habs s' us')"
    using free_spec_effect [OF wf, of "unat a" "unat n"] assms(2-5) s'(3)
    by (simp add: free_set_def free_list_def)
  with s' show ?thesis by (auto intro: ms_okI simp: chains_abs free_list_def)
qed

lemma free_mem_zero: "free_mem a 0 s = Inr s"
  by (simp add: free_mem_def)

lemma free_mem_full:
  assumes "ms_ok s" "n \<noteq> 0" "length (free_list s) = NR_HOLES"
  shows "free_mem a n s = Inl Aborted"
proof -
  have "unused s = []" using ms_ok_slots [OF assms(1)] assms(3) by simp
  then have "free_slots s = None" using assms(1) by (simp add: ms_ok_def chains_def)
  with assms(2) show ?thesis by (simp add: free_mem_def)
qed

lemma allocate_refines_raw:
  assumes "ms_ok s" "0 < unat align" "unat len + unat align < 2 ^ 64"
  shows "case alloc_spec (unat len) (unat align) (free_list s) of
      None \<Rightarrow> allocate len align s = Inl MemoryNotAvailable
    | Some (a, hs) \<Rightarrow> \<exists>s'. allocate len align s = Inr (of_nat a, s') \<and> ms_ok s' \<and>
        free_list s' = hs \<and> same_mem s s'"
proof -
  have c: "chains s ([] @ used s) (unused s)" and wf: "wf_from 1 (habs s ([] @ used s))"
    using assms(1) by (auto simp: ms_ok_def free_list_def)
  have len: "length (used s) < Suc NR_HOLES" using chains_length [OF c] by simp
  have head: "seg (hole_tab s) (hole_head s) (used s) None" using c by (simp add: chains_def)
  note run = allocate_loop_chains [OF c wf head len assms(2,3)]
  show ?thesis
  proof (cases "alloc_spec (unat len) (unat align) (free_list s)")
    case None
    with run show ?thesis by (simp add: allocate_def free_list_def)
  next
    case (Some r)
    obtain a hs where r: "r = (a, hs)" by (cases r)
    with run Some obtain s' us' fs' where s': "allocate len align s = Inr (of_nat a, s')"
      "chains s' us' fs'" "habs s' us' = hs" "same_mem s s'"
      by (auto simp: allocate_def free_list_def)
    have "wf_from 1 hs"
      using alloc_spec_effect(1) [OF wf] Some r by (simp add: free_list_def)
    with s' Some r show ?thesis by (auto intro: ms_okI simp: chains_abs)
  qed
qed

text \<open>What a successful allocation gives: an aligned block of free addresses, taken out of them.\<close>

lemma allocate_Inr:
  assumes "ms_ok s" "0 < unat align" "unat len + unat align < 2 ^ 64" "allocate len align s = Inr (a, s')"
    "0 < unat len"
  shows "ms_ok s'" "same_mem s s'" "unat a mod unat align = 0"
    "{unat a..<unat a + unat len} \<subseteq> free_set s" "unat a + unat len \<le> 2 ^ 32" "1 \<le> unat a"
    "free_set s' \<subseteq> free_set s - {unat a..<unat a + unat len}"
    "alloc_spec (unat len) (unat align) (free_list s) = Some (unat a, free_list s')"
proof -
  note run = allocate_refines_raw [OF assms(1-3)]
  obtain x hs where r: "alloc_spec (unat len) (unat align) (free_list s) = Some (x, hs)"
    using run assms(4) by (cases "alloc_spec (unat len) (unat align) (free_list s)") auto
  with run assms(4) have a: "a = of_nat x" and s': "ms_ok s'" "free_list s' = hs" "same_mem s s'" by auto
  have wf: "wf_from 1 (free_list s)" using assms(1) by (simp add: ms_ok_def)
  note eff = alloc_spec_effect(2,3) [OF wf r]
  have "x \<in> free_set s" "x + unat len - 1 \<in> free_set s" using eff(1) assms(5) by (auto simp: free_set_def)
  then have x: "1 \<le> x" "x < 2 ^ 32" "x + unat len \<le> 2 ^ 32"
    using free_set_bound [OF assms(1)] assms(5) by fastforce+
  then have ax: "unat a = x" by (simp add: a unat_of_nat_lt)
  show "ms_ok s'" "same_mem s s'" by fact+
  show "unat a + unat len \<le> 2 ^ 32" "1 \<le> unat a" using x ax by simp_all
  show "{unat a..<unat a + unat len} \<subseteq> free_set s" using eff(1) ax by (simp add: free_set_def)
  show "free_set s' \<subseteq> free_set s - {unat a..<unat a + unat len}"
    using eff(2) ax s'(2) by (auto simp: free_set_def)
  show "unat a mod unat align = 0" using eff(2) ax pad_aligned [OF assms(2)] by auto
  show "alloc_spec (unat len) (unat align) (free_list s) = Some (unat a, free_list s')"
    using r ax s'(2) by simp
qed

end
