(* ===== verification/AllocClient.thy ===== *)
theory AllocClient
  imports Prelude
begin

text \<open>
  The contract between the address allocator and its clients (the driver's queues and PRP lists,
  the buffers of the request threads), as two locales: what every allocation and release keeps,
  and, in the second, that no address is lost. The client's view is a run of requests over the
  blocks it holds; the lemmas say that held blocks never overlap, whatever the order of requests.
\<close>

section \<open>A client of an allocator\<close>

text \<open>
  A client takes a block of \<open>n\<close> bytes or returns the \<open>i\<close>-th block it holds. It survives
  \<open>MemoryNotAvailable\<close> holding what it had; any other fault ends the run.
\<close>

datatype request = Take size_t | Return nat

type_synonym blocks = "(u32 \<times> size_t) list"

definition block :: "u32 \<Rightarrow> nat \<Rightarrow> nat set" where
  "block a n = {unat a..<unat a + n}"

fun client_step ::
  "(size_t \<Rightarrow> 'm \<Rightarrow> fault + (u32 \<times> 'm)) \<Rightarrow> (u32 \<Rightarrow> size_t \<Rightarrow> 'm \<Rightarrow> fault + 'm) \<Rightarrow>
     request \<Rightarrow> 'm \<times> blocks \<Rightarrow> fault + ('m \<times> blocks)" where
  "client_step alloc dealloc (Take n) (m, live) =
     (case alloc n m of
        Inl MemoryNotAvailable \<Rightarrow> Inr (m, live)
      | Inl e \<Rightarrow> Inl e
      | Inr (a, m') \<Rightarrow> Inr (m', (a, n) # live))"
| "client_step alloc dealloc (Return i) (m, live) =
     (if i < length live then
        case dealloc (fst (live ! i)) (snd (live ! i)) m of
          Inl e \<Rightarrow> Inl e
        | Inr m' \<Rightarrow> Inr (m', take i live @ drop (Suc i) live)
      else Inr (m, live))"

primrec client_run ::
  "(size_t \<Rightarrow> 'm \<Rightarrow> fault + (u32 \<times> 'm)) \<Rightarrow> (u32 \<Rightarrow> size_t \<Rightarrow> 'm \<Rightarrow> fault + 'm) \<Rightarrow>
     request list \<Rightarrow> 'm \<times> blocks \<Rightarrow> fault + ('m \<times> blocks)" where
  "client_run alloc dealloc [] st = Inr st"
| "client_run alloc dealloc (r # rs) st =
     (case client_step alloc dealloc r st of
        Inl e \<Rightarrow> Inl e
      | Inr st' \<Rightarrow> client_run alloc dealloc rs st')"

primrec sizes_ok :: "(size_t \<Rightarrow> bool) \<Rightarrow> request \<Rightarrow> bool" where
  "sizes_ok fits (Take n) = fits n"
| "sizes_ok fits (Return i) = True"

text \<open>The addresses of the held blocks, and that no two of them share one.\<close>

definition held :: "(size_t \<Rightarrow> nat) \<Rightarrow> blocks \<Rightarrow> nat set" where
  "held extent live = (\<Union>(a, n) \<in> set live. block a (extent n))"

definition apart :: "(size_t \<Rightarrow> nat) \<Rightarrow> blocks \<Rightarrow> bool" where
  "apart extent live \<longleftrightarrow>
     sorted_wrt (\<lambda>(a, n) (b, m). block a (extent n) \<inter> block b (extent m) = {}) live"

lemma held_simps [simp]:
  "held extent [] = {}"
  "held extent ((a, n) # live) = block a (extent n) \<union> held extent live"
  "held extent (xs @ ys) = held extent xs \<union> held extent ys"
  by (auto simp: held_def)

lemma apart_Cons [simp]:
  "apart extent [] \<longleftrightarrow> True"
  "apart extent ((a, n) # live) \<longleftrightarrow> block a (extent n) \<inter> held extent live = {} \<and> apart extent live"
  by (auto simp: apart_def held_def)

lemma apart_append [simp]:
  "apart extent (xs @ ys) \<longleftrightarrow>
     apart extent xs \<and> apart extent ys \<and> held extent xs \<inter> held extent ys = {}"
  by (induction xs) (auto simp: Int_Un_distrib Int_Un_distrib2)

lemma apart_nth:
  assumes "apart extent live" "i < j" "j < length live"
  shows "block (fst (live ! i)) (extent (snd (live ! i))) \<inter>
    block (fst (live ! j)) (extent (snd (live ! j))) = {}"
  using sorted_wrt_nth_less [OF assms(1) [unfolded apart_def] assms(2,3)]
  by (simp add: case_prod_beta)

section \<open>The contract\<close>

locale address_allocator =
  fixes alloc :: "size_t \<Rightarrow> 'm \<Rightarrow> fault + (u32 \<times> 'm)"
    and dealloc :: "u32 \<Rightarrow> size_t \<Rightarrow> 'm \<Rightarrow> fault + 'm"
    and avail :: "'m \<Rightarrow> nat set"
    and ok :: "'m \<Rightarrow> bool"
    and extent :: "size_t \<Rightarrow> nat"
    and fits :: "size_t \<Rightarrow> bool"
  assumes alloc_fail: "ok m \<Longrightarrow> fits n \<Longrightarrow> alloc n m = Inl e \<Longrightarrow> e = MemoryNotAvailable"
    and alloc_ok: "ok m \<Longrightarrow> fits n \<Longrightarrow> alloc n m = Inr (a, m') \<Longrightarrow> ok m'"
    and alloc_block: "ok m \<Longrightarrow> fits n \<Longrightarrow> alloc n m = Inr (a, m') \<Longrightarrow> block a (extent n) \<subseteq> avail m"
    and alloc_avail: "ok m \<Longrightarrow> fits n \<Longrightarrow> alloc n m = Inr (a, m') \<Longrightarrow>
      avail m' \<subseteq> avail m - block a (extent n)"
    and dealloc_ok: "ok m \<Longrightarrow> fits n \<Longrightarrow> block a (extent n) \<subseteq> {1..<2 ^ 32} \<Longrightarrow>
      block a (extent n) \<inter> avail m = {} \<Longrightarrow> dealloc a n m = Inr m' \<Longrightarrow>
      ok m' \<and> avail m' = avail m \<union> block a (extent n)"
    and dealloc_fail: "ok m \<Longrightarrow> fits n \<Longrightarrow> block a (extent n) \<subseteq> {1..<2 ^ 32} \<Longrightarrow>
      block a (extent n) \<inter> avail m = {} \<Longrightarrow> dealloc a n m = Inl e \<Longrightarrow> e = Aborted"
    and avail_bound: "ok m \<Longrightarrow> avail m \<subseteq> {1..<2 ^ 32}"
begin

text \<open>What holds between requests, \<open>A\<close> being the addresses free at the start.\<close>

definition client_ok :: "nat set \<Rightarrow> 'm \<times> blocks \<Rightarrow> bool" where
  "client_ok A st \<longleftrightarrow> (case st of (m, live) \<Rightarrow> ok m \<and> A \<subseteq> {1..<2 ^ 32} \<and> avail m \<subseteq> A \<and>
     held extent live \<subseteq> A \<and> held extent live \<inter> avail m = {} \<and> apart extent live \<and>
     (\<forall>(a, n) \<in> set live. fits n))"

lemma client_ok_init: "ok m \<Longrightarrow> client_ok (avail m) (m, [])"
  using avail_bound by (simp add: client_ok_def)

lemma take_cases:
  assumes "ok m" "fits n" "client_step alloc dealloc (Take n) (m, live) = Inr (m', live')"
  obtains "m' = m" "live' = live" | a where "alloc n m = Inr (a, m')" "live' = (a, n) # live"
proof (cases "alloc n m")
  case (Inl e)
  then have "e = MemoryNotAvailable" using alloc_fail assms(1,2) by blast
  with Inl assms(3) show ?thesis by (intro that(1)) auto
next
  case (Inr r)
  with assms(3) show ?thesis by (cases r) (auto intro: that(2))
qed

lemma live_split:
  assumes "i < length live"
  obtains xs a n ys where "live = xs @ (a, n) # ys" "xs = take i live" "ys = drop (Suc i) live"
    "live ! i = (a, n)"
  using id_take_nth_drop [OF assms] that by (metis surj_pair)

lemma client_step_ok:
  assumes "client_ok A st" "sizes_ok fits r" "client_step alloc dealloc r st = Inr st'"
  shows "client_ok A st'"
proof -
  obtain m live where st: "st = (m, live)" by (cases st)
  obtain m' live' where st': "st' = (m', live')" by (cases st')
  have inv: "ok m" "A \<subseteq> {1..<2 ^ 32}" "avail m \<subseteq> A" "held extent live \<subseteq> A" "held extent live \<inter> avail m = {}"
    "apart extent live" "\<forall>(a, n) \<in> set live. fits n"
    using assms(1) st by (simp_all add: client_ok_def)
  show ?thesis
  proof (cases r)
    case (Take n)
    then have fit: "fits n" using assms(2) by simp
    show ?thesis
    proof (rule take_cases [OF inv(1) fit])
      show "client_step alloc dealloc (Take n) (m, live) = Inr (m', live')"
        using assms(3) Take st st' by simp
    next
      assume "m' = m" "live' = live"
      then show ?thesis using assms(1) st st' by simp
    next
      fix a
      assume a: "alloc n m = Inr (a, m')" and live': "live' = (a, n) # live"
      note got = alloc_ok [OF inv(1) fit a] alloc_block [OF inv(1) fit a] alloc_avail [OF inv(1) fit a]
      have "block a (extent n) \<inter> held extent live = {}" using got(2) inv(5) by blast
      then show ?thesis using got inv fit st' live' by (auto simp: client_ok_def)
    qed
  next
    case (Return i)
    show ?thesis
    proof (cases "i < length live")
      case False
      then show ?thesis using assms Return st by simp
    next
      case True
      then obtain xs a n ys where live: "live = xs @ (a, n) # ys" "xs = take i live"
        "ys = drop (Suc i) live" "live ! i = (a, n)"
        by (rule live_split)
      have run: "dealloc a n m = Inr m'" "live' = xs @ ys"
        using assms(3) Return st st' True live(2-4) by (auto split: sum.splits)
      have parts: "fits n" "block a (extent n) \<subseteq> A" "block a (extent n) \<inter> avail m = {}"
        "block a (extent n) \<inter> held extent (xs @ ys) = {}" "apart extent (xs @ ys)"
        "held extent (xs @ ys) \<subseteq> held extent live" "\<forall>(a, n) \<in> set (xs @ ys). fits n"
        using inv unfolding live(1) by auto
      have "ok m' \<and> avail m' = avail m \<union> block a (extent n)"
        using inv(1,2) parts(1-3) run(1) by (intro dealloc_ok) auto
      then show ?thesis using inv parts run(2) unfolding st' by (auto simp: client_ok_def)
    qed
  qed
qed

lemma client_run_ok:
  "client_ok A st \<Longrightarrow> \<forall>r \<in> set rs. sizes_ok fits r \<Longrightarrow> client_run alloc dealloc rs st = Inr st' \<Longrightarrow>
   client_ok A st'"
  by (induction rs arbitrary: st) (auto split: sum.splits intro: client_step_ok)

text \<open>A run can fail only because the table of holes is full when a block is returned.\<close>

lemma client_step_fault:
  assumes "client_ok A st" "sizes_ok fits r" "client_step alloc dealloc r st = Inl e"
  shows "e = Aborted"
proof -
  obtain m live where st: "st = (m, live)" by (cases st)
  have inv: "ok m" "A \<subseteq> {1..<2 ^ 32}" "held extent live \<subseteq> A" "held extent live \<inter> avail m = {}"
    "\<forall>(a, n) \<in> set live. fits n"
    using assms(1) st by (simp_all add: client_ok_def)
  show ?thesis
  proof (cases r)
    case (Take n)
    then show ?thesis using assms(2,3) st alloc_fail [OF inv(1)]
      by (auto split: sum.splits fault.splits)
  next
    case (Return i)
    then have i: "i < length live" using assms(3) st by (simp split: if_splits)
    then obtain xs a n ys where live: "live = xs @ (a, n) # ys" "xs = take i live"
      "ys = drop (Suc i) live" "live ! i = (a, n)"
      by (rule live_split)
    have run: "dealloc a n m = Inl e" using assms(3) Return st i live(4) by (auto split: sum.splits)
    have "fits n" "block a (extent n) \<subseteq> A" "block a (extent n) \<inter> avail m = {}"
      using inv unfolding live(1) by auto
    then show ?thesis using inv(1,2) run by (intro dealloc_fail) auto
  qed
qed

lemma client_run_fault:
  "client_ok A st \<Longrightarrow> \<forall>r \<in> set rs. sizes_ok fits r \<Longrightarrow> client_run alloc dealloc rs st = Inl e \<Longrightarrow>
   e = Aborted"
proof (induction rs arbitrary: st)
  case (Cons r rs)
  show ?case
  proof (cases "client_step alloc dealloc r st")
    case (Inl e')
    with Cons.prems show ?thesis by (auto dest: client_step_fault)
  next
    case (Inr st')
    with Cons.prems show ?thesis by (auto intro: Cons.IH client_step_ok)
  qed
qed simp

lemma client_blocks:
  assumes "ok m" "\<forall>r \<in> set rs. sizes_ok fits r"
    "client_run alloc dealloc rs (m, []) = Inr (m', live)"
  shows "ok m' \<and> apart extent live \<and> held extent live \<subseteq> avail m \<and> held extent live \<inter> avail m' = {}"
  using client_run_ok [OF client_ok_init [OF assms(1)] assms(2,3)] by (simp add: client_ok_def)

end

text \<open>An allocator that loses nothing: what is free or held is always the same set of addresses.\<close>

locale exact_allocator = address_allocator +
  assumes alloc_exact: "ok m \<Longrightarrow> fits n \<Longrightarrow> alloc n m = Inr (a, m') \<Longrightarrow>
    avail m' = avail m - block a (extent n)"
begin

lemma client_step_conserves:
  assumes "client_ok A (m, live)" "sizes_ok fits r" "avail m \<union> held extent live = A"
    "client_step alloc dealloc r (m, live) = Inr (m', live')"
  shows "avail m' \<union> held extent live' = A"
proof -
  have inv: "ok m" "A \<subseteq> {1..<2 ^ 32}" "held extent live \<inter> avail m = {}" "\<forall>(a, n) \<in> set live. fits n"
    using assms(1) by (simp_all add: client_ok_def)
  show ?thesis
  proof (cases r)
    case (Take n)
    then have fit: "fits n" and run: "client_step alloc dealloc (Take n) (m, live) = Inr (m', live')"
      using assms(2,4) by simp_all
    show ?thesis
    proof (rule take_cases [OF inv(1) fit run])
      assume "m' = m" "live' = live"
      then show ?thesis using assms(3) by simp
    next
      fix a
      assume a: "alloc n m = Inr (a, m')" and "live' = (a, n) # live"
      then show ?thesis
        using alloc_exact [OF inv(1) fit a] alloc_block [OF inv(1) fit a] assms(3) by auto
    qed
  next
    case (Return i)
    show ?thesis
    proof (cases "i < length live")
      case False
      then show ?thesis using assms Return by simp
    next
      case True
      then obtain xs a n ys where live: "live = xs @ (a, n) # ys" "xs = take i live"
        "ys = drop (Suc i) live" "live ! i = (a, n)"
        by (rule live_split)
      have run: "dealloc a n m = Inr m'" "live' = xs @ ys"
        using assms(4) Return True live(2-4) by (auto split: sum.splits)
      have "fits n" "block a (extent n) \<subseteq> A" "block a (extent n) \<inter> avail m = {}"
        using inv assms(3) unfolding live(1) by auto
      then have "avail m' = avail m \<union> block a (extent n)"
        using dealloc_ok [OF inv(1) _ _ _ run(1)] inv(2) by (meson subset_trans)
      then show ?thesis using assms(3) run(2) unfolding live(1) by auto
    qed
  qed
qed

lemma client_run_conserves:
  "client_ok A (m, live) \<Longrightarrow> \<forall>r \<in> set rs. sizes_ok fits r \<Longrightarrow> avail m \<union> held extent live = A \<Longrightarrow>
   client_run alloc dealloc rs (m, live) = Inr (m', live') \<Longrightarrow> avail m' \<union> held extent live' = A"
proof (induction rs arbitrary: m live)
  case (Cons r rs)
  then obtain m1 live1 where step: "client_step alloc dealloc r (m, live) = Inr (m1, live1)"
    by (auto split: sum.splits)
  moreover have "client_ok A (m1, live1)" using Cons.prems(1,2) step by (auto intro: client_step_ok)
  moreover have "avail m1 \<union> held extent live1 = A"
    using Cons.prems(2) by (intro client_step_conserves [OF Cons.prems(1) _ Cons.prems(3) step]) simp
  moreover have "client_run alloc dealloc rs (m1, live1) = Inr (m', live')"
    using Cons.prems(4) step by simp
  ultimately show ?case using Cons.prems(2) by (intro Cons.IH) simp_all
qed simp

lemma nothing_lost:
  assumes "ok m" "\<forall>r \<in> set rs. sizes_ok fits r"
    "client_run alloc dealloc rs (m, []) = Inr (m', live)"
  shows "avail m' \<union> held extent live = avail m"
  by (rule client_run_conserves [OF client_ok_init [OF assms(1)] assms(2) _ assms(3)]) simp

end

end
