(* ===== verification/MemoryContracts.thy ===== *)
theory MemoryContracts
  imports HoleTable AllocClient
begin

text \<open>
  The properties of the memory space: the allocator's refinement theorems, its contracts to the
  clients as interpretations of the locales of theory AllocClient (unaligned blocks, pages, and the
  buffers of the request threads), the access to the bytes, and what the two constructors give.
\<close>

section \<open>The contracts it provides\<close>

lemma block_range:
  assumes "block a n \<subseteq> {1..<2 ^ 32}" "0 < n"
  shows "1 \<le> unat a" "unat a + n \<le> 2 ^ 32"
proof -
  have "unat a \<in> block a n" "unat a + n - 1 \<in> block a n" using assms(2) by (auto simp: block_def)
  then have "unat a \<in> {1..<2 ^ 32}" "unat a + n - 1 \<in> {1..<2 ^ 32}" using assms(1) by blast+
  then show "1 \<le> unat a" "unat a + n \<le> 2 ^ 32" using assms(2) by auto
qed

lemma free_mem_effect:
  assumes "ms_ok s" "0 < unat n" "block a (unat n) \<subseteq> {1..<2 ^ 32}" "block a (unat n) \<inter> free_set s = {}"
  shows "free_mem a n s = Inl Aborted \<and> length (free_list s) = NR_HOLES \<or>
    (\<exists>s'. free_mem a n s = Inr s' \<and> ms_ok s' \<and> free_set s' = free_set s \<union> block a (unat n) \<and> same_mem s s')"
proof (cases "length (free_list s) = NR_HOLES")
  case True
  moreover have "n \<noteq> 0" using assms(2) by auto
  ultimately show ?thesis using free_mem_full [OF assms(1)] by simp
next
  case False
  then have room: "length (free_list s) < NR_HOLES" using ms_ok_slots [OF assms(1)] by simp
  note range = block_range [OF assms(3,2)]
  have dis: "{unat a..<unat a + unat n} \<inter> free_set s = {}" using assms(4) by (simp add: block_def)
  obtain s' where s': "free_mem a n s = Inr s'" "ms_ok s'" "same_mem s s'"
    "free_list s' = free_spec (unat a) (unat n) (free_list s)"
    using free_mem_refines_raw [OF assms(1) range(1) assms(2) range(2) dis room] by blast
  have "wf_from 1 (free_list s)" using assms(1) by (simp add: ms_ok_def)
  from free_spec_effect [OF this range(1) assms(2) range(2)] dis s'(4)
  have "free_set s' = free_set s \<union> block a (unat n)" by (auto simp: free_set_def block_def)
  with s' show ?thesis by blast
qed

text \<open>The sizes a client may ask for: not zero, and rounding up does not overflow.\<close>

definition byte_fits :: "size_t \<Rightarrow> bool" where
  "byte_fits n \<longleftrightarrow> 0 < unat n \<and> unat n + 1 < 2 ^ 64"

definition page_fits :: "size_t \<Rightarrow> bool" where
  "page_fits n \<longleftrightarrow> 0 < unat n \<and> unat n + 0x2000 < 2 ^ 64"

definition page_extent :: "size_t \<Rightarrow> nat" where
  "page_extent n = unat (roundup n 0x1000)"

lemma unat_roundup:
  assumes "page_fits n"
  shows "unat (roundup n 0x1000) = unat n + pad (unat n) 0x1000"
proof -
  have m: "unat (n mod 0x1000) = unat n mod 0x1000" by (simp add: unat_mod)
  have sum: "unat (n + 0x1000) = unat n + 0x1000"
    using assms by (subst unat_add_lt) (simp_all add: page_fits_def)
  have "unat (n + 0x1000 - n mod 0x1000) = unat n + 0x1000 - unat n mod 0x1000"
    using m sum mod_less_eq_dividend [of "unat n" "0x1000"]
    by (subst unat_sub_le) (simp_all add: word_le_nat_alt)
  then show ?thesis using m by (simp add: roundup_def pad_def word_unat_eq_iff)
qed

lemma page_extent_bounds:
  assumes "page_fits n"
  shows "unat n \<le> page_extent n" "0 < page_extent n" "page_extent n mod 0x1000 = 0"
    "page_extent n + 0x1000 < 2 ^ 64"
proof -
  note r = unat_roundup [OF assms]
  show "unat n \<le> page_extent n" using r by (simp add: page_extent_def)
  show "0 < page_extent n" using r assms by (simp add: page_extent_def page_fits_def)
  show "page_extent n mod 0x1000 = 0" using r pad_aligned [of "0x1000" "unat n"] by (simp add: page_extent_def)
  show "page_extent n + 0x1000 < 2 ^ 64"
    using r assms pad_less [of "0x1000" "unat n"] by (simp add: page_extent_def page_fits_def)
qed

lemma allocate_pages_cases:
  assumes "ms_ok s" "page_fits n"
  shows "allocate_pages n s = Inl MemoryNotAvailable \<or>
    (\<exists>a s'. allocate_pages n s = Inr (a, s') \<and> ms_ok s' \<and> same_mem s s' \<and>
      block a (page_extent n) \<subseteq> free_set s \<and> free_set s' \<subseteq> free_set s - block a (page_extent n))"
proof -
  note b = page_extent_bounds [OF assms(2)]
  have al: "0 < unat (0x1000 :: size_t)" "unat (roundup n 0x1000) + unat (0x1000 :: size_t) < 2 ^ 64"
    "0 < unat (roundup n 0x1000)"
    using b by (simp_all add: page_extent_def)
  show ?thesis
  proof (cases "allocate_pages n s")
    case (Inl e)
    then show ?thesis using allocate_refines_raw [OF assms(1) al(1,2)]
      by (auto simp: allocate_pages_def split: option.splits)
  next
    case (Inr r)
    obtain a s' where r: "r = (a, s')" by (cases r)
    with Inr have run: "allocate (roundup n 0x1000) 0x1000 s = Inr (a, s')" by (simp add: allocate_pages_def)
    note got = allocate_Inr [OF assms(1) al(1,2) run al(3)]
    then show ?thesis using Inr r by (auto simp: page_extent_def block_def)
  qed
qed

lemma allocate_byte_cases:
  assumes "ms_ok s" "byte_fits n"
  shows "allocate n 1 s = Inl MemoryNotAvailable \<or>
    (\<exists>a s'. allocate n 1 s = Inr (a, s') \<and> ms_ok s' \<and> same_mem s s' \<and>
      block a (unat n) \<subseteq> free_set s \<and> free_set s' = free_set s - block a (unat n))"
proof -
  have al: "0 < unat (1 :: size_t)" "unat n + unat (1 :: size_t) < 2 ^ 64" "0 < unat n"
    using assms(2) by (simp_all add: byte_fits_def)
  show ?thesis
  proof (cases "allocate n 1 s")
    case (Inl e)
    then show ?thesis using allocate_refines_raw [OF assms(1) al(1,2)]
      by (auto split: option.splits)
  next
    case (Inr r)
    obtain a s' where r: "r = (a, s')" by (cases r)
    note got = allocate_Inr [OF assms(1) al(1,2) Inr [unfolded r] al(3)]
    have wf: "wf_from 1 (free_list s)" using assms(1) by (simp add: ms_ok_def)
    have "free_set s' = free_set s - block a (unat n)"
      using alloc_spec_effect(3) [OF wf got(8)] by (auto simp: free_set_def block_def)
    then show ?thesis using got Inr r by (auto simp: block_def)
  qed
qed

text \<open>The invariant of a memory that started as \<open>s0\<close>: its bytes and its mapping stay as they were.\<close>

definition ms_from :: "memory_space \<Rightarrow> memory_space \<Rightarrow> bool" where
  "ms_from s0 s \<longleftrightarrow> ms_ok s \<and> same_mem s0 s"

lemma ms_fromD: "ms_from s0 s \<Longrightarrow> ms_ok s"
  by (simp add: ms_from_def)

lemma ms_from_step: "ms_from s0 s \<Longrightarrow> ms_ok s' \<Longrightarrow> same_mem s s' \<Longrightarrow> ms_from s0 s'"
  by (auto simp: ms_from_def intro: same_mem_trans)

interpretation byte_alloc: exact_allocator "\<lambda>n. allocate n 1" free_mem free_set "ms_from s0" unat byte_fits
  for s0
proof unfold_locales
  fix m n a m' e
  assume inv: "ms_from s0 m" and fit: "byte_fits n"
  note ok = ms_fromD [OF inv]
  note cases = allocate_byte_cases [OF ok fit]
  show "allocate n 1 m = Inl e \<Longrightarrow> e = MemoryNotAvailable" using cases by auto
  assume "allocate n 1 m = Inr (a, m')"
  with cases show "ms_from s0 m'" "block a (unat n) \<subseteq> free_set m"
    "free_set m' \<subseteq> free_set m - block a (unat n)" "free_set m' = free_set m - block a (unat n)"
    by (auto intro: ms_from_step [OF inv])
next
  fix m n a m' e
  assume inv: "ms_from s0 m" and fit: "byte_fits n"
    and range: "block a (unat n) \<subseteq> {1..<2 ^ 32}" "block a (unat n) \<inter> free_set m = {}"
  have "0 < unat n" using fit by (simp add: byte_fits_def)
  note eff = free_mem_effect [OF ms_fromD [OF inv] this range]
  show "free_mem a n m = Inr m' \<Longrightarrow> ms_from s0 m' \<and> free_set m' = free_set m \<union> block a (unat n)"
    "free_mem a n m = Inl e \<Longrightarrow> e = Aborted"
    using eff by (auto intro: ms_from_step [OF inv])
next
  show "ms_from s0 m \<Longrightarrow> free_set m \<subseteq> {1..<2 ^ 32}" for m
    using free_set_bound [OF ms_fromD] by auto
qed

interpretation page_alloc: address_allocator allocate_pages free_pages free_set "ms_from s0" page_extent page_fits
  for s0
proof unfold_locales
  fix m n a m' e
  assume inv: "ms_from s0 m" and fit: "page_fits n"
  note ok = ms_fromD [OF inv]
  note cases = allocate_pages_cases [OF ok fit]
  show "allocate_pages n m = Inl e \<Longrightarrow> e = MemoryNotAvailable" using cases by auto
  assume "allocate_pages n m = Inr (a, m')"
  with cases show "ms_from s0 m'" "block a (page_extent n) \<subseteq> free_set m"
    "free_set m' \<subseteq> free_set m - block a (page_extent n)"
    by (auto intro: ms_from_step [OF inv])
next
  fix m n a m' e
  assume inv: "ms_from s0 m" and fit: "page_fits n"
    and range: "block a (page_extent n) \<subseteq> {1..<2 ^ 32}" "block a (page_extent n) \<inter> free_set m = {}"
  have "0 < unat (roundup n 0x1000)" using page_extent_bounds [OF fit] by (simp add: page_extent_def)
  note eff = free_mem_effect [OF ms_fromD [OF inv] this range [unfolded page_extent_def]]
  show "free_pages a n m = Inr m' \<Longrightarrow> ms_from s0 m' \<and> free_set m' = free_set m \<union> block a (page_extent n)"
    "free_pages a n m = Inl e \<Longrightarrow> e = Aborted"
    using eff by (auto simp: free_pages_def page_extent_def intro: ms_from_step [OF inv])
next
  show "ms_from s0 m \<Longrightarrow> free_set m \<subseteq> {1..<2 ^ 32}" for m
    using free_set_bound [OF ms_fromD] by auto
qed

text \<open>
  The request threads take their buffers with \<open>allocate_pages\<close> and return them with \<open>free\<close>: only
  the requested bytes come back, which is still safe.
\<close>

interpretation buffer_alloc: address_allocator allocate_pages free_mem free_set "ms_from s0" unat page_fits
  for s0
proof unfold_locales
  fix m n a m' e
  assume inv: "ms_from s0 m" and fit: "page_fits n"
  note ok = ms_fromD [OF inv]
  note cases = allocate_pages_cases [OF ok fit]
  have sub: "block a (unat n) \<subseteq> block a (page_extent n)"
    using page_extent_bounds(1) [OF fit] by (auto simp: block_def)
  show "allocate_pages n m = Inl e \<Longrightarrow> e = MemoryNotAvailable" using cases by auto
  assume "allocate_pages n m = Inr (a, m')"
  with cases sub show "ms_from s0 m'" "block a (unat n) \<subseteq> free_set m"
    "free_set m' \<subseteq> free_set m - block a (unat n)"
    by (auto intro: ms_from_step [OF inv])
next
  fix m n a m' e
  assume inv: "ms_from s0 m" and fit: "page_fits n"
    and range: "block a (unat n) \<subseteq> {1..<2 ^ 32}" "block a (unat n) \<inter> free_set m = {}"
  have "0 < unat n" using fit by (simp add: page_fits_def)
  note eff = free_mem_effect [OF ms_fromD [OF inv] this range]
  show "free_mem a n m = Inr m' \<Longrightarrow> ms_from s0 m' \<and> free_set m' = free_set m \<union> block a (unat n)"
    "free_mem a n m = Inl e \<Longrightarrow> e = Aborted"
    using eff by (auto intro: ms_from_step [OF inv])
next
  show "ms_from s0 m \<Longrightarrow> free_set m \<subseteq> {1..<2 ^ 32}" for m
    using free_set_bound [OF ms_fromD] by auto
qed

section \<open>The initial memories\<close>

lemma MemorySpace_ok: "ms_ok (MemorySpace iova sz raw)" "free_list (MemorySpace iova sz raw) = []"
  using chains_abs [OF MemorySpace_chains] ms_okI [OF MemorySpace_chains] by simp_all

lemma MemorySpace_free:
  assumes "1 \<le> unat a" "0 < unat n" "unat a + unat n \<le> 2 ^ 32"
  shows "\<exists>s. free_mem a n (MemorySpace iova sz raw) = Inr s \<and> ms_ok s \<and>
    free_list s = [(unat a, unat n)] \<and> iova_base s = iova \<and> map_size s = sz \<and> bytes s = raw"
proof -
  have "\<exists>s. free_mem a n (MemorySpace iova sz raw) = Inr s \<and> ms_ok s \<and>
      free_list s = free_spec (unat a) (unat n) (free_list (MemorySpace iova sz raw)) \<and>
      same_mem (MemorySpace iova sz raw) s"
    using assms by (intro free_mem_refines_raw MemorySpace_ok)
      (simp_all add: MemorySpace_ok free_set_def NR_HOLES_def)
  then obtain s where s: "free_mem a n (MemorySpace iova sz raw) = Inr s" "ms_ok s"
    "free_list s = [(unat a, unat n)]" "same_mem (MemorySpace iova sz raw) s"
    by (auto simp: MemorySpace_ok)
  then show ?thesis by (intro exI [of _ s]) (simp add: same_mem_def MemorySpace_def)
qed

lemma SharedMemorySpace_ok:
  assumes "0x1000 < unat fs" "unat fs \<le> 2 ^ 32"
  shows "\<exists>s. SharedMemorySpace fs raw = Inr s \<and> ms_ok s \<and> free_list s = [(0x1000, unat fs - 0x1000)] \<and>
    iova_base s = 0 \<and> map_size s = fs \<and> bytes s = raw"
proof -
  have "unat (fs - 0x1000) = unat fs - 0x1000"
    using assms by (subst unat_sub_le) (simp_all add: word_le_nat_alt)
  with assms show ?thesis
    using MemorySpace_free [of "0x1000" "fs - 0x1000" 0 fs raw] by (simp add: SharedMemorySpace_def)
qed

lemma in_map_block:
  assumes "block a n \<subseteq> {..<unat (map_size s)}" "iova_base s = 0" "0 < n" "unat len \<le> n"
  shows "in_map a len s"
proof -
  have "unat a \<in> block a n" "unat a + n - 1 \<in> block a n" using assms(3) by (auto simp: block_def)
  then have le: "unat a < unat (map_size s)" "unat a + n \<le> unat (map_size s)"
    using assms(1,3) by (blast, fastforce)
  have "unat (ucast a + len :: size_t) = unat a + unat len"
    using le(2) assms(4) le_less_trans [OF _ unat_lt_exp [of "map_size s"]]
    by (subst unat_add_lt) (simp_all add: unat_ucast_up)
  with le assms(2,4) show ?thesis
    by (simp add: in_map_def word_less_nat_alt word_le_nat_alt unat_ucast_up)
qed

section \<open>Properties\<close>

text \<open>
  C6: \<open>allocate\<close> implements first fit: with a non-zero alignment and no overflow of the requested
  size, it returns the address that the abstract allocator chooses, leaves the abstract hole list
  the abstract allocator leaves, touches nothing but the hole table, and throws
  \<open>MemoryNotAvailable\<close> exactly when no hole is large enough. The search loop always ends.
\<close>

theorem allocate_refines:
  assumes "ms_ok s" "0 < unat align" "unat len + unat align < 2 ^ 64"
  shows "case alloc_spec (unat len) (unat align) (free_list s) of
      None \<Rightarrow> allocate len align s = Inl MemoryNotAvailable
    | Some (a, hs) \<Rightarrow> \<exists>s'. allocate len align s = Inr (of_nat a, s') \<and> ms_ok s' \<and>
        free_list s' = hs \<and> same_mem s s'"
  using assms by (rule allocate_refines_raw)

theorem allocate_refines_witness:
  "\<exists>s s'. SharedMemorySpace 0x5000 (\<lambda>i. 0) = Inr s \<and> allocate 0x1234 0x800 s = Inr (0x1000, s') \<and>
     ms_ok s' \<and> free_list s' = [(0x2234, 0x2DCC)]"
proof -
  obtain s where s: "SharedMemorySpace 0x5000 (\<lambda>i. 0) = Inr s" "ms_ok s" "free_list s = [(0x1000, 0x4000)]"
    using SharedMemorySpace_ok [of "0x5000" "\<lambda>i. 0"] by auto
  from allocate_refines [OF s(2), of "0x800" "0x1234"] s(1,3) show ?thesis
    by (auto simp: pad_def)
qed

text \<open>
  C7: \<open>free\<close> implements insertion with coalescing: a block of at least one byte, within 32-bit
  addresses and disjoint from the free memory, is added to the abstract hole list, merged with the
  holes it touches on either side; only when all 512 slots are in use does it abort.
\<close>

theorem free_mem_refines:
  assumes "ms_ok s" "1 \<le> unat a" "0 < unat n" "unat a + unat n \<le> 2 ^ 32"
    and "block a (unat n) \<inter> free_set s = {}"
  shows "if length (free_list s) = NR_HOLES then free_mem a n s = Inl Aborted
    else \<exists>s'. free_mem a n s = Inr s' \<and> ms_ok s' \<and> same_mem s s' \<and>
      free_list s' = free_spec (unat a) (unat n) (free_list s) \<and>
      free_set s' = free_set s \<union> block a (unat n)"
proof (cases "length (free_list s) = NR_HOLES")
  case True
  moreover have "n \<noteq> 0" using assms(3) by auto
  ultimately show ?thesis using free_mem_full [OF assms(1)] by simp
next
  case False
  then have room: "length (free_list s) < NR_HOLES" using ms_ok_slots [OF assms(1)] by simp
  have dis: "{unat a..<unat a + unat n} \<inter> free_set s = {}" using assms(5) by (simp add: block_def)
  have "wf_from 1 (free_list s)" using assms(1) by (simp add: ms_ok_def)
  from free_spec_effect [OF this assms(2-4)] dis free_mem_refines_raw [OF assms(1-4) dis room] False
  show ?thesis by (auto simp: free_set_def block_def)
qed

theorem free_mem_refines_witness:
  "\<exists>s s'. SharedMemorySpace 0x5000 (\<lambda>i. 0) = Inr s \<and> free_mem 0x6000 0x800 s = Inr s' \<and>
     ms_ok s' \<and> free_list s' = [(0x1000, 0x4000), (0x6000, 0x800)]"
proof -
  obtain s where s: "SharedMemorySpace 0x5000 (\<lambda>i. 0) = Inr s" "ms_ok s" "free_list s = [(0x1000, 0x4000)]"
    using SharedMemorySpace_ok [of "0x5000" "\<lambda>i. 0"] by auto
  from free_mem_refines [OF s(2), of "0x6000" "0x800"] s(1,3) show ?thesis
    by (auto simp: free_set_def block_def NR_HOLES_def)
qed

text \<open>
  C8: whatever sequence of \<open>allocate_pages\<close> and \<open>free_pages\<close> runs on a fresh shared memory, the
  blocks held at the end do not overlap each other or the free memory, lie behind the first page
  and inside the mapped file, and pass the range check of \<open>read\<close> and \<open>write\<close>; the only fault such
  a run can end with is the abort on a full hole table.
\<close>

theorem shared_pages_safe:
  assumes "0x1000 < unat fs" "unat fs \<le> 2 ^ 32" "\<forall>r \<in> set rs. sizes_ok page_fits r"
  shows "\<exists>s. SharedMemorySpace fs raw = Inr s \<and>
    (case client_run allocate_pages free_pages rs (s, []) of
       Inl e \<Rightarrow> e = Aborted
     | Inr (s', live) \<Rightarrow> ms_ok s' \<and> apart page_extent live \<and>
         held page_extent live \<subseteq> {0x1000..<unat fs} - free_set s' \<and>
         (\<forall>(a, n) \<in> set live. in_map a n s'))"
proof -
  obtain s where s: "SharedMemorySpace fs raw = Inr s" "ms_ok s" "iova_base s = 0" "map_size s = fs"
    "free_list s = [(0x1000, unat fs - 0x1000)]"
    using SharedMemorySpace_ok [OF assms(1,2)] by blast
  then have init: "ms_from s s" and avail: "free_set s = {0x1000..<unat fs}"
    using assms(1) by (auto simp: ms_from_def free_set_def)
  show ?thesis
  proof (cases "client_run allocate_pages free_pages rs (s, [])")
    case (Inl e)
    have "e = Aborted" using page_alloc.client_run_fault [OF page_alloc.client_ok_init [OF init] assms(3) Inl] .
    with s(1) Inl show ?thesis by auto
  next
    case (Inr r)
    obtain s' live where r: "r = (s', live)" by (cases r)
    have run: "page_alloc.client_ok s (free_set s) (s', live)"
      using page_alloc.client_run_ok [OF page_alloc.client_ok_init [OF init] assms(3) Inr] r by simp
    then have ok: "ms_from s s'" "apart page_extent live" "held page_extent live \<subseteq> {0x1000..<unat fs}"
      "held page_extent live \<inter> free_set s' = {}" "\<forall>(a, n) \<in> set live. page_fits n"
      using avail by (auto simp: page_alloc.client_ok_def)
    have "in_map a n s'" if "(a, n) \<in> set live" for a n
    proof (rule in_map_block)
      have "block a (page_extent n) \<subseteq> held page_extent live" using that by (auto simp: held_def)
      then show "block a (page_extent n) \<subseteq> {..<unat (map_size s')}"
        using ok(1,3) s(4) by (auto simp: ms_from_def same_mem_def)
      show "iova_base s' = 0" using ok(1) s(3) by (simp add: ms_from_def same_mem_def)
      show "0 < page_extent n" "unat n \<le> page_extent n" using that ok(5) page_extent_bounds by blast+
    qed
    with s(1) Inr r ok show ?thesis by (auto simp: ms_from_def)
  qed
qed

theorem shared_pages_safe_witness:
  "\<exists>s. SharedMemorySpace 0x5000 (\<lambda>i. 0) = Inr s \<and>
    (case client_run allocate_pages free_pages [Take 0x1234, Take 0x1000, Return 1, Take 1] (s, []) of
       Inl e \<Rightarrow> e = Aborted
     | Inr (s', live) \<Rightarrow> ms_ok s' \<and> apart page_extent live \<and>
         held page_extent live \<subseteq> {0x1000..<unat (0x5000 :: size_t)} - free_set s' \<and>
         (\<forall>(a, n) \<in> set live. in_map a n s'))"
  by (rule shared_pages_safe) (simp_all add: page_fits_def)

text \<open>
  C9: unaligned allocation loses nothing: over any run of \<open>allocate(n)\<close> and \<open>free\<close>, the free
  addresses and the held ones together are always those that were free at the start.
\<close>

theorem byte_blocks_conserved:
  assumes "ms_ok s" "\<forall>r \<in> set rs. sizes_ok byte_fits r"
    "client_run (\<lambda>n. allocate n 1) free_mem rs (s, []) = Inr (s', live)"
  shows "free_set s' \<union> held unat live = free_set s \<and> free_set s' \<inter> held unat live = {} \<and>
    apart unat live"
proof -
  have init: "ms_from s s" using assms(1) by (simp add: ms_from_def)
  show ?thesis
    using byte_alloc.nothing_lost [OF init assms(2,3)] byte_alloc.client_blocks [OF init assms(2,3)]
    by blast
qed

theorem byte_blocks_conserved_witness:
  "\<exists>s s' live. SharedMemorySpace 0x5000 (\<lambda>i. 0) = Inr s \<and>
     client_run (\<lambda>n. allocate n 1) free_mem [Take 0x10] (s, []) = Inr (s', live) \<and>
     free_set s' \<union> held unat live = {0x1000..<0x5000}"
proof -
  obtain s where s: "SharedMemorySpace 0x5000 (\<lambda>i. 0) = Inr s" "ms_ok s" "free_list s = [(0x1000, 0x4000)]"
    using SharedMemorySpace_ok [of "0x5000" "\<lambda>i. 0"] by auto
  obtain s' where run: "client_run (\<lambda>n. allocate n 1) free_mem [Take 0x10] (s, []) = Inr (s', [(0x1000, 0x10)])"
    using allocate_refines_raw [OF s(2), of 1 "0x10"] s(3) by auto
  have "free_set s = {0x1000..<0x5000}" using s(3) by (simp add: free_set_def)
  with byte_blocks_conserved [OF s(2) _ run] s(1) run show ?thesis by (auto simp: byte_fits_def)
qed

text \<open>
  C10: freeing what an unaligned allocation has just returned restores the free memory as it was,
  hole by hole.
\<close>

theorem allocate_free_roundtrip:
  assumes "ms_ok s" "byte_fits n" "allocate n 1 s = Inr (a, s')" "length (free_list s') < NR_HOLES"
  shows "\<exists>s''. free_mem a n s' = Inr s'' \<and> free_list s'' = free_list s \<and> ms_ok s''"
proof -
  have al: "0 < unat (1 :: size_t)" "unat n + unat (1 :: size_t) < 2 ^ 64" "0 < unat n"
    using assms(2) by (simp_all add: byte_fits_def)
  note got = allocate_Inr [OF assms(1) al(1,2) assms(3) al(3)]
  have "{unat a..<unat a + unat n} \<inter> free_set s' = {}" using got(7) by blast
  then obtain s'' where s'': "free_mem a n s' = Inr s''" "ms_ok s''"
    "free_list s'' = free_spec (unat a) (unat n) (free_list s')"
    using free_mem_refines_raw [OF got(1,6) al(3) got(5) _ assms(4)] by blast
  have wf: "wf_from 1 (free_list s)" using assms(1) by (simp add: ms_ok_def)
  have "free_list s'' = free_list s"
    unfolding s''(3) using got(8) by (intro free_after_alloc [OF wf al(3)]) simp
  with s'' show ?thesis by blast
qed

theorem allocate_free_roundtrip_witness:
  "\<exists>s a s' s''. SharedMemorySpace 0x5000 (\<lambda>i. 0) = Inr s \<and> allocate 0x10 1 s = Inr (a, s') \<and>
     free_mem a 0x10 s' = Inr s'' \<and> free_list s'' = [(0x1000, 0x4000)]"
proof -
  obtain s where s: "SharedMemorySpace 0x5000 (\<lambda>i. 0) = Inr s" "ms_ok s" "free_list s = [(0x1000, 0x4000)]"
    using SharedMemorySpace_ok [of "0x5000" "\<lambda>i. 0"] by auto
  obtain s' where s': "allocate 0x10 1 s = Inr (0x1000, s')" "free_list s' = [(0x1010, 0x3FF0)]"
    using allocate_refines_raw [OF s(2), of 1 "0x10"] s(3) by auto
  from allocate_free_roundtrip [OF s(2) _ s'(1)] s s' show ?thesis
    by (auto simp: byte_fits_def NR_HOLES_def)
qed

lemma in_map_bounds:
  assumes "unat len < 2 ^ 63"
  shows "in_map addr len s \<longleftrightarrow> unat (addr - iova_base s) < unat (map_size s) \<and>
    unat (addr - iova_base s) + unat len \<le> unat (map_size s)"
proof -
  have off: "unat (ucast (addr - iova_base s) :: size_t) = unat (addr - iova_base s)"
    by (rule unat_ucast_up) simp
  have "unat (ucast (addr - iova_base s) + len) = unat (addr - iova_base s) + unat len"
  proof -
    have "unat (addr - iova_base s) < 4294967296" "unat len < 9223372036854775808" using assms by simp_all
    then have "unat (addr - iova_base s) + unat len < 18446744073709551616" by linarith
    then show ?thesis using off by (subst unat_add_lt) simp_all
  qed
  then show ?thesis using off by (simp add: in_map_def word_less_nat_alt word_le_nat_alt)
qed

text \<open>
  C11: a write succeeds exactly when it starts inside the mapping and ends in it, and fails its
  assertion otherwise; the bytes written are the bytes read back, and a write changes no byte
  outside its range.
\<close>

theorem mem_read_write:
  assumes "length buf < 2 ^ 63"
  shows "case mem_write addr buf s of
      Inl e \<Rightarrow> e = AssertFailed \<and> \<not> (unat (addr - iova_base s) < unat (map_size s) \<and>
        unat (addr - iova_base s) + length buf \<le> unat (map_size s))
    | Inr s' \<Rightarrow> unat (addr - iova_base s) + length buf \<le> unat (map_size s) \<and>
        mem_read addr (of_nat (length buf)) s' = Inr buf \<and>
        (\<forall>a n. block (a - iova_base s) (unat n) \<inter> block (addr - iova_base s) (length buf) = {} \<longrightarrow>
           mem_read a n s' = mem_read a n s)"
proof (cases "in_map addr (of_nat (length buf)) s")
  case False
  have "unat (of_nat (length buf) :: size_t) = length buf" using assms by (intro unat_of_nat_lt) simp
  with False assms show ?thesis by (auto simp: mem_write_def in_map_bounds)
next
  case True
  let ?off = "unat (addr - iova_base s)"
  let ?s' = "s\<lparr>bytes := poke_bytes ?off buf (bytes s)\<rparr>"
  have reread: "peek_bytes (poke_bytes ?off buf (bytes s)) ?off (length buf) = buf"
    by (rule nth_equalityI) (simp_all add: peek_bytes_def poke_bytes_def)
  have len: "unat (of_nat (length buf) :: size_t) = length buf" using assms by (intro unat_of_nat_lt) simp
  have fits: "?off + length buf \<le> unat (map_size s)" using True len assms by (simp add: in_map_bounds)
  have same: "in_map a n ?s' = in_map a n s" for a n by (simp add: in_map_def)
  have "mem_read a n ?s' = mem_read a n s"
    if "block (a - iova_base s) (unat n) \<inter> block (addr - iova_base s) (length buf) = {}" for a n
  proof -
    have "peek_bytes (poke_bytes ?off buf (bytes s)) (unat (a - iova_base s)) (unat n) =
        peek_bytes (bytes s) (unat (a - iova_base s)) (unat n)"
      using that by (auto simp: peek_bytes_def poke_bytes_def block_def disjoint_iff)
    then show ?thesis by (simp add: mem_read_def same)
  qed
  then show ?thesis using True reread len fits by (simp add: mem_write_def mem_read_def same)
qed

theorem mem_read_write_witness:
  "case mem_write 0x1010 [1, 2, 3] (MemorySpace 0x1000 0x100 (\<lambda>i. 0)) of
      Inl e \<Rightarrow> False
    | Inr s' \<Rightarrow> mem_read 0x1010 3 s' = Inr [1, 2, 3] \<and> mem_read 0x1013 4 s' = Inr [0, 0, 0, 0]"
proof -
  let ?s = "MemorySpace 0x1000 0x100 (\<lambda>i. 0)"
  obtain s' where s': "mem_write 0x1010 [1, 2, 3] ?s = Inr s'"
    by (simp add: mem_write_def in_map_def MemorySpace_def)
  have other: "mem_read 0x1013 4 ?s = Inr [0, 0, 0, 0]"
    by (simp add: mem_read_def in_map_def MemorySpace_def peek_bytes_def upt_rec)
  from mem_read_write [of "[1, 2, 3]" "0x1010" ?s] s' other show ?thesis
    by (auto simp: block_def MemorySpace_def)
qed


text \<open>
  C13: the memory of the VFIO backend frees \<open>iova_base + map_size\<close> bytes from \<open>iova_base\<close>: the last
  \<open>iova_base\<close> of them are not mapped, so an allocator that hands them out gives addresses on which
  every \<open>read\<close> and \<open>write\<close> fails its assertion.
\<close>

theorem vfio_frees_beyond_map:
  assumes "1 \<le> unat iova" "0 < unat sz" "2 * unat iova + unat sz \<le> 2 ^ 32"
  shows "\<exists>s. VfioMemorySpace iova sz raw = Inr s \<and> ms_ok s \<and>
    free_set s = {unat iova..<2 * unat iova + unat sz} \<and>
    (\<forall>x. unat iova + unat sz \<le> unat x \<and> unat x < 2 * unat iova + unat sz \<longrightarrow>
       unat x \<in> free_set s \<and> mem_read x 4 s = Inl AssertFailed)"
proof -
  have len: "unat (ucast iova + sz) = unat iova + unat sz"
    using assms(3) by (subst unat_add_lt) (simp_all add: unat_ucast_up)
  obtain s where s: "VfioMemorySpace iova sz raw = Inr s" "ms_ok s" "iova_base s = iova" "map_size s = sz"
    "free_list s = [(unat iova, unat iova + unat sz)]"
    using MemorySpace_free [of iova "ucast iova + sz" iova sz raw] assms len
    by (auto simp: VfioMemorySpace_def)
  have "mem_read x 4 s = Inl AssertFailed" if "unat iova + unat sz \<le> unat x" for x
  proof -
    have "unat (x - iova) = unat x - unat iova" using that by (intro unat_sub_le) (simp add: word_le_nat_alt)
    then have "unat sz \<le> unat (x - iova)" using that by linarith
    then have "\<not> in_map x 4 s"
      using s(3,4) by (simp add: in_map_def word_less_nat_alt unat_ucast_up)
    then show ?thesis by (simp add: mem_read_def)
  qed
  with s show ?thesis by (auto simp: free_set_def)
qed

theorem vfio_frees_beyond_map_witness:
  "\<exists>s. VfioMemorySpace 0x1000 0x200000 (\<lambda>i. 0) = Inr s \<and>
     unat (0x201000 :: u32) \<in> free_set s \<and> mem_read 0x201000 4 s = Inl AssertFailed"
  using vfio_frees_beyond_map [of "0x1000" "0x200000" "\<lambda>i. 0"] by force

end
