(* ===== verification/PcieLink.thy ===== *)
theory PcieLink
  imports Prelude
begin

text \<open>
  \<^verbatim>\<open>pcie_link.h\<close> and \<^verbatim>\<open>pcie_link.cpp\<close>: the abstract link to the
  device. Its virtual functions are the operations of a record over the state \<open>'l\<close> of the concrete
  link, as a C++ object's virtual table; register access is written once over them. The readiness
  flag is a state machine of two threads.
\<close>

section \<open>Register access\<close>

text \<open>
  \<open>read_from_device addr n\<close> returns the \<open>n\<close> bytes the caller's buffer then holds.
\<close>

record 'l pcie_ops =
  read_from_device :: "u64 \<Rightarrow> size_t \<Rightarrow> 'l \<Rightarrow> fault + (u8 list \<times> 'l)"
  write_to_device :: "u64 \<Rightarrow> u8 list \<Rightarrow> 'l \<Rightarrow> fault + 'l"

definition readl :: "'l pcie_ops \<Rightarrow> u64 \<Rightarrow> 'l \<Rightarrow> fault + (u32 \<times> 'l)" where
  "readl ops addr l = bindE (read_from_device ops addr 4 l) (\<lambda>(bs, l'). Inr (of_le bs, l'))"

definition writel :: "'l pcie_ops \<Rightarrow> u64 \<Rightarrow> u32 \<Rightarrow> 'l \<Rightarrow> fault + 'l" where
  "writel ops addr v l = write_to_device ops addr (le_bytes 4 v) l"

definition readq :: "'l pcie_ops \<Rightarrow> u64 \<Rightarrow> 'l \<Rightarrow> fault + (u64 \<times> 'l)" where
  "readq ops addr l = bindE (read_from_device ops addr 8 l) (\<lambda>(bs, l'). Inr (of_le bs, l'))"

definition writeq :: "'l pcie_ops \<Rightarrow> u64 \<Rightarrow> u64 \<Rightarrow> 'l \<Rightarrow> fault + 'l" where
  "writeq ops addr v l = write_to_device ops addr (le_bytes 8 v) l"

section \<open>Waiting for the device\<close>

text \<open>
  \<open>wait_for_device_ready\<close> in one thread, \<open>set_ready\<close> in another. The waiter locks a mutex of its
  own, which \<open>set_ready\<close> does not take, so the steps of the two interleave freely: the waiter tests
  the flag, then blocks (\<open>wait\<close> gives up the mutex and sleeps in one step), and wakes up when it is
  notified while asleep. Spurious wake-ups, which no program can rely on, are left out.
\<close>

datatype waiter = Testing | AboutToWait | Asleep | Returned
datatype setter = NotSet | FlagSet | Notified

record ready_state =
  device_ready :: bool
  waiter_at :: waiter
  setter_at :: setter

inductive ready_step :: "ready_state \<Rightarrow> ready_state \<Rightarrow> bool" where
  test_true: "waiter_at s = Testing \<Longrightarrow> device_ready s \<Longrightarrow> ready_step s (s\<lparr>waiter_at := Returned\<rparr>)"
| test_false: "waiter_at s = Testing \<Longrightarrow> \<not> device_ready s \<Longrightarrow> ready_step s (s\<lparr>waiter_at := AboutToWait\<rparr>)"
| sleep: "waiter_at s = AboutToWait \<Longrightarrow> ready_step s (s\<lparr>waiter_at := Asleep\<rparr>)"
| set_flag: "setter_at s = NotSet \<Longrightarrow> ready_step s (s\<lparr>device_ready := True, setter_at := FlagSet\<rparr>)"
| notify_all: "setter_at s = FlagSet \<Longrightarrow>
    ready_step s (s\<lparr>setter_at := Notified,
      waiter_at := (if waiter_at s = Asleep then Testing else waiter_at s)\<rparr>)"

inductive_cases ready_stepE: "ready_step s s'"


definition ready_init :: ready_state where
  "ready_init = \<lparr>device_ready = False, waiter_at = Testing, setter_at = NotSet\<rparr>"

inductive ready_reach :: "ready_state \<Rightarrow> bool" where
  start: "ready_reach ready_init"
| step: "ready_reach s \<Longrightarrow> ready_step s s' \<Longrightarrow> ready_reach s'"

definition ready_inv :: "ready_state \<Rightarrow> bool" where
  "ready_inv s \<longleftrightarrow> (device_ready s \<longleftrightarrow> setter_at s \<noteq> NotSet) \<and> (waiter_at s = Returned \<longrightarrow> device_ready s)"

lemma ready_step_inv: "ready_step s s' \<Longrightarrow> ready_inv s \<Longrightarrow> ready_inv s'"
  by (erule ready_stepE) (auto simp: ready_inv_def)

lemma ready_reach_inv: "ready_reach s \<Longrightarrow> ready_inv s"
proof (induction rule: ready_reach.induct)
  case start
  then show ?case by (simp add: ready_init_def ready_inv_def)
next
  case (step s s')
  then show ?case by (blast intro: ready_step_inv)
qed

text \<open>A state from which no thread moves on: the waiter sleeps, and the notification is over.\<close>

definition lost_wakeup :: "ready_state \<Rightarrow> bool" where
  "lost_wakeup s \<longleftrightarrow> device_ready s \<and> waiter_at s = Asleep \<and> setter_at s = Notified"

lemma stuck_iff:
  assumes "ready_reach s"
  shows "(\<nexists>s'. ready_step s s') \<longleftrightarrow> lost_wakeup s \<or> waiter_at s = Returned \<and> setter_at s = Notified"
proof -
  have inv: "ready_inv s" by (rule ready_reach_inv [OF assms])
  show ?thesis
  proof (cases "setter_at s")
    case NotSet
    then show ?thesis by (auto simp: lost_wakeup_def intro: ready_step.intros)
  next
    case FlagSet
    then show ?thesis by (auto simp: lost_wakeup_def intro: ready_step.intros)
  next
    case Notified
    then show ?thesis using inv
      by (cases "waiter_at s") (auto simp: lost_wakeup_def ready_inv_def elim!: ready_stepE intro: ready_step.intros)
  qed
qed

text \<open>
  C24: \<open>wait_for_device_ready\<close> returns only when the device is ready, but it may sleep for ever: if
  the flag is set and the notification sent between the waiter's test of the flag and its sleep,
  the wake-up is lost. That is the only way the two threads can get stuck.
\<close>

theorem wait_ready_safe_but_lossy:
  "(\<forall>s. ready_reach s \<longrightarrow> (waiter_at s = Returned \<longrightarrow> device_ready s) \<and>
      ((\<nexists>s'. ready_step s s') \<longrightarrow> lost_wakeup s \<or> waiter_at s = Returned)) \<and>
   (\<exists>s. ready_reach s \<and> lost_wakeup s \<and> (\<nexists>s'. ready_step s s'))"
proof (intro conjI)
  show "\<forall>s. ready_reach s \<longrightarrow> (waiter_at s = Returned \<longrightarrow> device_ready s) \<and>
      ((\<nexists>s'. ready_step s s') \<longrightarrow> lost_wakeup s \<or> waiter_at s = Returned)"
    using stuck_iff ready_reach_inv by (auto simp: ready_inv_def)
  have 1: "ready_reach (ready_init\<lparr>waiter_at := AboutToWait\<rparr>)"
    by (rule ready_reach.step [OF start test_false]) (simp_all add: ready_init_def)
  have 2: "ready_reach (ready_init\<lparr>waiter_at := AboutToWait, device_ready := True, setter_at := FlagSet\<rparr>)"
    using ready_reach.step [OF 1 set_flag] by (simp add: ready_init_def)
  have 3: "ready_reach (ready_init\<lparr>waiter_at := AboutToWait, device_ready := True, setter_at := Notified\<rparr>)"
    using ready_reach.step [OF 2 notify_all] by (simp add: ready_init_def)
  have 4: "ready_reach \<lparr>device_ready = True, waiter_at = Asleep, setter_at = Notified\<rparr>"
    using ready_reach.step [OF 3 sleep] by (simp add: ready_init_def)
  then show "\<exists>s. ready_reach s \<and> lost_wakeup s \<and> (\<nexists>s'. ready_step s s')"
    using stuck_iff [OF 4] by (intro exI conjI) (simp_all add: lost_wakeup_def)
qed

theorem wait_ready_safe_but_lossy_witness:
  "ready_reach ready_init \<and> \<not> lost_wakeup ready_init \<and> (\<exists>s. ready_reach s \<and> lost_wakeup s)"
  using wait_ready_safe_but_lossy start by (auto simp: lost_wakeup_def ready_init_def)

end
