(* ===== verification/PcieMcmq.thy ===== *)
theory PcieMcmq
  imports Ringbuffer PcieLink
begin

text \<open>
  \<^verbatim>\<open>pcie_link_mcmq.h\<close> and \<^verbatim>\<open>pcie_link_mcmq.cpp\<close>: the link to the
  simulated device over a stream socket. The bytes sent are a stream; the receiving thread takes
  chunks of at most 4096 bytes from the socket into its ring buffer and cuts them into messages.
  \<open>tx\<close> is the system call \<open>send\<close>: how many bytes of a buffer it accepts, \<open>None\<close> for an error. The
  interrupt handler is a function on the link and the rest \<open>'d\<close> of the program's state, or not set.
  Each critical section (of \<open>mutex\<close> and \<open>sock_mutex\<close>) is one step.
\<close>

section \<open>State\<close>

datatype message_type = READ_REQ | WRITE_REQ | READ_COMP | IRQ | DEV_READY | REPORT | RESULT

primrec type_code :: "message_type \<Rightarrow> u16" where
  "type_code READ_REQ = 1"
| "type_code WRITE_REQ = 2"
| "type_code READ_COMP = 3"
| "type_code IRQ = 4"
| "type_code DEV_READY = 5"
| "type_code REPORT = 6"
| "type_code RESULT = 7"

text \<open>\<open>rr_buf\<close> is the caller's buffer, of \<open>rr_buflen\<close> bytes.\<close>

record read_request =
  rr_buf :: "u8 list"
  rr_buflen :: size_t
  rr_len :: size_t
  rr_completed :: bool

record mcmq_link =
  sent :: "u8 list"
  read_id_counter :: u32
  read_requests :: "u32 \<Rightarrow> read_request option"
  result_buf :: "u8 list"
  result_len :: size_t
  result_ready :: bool
  link_ready :: bool

section \<open>Sending\<close>

type_synonym send_call = "u8 list \<Rightarrow> nat option"

definition send_all :: "send_call \<Rightarrow> string \<Rightarrow> u8 list \<Rightarrow> mcmq_link \<Rightarrow> fault + mcmq_link" where
  "send_all tx err msg l =
     (case tx msg of
        None \<Rightarrow> Inl (RuntimeError err)
      | Some n \<Rightarrow> if n \<noteq> length msg then Inl (RuntimeError err)
                 else Inr (l\<lparr>sent := sent l @ msg\<rparr>))"

text \<open>
  The message starts as zero bytes. The upper half of the address is shifted left by 32 bits and
  then stored into 32 bits.
\<close>

definition message_bytes :: "message_type \<Rightarrow> u64 \<Rightarrow> u8 list \<Rightarrow> u8 list" where
  "message_bytes type addr buf =
     (let msg_len = 2 + 8 + length buf;
          msg = replicate (2 + msg_len) 0;
          msg = patch 0 (le_bytes 2 (htons (of_nat msg_len))) msg;
          msg = patch 2 (le_bytes 2 (htons (type_code type))) msg;
          hi = push_bit 32 (ucast (htonl (ucast (drop_bit 32 addr AND 0xffffffff))) :: u64);
          msg = patch 4 (le_bytes 4 (ucast hi :: u32)) msg;
          msg = patch 8 (le_bytes 4 (htonl (ucast (addr AND 0xffffffff)))) msg
      in patch 12 buf msg)"

definition send_message ::
    "send_call \<Rightarrow> message_type \<Rightarrow> u64 \<Rightarrow> u8 list \<Rightarrow> mcmq_link \<Rightarrow> fault + mcmq_link" where
  "send_message tx type addr buf l =
     send_all tx ''Failed to send PCIe message'' (message_bytes type addr buf) l"

text \<open>\<open>config\<close> is the serialised configuration.\<close>

definition send_config :: "send_call \<Rightarrow> u8 list \<Rightarrow> mcmq_link \<Rightarrow> fault + mcmq_link" where
  "send_config tx config l =
     send_all tx ''Failed to send SSD config''
       (patch 2 config (patch 0 (le_bytes 2 (htons (of_nat (length config))))
          (replicate (2 + length config) 0))) l"

text \<open>\<open>PCIeLinkMcmq::write_to_device\<close>.\<close>

definition mcmq_write :: "send_call \<Rightarrow> u64 \<Rightarrow> u8 list \<Rightarrow> mcmq_link \<Rightarrow> fault + mcmq_link" where
  "mcmq_write tx addr buf l = send_message tx WRITE_REQ addr buf l"

section \<open>Read requests\<close>

text \<open>
  An identifier that is still in the map keeps its entry, whose fields are then overwritten; \<open>raw\<close>
  are the bytes of the caller's buffer.
\<close>

definition setup_read_request :: "u8 list \<Rightarrow> mcmq_link \<Rightarrow> u32 \<times> mcmq_link" where
  "setup_read_request raw l =
     (let rid = read_id_counter l;
          req = (case read_requests l rid of
                   None \<Rightarrow> \<lparr>rr_buf = raw, rr_buflen = of_nat (length raw), rr_len = 0, rr_completed = False\<rparr>
                 | Some r \<Rightarrow> r\<lparr>rr_buf := raw, rr_buflen := of_nat (length raw), rr_completed := False\<rparr>)
      in (rid, l\<lparr>read_id_counter := rid + 1, read_requests := (read_requests l)(rid \<mapsto> req)\<rparr>))"

definition complete_read_request :: "u32 \<Rightarrow> u8 list \<Rightarrow> mcmq_link \<Rightarrow> mcmq_link" where
  "complete_read_request rid buf l =
     (case read_requests l rid of
        None \<Rightarrow> l
      | Some r \<Rightarrow>
          let outlen = min (of_nat (length buf)) (rr_buflen r)
          in l\<lparr>read_requests := (read_requests l)(rid \<mapsto>
               r\<lparr>rr_buf := patch 0 (take (unat outlen) buf) (rr_buf r), rr_len := outlen, rr_completed := True\<rparr>)\<rparr>)"

text \<open>
  \<open>read_from_device\<close> up to its wait, and from the wait on: it can go on once the request is
  completed, and returns the caller's buffer and the length received.
\<close>

definition read_begin :: "send_call \<Rightarrow> u64 \<Rightarrow> u8 list \<Rightarrow> mcmq_link \<Rightarrow> fault + (u32 \<times> mcmq_link)" where
  "read_begin tx addr raw l =
     (let (rid, l1) = setup_read_request raw l
      in bindE (send_message tx READ_REQ addr (le_bytes 4 rid) l1) (\<lambda>l2. Inr (rid, l2)))"

definition read_end :: "u32 \<Rightarrow> mcmq_link \<Rightarrow> ((u8 list \<times> size_t) \<times> mcmq_link) option" where
  "read_end rid l =
     (case read_requests l rid of
        None \<Rightarrow> None
      | Some r \<Rightarrow>
          if rr_completed r
          then Some ((rr_buf r, rr_len r), l\<lparr>read_requests := (read_requests l)(rid := None)\<rparr>)
          else None)"

section \<open>The result of the simulation\<close>

definition report_begin :: "send_call \<Rightarrow> mcmq_link \<Rightarrow> fault + mcmq_link" where
  "report_begin tx l =
     send_message tx REPORT 0 [] (l\<lparr>result_buf := [], result_len := 0, result_ready := False\<rparr>)"

text \<open>\<open>parse\<close> is \<open>ParseFromArray\<close> of the generated message class.\<close>

definition report_end :: "(u8 list \<Rightarrow> 'r) \<Rightarrow> mcmq_link \<Rightarrow> 'r option" where
  "report_end parse l = (if result_ready l then Some (parse (result_buf l)) else None)"

section \<open>Receiving\<close>

type_synonym 'd irq_handler = "(u16 \<Rightarrow> mcmq_link \<times> 'd \<Rightarrow> fault + (mcmq_link \<times> 'd)) option"

definition append_result :: "u8 list \<Rightarrow> mcmq_link \<Rightarrow> fault + mcmq_link" where
  "append_result body l =
     bindE
       (if result_buf l = [] then
          if length body < 2 then Inl AssertFailed
          else Inr (drop 2 body, l\<lparr>result_len := ucast (ntohs (of_le (take 2 body)))\<rparr>)
        else Inr (body, l))
       (\<lambda>(rest, l1).
          let l2 = l1\<lparr>result_buf := result_buf l1 @ rest\<rparr>
          in Inr (if of_nat (length (result_buf l2)) = result_len l2 then l2\<lparr>result_ready := True\<rparr> else l2))"

text \<open>The \<open>switch\<close> on the type of a message. An unknown type is logged and ignored.\<close>

definition dispatch :: "'d irq_handler \<Rightarrow> u8 list \<Rightarrow> mcmq_link \<times> 'd \<Rightarrow> fault + (mcmq_link \<times> 'd)" where
  "dispatch irq payload = (\<lambda>(l, d).
     if length payload < 2 then Inl AssertFailed
     else
       let type = ntohs (of_le (take 2 payload));
           body = drop 2 payload
       in if type = type_code READ_COMP then
            if length body < 4 then Inl AssertFailed
            else Inr (complete_read_request (of_le (take 4 body)) (drop 4 body) l, d)
          else if type = type_code IRQ then
            if length body \<noteq> 2 then Inl AssertFailed
            else case irq of None \<Rightarrow> Inr (l, d) | Some h \<Rightarrow> h (ntohs (of_le body)) (l, d)
          else if type = type_code DEV_READY then Inr (l\<lparr>link_ready := True\<rparr>, d)
          else if type = type_code RESULT then bindE (append_result body l) (\<lambda>l'. Inr (l', d))
          else Inr (l, d))"

lemma dispatch_long: "dispatch irq payload st = Inr st' \<Longrightarrow> 2 \<le> length payload"
  by (auto simp: dispatch_def split: if_splits prod.splits)

text \<open>
  The inner loop, on the ring buffer and \<open>last_len\<close>. The length prefix is read as soon as more than
  two bytes are there; if the message is not complete, its length waits in \<open>last_len\<close>. Every round
  takes bytes out of the ring: a prefix of two, or a message of at least two.
\<close>

function parse_loop ::
    "'d irq_handler \<Rightarrow> u8 ringbuffer \<Rightarrow> u16 option \<Rightarrow> mcmq_link \<times> 'd \<Rightarrow>
     fault + (u8 ringbuffer \<times> mcmq_link \<times> 'd)" where
  "parse_loop irq r last_len st =
     (if (case last_len of None \<Rightarrow> readAvailable r > 2 | Some n \<Rightarrow> readAvailable r \<ge> ucast n) then
        let (len, r1) =
          (case last_len of
             None \<Rightarrow> (let (bs, r') = readBuff 2 r in (ntohs (of_le bs), r'))
           | Some n \<Rightarrow> (n, r))
        in if last_len = None \<and> readAvailable r1 < ucast len then parse_loop irq r1 (Some len) st
           else
             let (bs, r2) = readBuff (ucast len) r1;
                 payload = bs @ replicate (unat len - length bs) 0
             in bindE (dispatch irq payload st) (parse_loop irq r2 None)
      else Inr (r, st))"
  by pat_completeness auto

termination
proof (relation "measure (\<lambda>(irq, r, last_len, st). unat (readAvailable r))", goal_cases)
  case 1
  then show ?case by simp
next
  case (2 irq r last_len st x len r1)
  then have "last_len = None" "2 < readAvailable r" "r1 = snd (readBuff 2 r)"
    by (auto simp: case_prod_beta)
  then show ?case by (simp add: rbq.avail_after_get word_less_nat_alt)
next
  case (3 irq r last_len st x len r1 y bs r2 payload st')
  have r2: "r2 = snd (readBuff (ucast len) r1)" and bs: "bs = fst (readBuff (ucast len) r1)"
    using 3(5,6) by (metis snd_conv, metis fst_conv)
  have "length bs \<le> unat len" by (simp add: bs rbq.get_elems unat_ucast_up)
  then have len: "2 \<le> unat len" using dispatch_long [OF 3(8)] by (simp add: 3(7))
  have avail: "unat (readAvailable r2) = unat (readAvailable r1) - unat len"
    by (simp add: r2 rbq.avail_after_get unat_ucast_up)
  show ?case
  proof (cases last_len)
    case None
    then have "2 < readAvailable r" "r1 = snd (readBuff 2 r)"
      using 3(1-3) by (auto simp: case_prod_beta)
    then show ?thesis using avail by (simp add: rbq.avail_after_get word_less_nat_alt)
  next
    case (Some n)
    then have "r1 = r" "unat len \<le> unat (readAvailable r)"
      using 3(1-3) by (auto simp: word_le_nat_alt unat_ucast_up)
    then show ?thesis using avail len by simp
  qed
qed

declare parse_loop.simps [simp del]

text \<open>
  One wake-up of the receiving thread with data on the socket. \<open>last_len\<close> is declared in the body of
  the outer loop, so each wake-up starts without it; what does not fit into the ring is dropped.
\<close>

definition recv_wakeup ::
    "'d irq_handler \<Rightarrow> u8 list \<Rightarrow> u8 ringbuffer \<times> mcmq_link \<times> 'd \<Rightarrow>
     fault + (u8 ringbuffer \<times> mcmq_link \<times> 'd)" where
  "recv_wakeup irq chunk = (\<lambda>(r, st).
     parse_loop irq (snd (writeBuff chunk (of_nat (length chunk)) r)) None st)"

section \<open>A blocking read\<close>

text \<open>
  \<open>read_from_device\<close> as its caller sees it: the receiving thread works through the chunks that
  arrive from the device until the request is completed. If they run out first, the caller waits
  for ever.
\<close>

fun read_wait ::
    "'d irq_handler \<Rightarrow> u32 \<Rightarrow> u8 list list \<Rightarrow> u8 ringbuffer \<times> mcmq_link \<times> 'd \<Rightarrow>
     fault + ((u8 list \<times> size_t) \<times> u8 list list \<times> u8 ringbuffer \<times> mcmq_link \<times> 'd)" where
  "read_wait irq rid chunks (r, l, d) =
     (case read_end rid l of
        Some (res, l') \<Rightarrow> Inr (res, chunks, r, l', d)
      | None \<Rightarrow>
          (case chunks of
             [] \<Rightarrow> Inl Diverges
           | c # cs \<Rightarrow> bindE (recv_wakeup irq c (r, l, d)) (read_wait irq rid cs)))"

definition mcmq_read ::
    "send_call \<Rightarrow> 'd irq_handler \<Rightarrow> u64 \<Rightarrow> u8 list \<Rightarrow> u8 list list \<times> u8 ringbuffer \<times> mcmq_link \<times> 'd \<Rightarrow>
     fault + ((u8 list \<times> size_t) \<times> u8 list list \<times> u8 ringbuffer \<times> mcmq_link \<times> 'd)" where
  "mcmq_read tx irq addr raw = (\<lambda>(cs, r, l, d).
     bindE (read_begin tx addr raw l) (\<lambda>(rid, l'). read_wait irq rid cs (r, l', d)))"

text \<open>
  The virtual functions of this link. \<open>raw\<close> is what the caller's variable holds before the call.
\<close>

definition mcmq_ops ::
    "(nat \<Rightarrow> u8 list) \<Rightarrow> send_call \<Rightarrow> 'd irq_handler \<Rightarrow>
     (u8 list list \<times> u8 ringbuffer \<times> mcmq_link \<times> 'd) pcie_ops" where
  "mcmq_ops raw tx irq =
     \<lparr>read_from_device = (\<lambda>addr n st.
        bindE (mcmq_read tx irq addr (raw (unat n)) st) (\<lambda>((buf, len), st'). Inr (buf, st'))),
      write_to_device = (\<lambda>addr buf (cs, r, l, d).
        bindE (mcmq_write tx addr buf l) (\<lambda>l'. Inr (cs, r, l', d)))\<rparr>"

section \<open>Messages of the stream\<close>

text \<open>A message on the wire: its length in network byte order, then its payload.\<close>

definition frame :: "u8 list \<Rightarrow> u8 list" where
  "frame p = rev (le_bytes 2 (of_nat (length p) :: u16)) @ p"

definition frame_ok :: "u8 list \<Rightarrow> bool" where
  "frame_ok p \<longleftrightarrow> 1 \<le> length p \<and> length p < 65536"

lemma length_frame [simp]: "length (frame p) = 2 + length p"
  by (simp add: frame_def)

lemma frame_prefix:
  assumes "length p < 65536"
  shows "unat (ntohs (of_le (take 2 (frame p @ rest)))) = length p" "drop 2 (frame p @ rest) = p @ rest"
proof -
  have "take 2 (frame p @ rest) = le_bytes 2 (htons (of_nat (length p)))"
    by (simp add: frame_def le_bytes_htons)
  moreover have "of_le (le_bytes 2 (htons (of_nat (length p)))) = htons (of_nat (length p))" by simp
  ultimately show "unat (ntohs (of_le (take 2 (frame p @ rest)))) = length p"
    using assms by (simp add: unat_of_nat_lt)
  show "drop 2 (frame p @ rest) = p @ rest" by (simp add: frame_def)
qed

lemma parse_loop_stop: "length (rb_elems r) \<le> 2 \<Longrightarrow> parse_loop irq r None st = Inr (r, st)"
  by (subst parse_loop.simps) (simp add: word_less_nat_alt rbq.avail_elems del: length_rb_elems)

lemma parse_loop_frame:
  assumes "rb_elems r = frame p @ rest" "frame_ok p"
  obtains r' where "parse_loop irq r None st = bindE (dispatch irq p st) (parse_loop irq r' None)"
    "rb_elems r' = rest" "rb_ok r \<Longrightarrow> rb_ok r'" "rb_capacity r' = rb_capacity r"
proof -
  obtain bs1 r1 where r1: "readBuff 2 r = (bs1, r1)" by (cases "readBuff 2 r")
  define len where "len = ntohs (of_le bs1)"
  have p: "1 \<le> length p" "length p < 65536" using assms(2) by (simp_all add: frame_ok_def)
  have bs1: "bs1 = take 2 (frame p @ rest)" and el1: "rb_elems r1 = p @ rest"
    using rbq.get_elems [of 2 r] rbq.get_rest [of 2 r] r1 assms(1) frame_prefix(2) [OF p(2)] by simp_all
  have len: "unat len = length p" using frame_prefix(1) [OF p(2)] by (simp add: len_def bs1)
  obtain bs2 r2 where r2: "readBuff (ucast len) r1 = (bs2, r2)" by (cases "readBuff (ucast len) r1")
  have bs2: "bs2 = p" and el2: "rb_elems r2 = rest"
    using rbq.get_prefix [OF el1, of "ucast len"] r2 len by (simp_all add: unat_ucast_up)
  have "2 < readAvailable r"
    using rbq.avail_elems [of r] assms(1) p(1) by (cases p) (simp_all add: word_less_nat_alt)
  moreover have "\<not> readAvailable r1 < ucast len"
    using rbq.avail_elems [of r1] el1 len by (simp add: word_less_nat_alt unat_ucast_up)
  ultimately have "parse_loop irq r None st = bindE (dispatch irq p st) (parse_loop irq r2 None)"
    by (subst parse_loop.simps) (simp add: r1 r2 len_def [symmetric] bs2 len)
  then show thesis
    using el2 rbq.get_ok [of r 2] rbq.get_ok [of r1 "ucast len"] r1 r2
      rbq.get_capacity [of 2 r] rbq.get_capacity [of "ucast len" r1]
    by (intro that [of r2]) auto
qed

lemma parse_loop_frames:
  assumes "rb_elems r = concat (map frame ps) @ rest" "list_all frame_ok ps" "length rest \<le> 2" "rb_ok r"
  shows "\<exists>r'. parse_loop irq r None st = bindE (foldE (dispatch irq) ps st) (\<lambda>st'. Inr (r', st')) \<and>
    rb_elems r' = rest \<and> rb_ok r' \<and> rb_capacity r' = rb_capacity r"
  using assms
proof (induction ps arbitrary: r st)
  case Nil
  then show ?case by (auto simp: parse_loop_stop)
next
  case (Cons p ps)
  have el: "rb_elems r = frame p @ (concat (map frame ps) @ rest)" and p: "frame_ok p"
    using Cons.prems(1,2) by simp_all
  obtain r1 where r1: "parse_loop irq r None st = bindE (dispatch irq p st) (parse_loop irq r1 None)"
    "rb_elems r1 = concat (map frame ps) @ rest" "rb_ok r1" "rb_capacity r1 = rb_capacity r"
    using parse_loop_frame [OF el p] Cons.prems(4) by metis
  have ps: "list_all frame_ok ps" using Cons.prems(2) by simp
  show ?case
  proof (cases "dispatch irq p st")
    case (Inl e)
    obtain r2 where "rb_elems r2 = rest \<and> rb_ok r2 \<and> rb_capacity r2 = rb_capacity r1"
      using Cons.IH [OF r1(2) ps Cons.prems(3) r1(3), of st] by blast
    with Inl r1(1,4) show ?thesis by auto
  next
    case (Inr st1)
    then show ?thesis using Cons.IH [OF r1(2) ps Cons.prems(3) r1(3), of st1] r1(1,4) by simp
  qed
qed

text \<open>The bytes of a message: the upper half of the address is always zero.\<close>

lemma message_bytes_frame:
  assumes "length buf + 10 < 2 ^ 64"
  shows "message_bytes type addr buf =
    rev (le_bytes 2 (of_nat (10 + length buf) :: u16)) @ rev (le_bytes 2 (type_code type)) @
    [0, 0, 0, 0] @ rev (le_bytes 4 (ucast addr :: u32)) @ buf"
proof -
  have hi: "(ucast (push_bit 32 (ucast x :: u64) :: u64) :: u32) = 0" for x :: u32
    by (rule bit_word_eqI) (simp add: bit_simps)
  have lo: "(ucast (addr AND 0xffffffff) :: u32) = ucast addr"
  proof -
    have m: "(0xffffffff :: u64) = mask 32" by (simp add: mask_eq_exp_minus_1)
    show ?thesis unfolding m by (rule bit_word_eqI) (auto simp: bit_simps)
  qed
  have zero: "le_bytes 4 (0 :: u32) = [0, 0, 0, 0]" by (simp add: numeral_eq_Suc)
  have rep: "replicate (12 + length buf) (0 :: u8) =
      replicate 2 0 @ replicate 2 0 @ replicate 4 0 @ replicate 4 0 @ replicate (length buf) 0"
    by (simp add: replicate_add [symmetric])
  show ?thesis
    unfolding message_bytes_def Let_def hi lo zero le_bytes_htons le_bytes_htonl
    by (simp add: rep patch_def)
qed

lemma length_message_bytes: "length buf + 10 < 2 ^ 64 \<Longrightarrow> length (message_bytes type addr buf) = length buf + 12"
  by (simp add: message_bytes_frame)

lemma message_bytes_is_frame:
  assumes "length buf + 10 < 65536"
  shows "message_bytes type addr buf =
    frame (rev (le_bytes 2 (type_code type)) @ [0, 0, 0, 0] @ rev (le_bytes 4 (ucast addr :: u32)) @ buf)"
  using message_bytes_frame [of buf type addr] assms by (simp add: frame_def add.commute)

text \<open>
  C23: a sent message is one frame of the stream: its length, its type and the low 32 bits of the
  address in network byte order, the data unchanged. The upper 32 bits of the address are sent as
  zero, whatever they are. If the socket does not take the message whole, \<open>send_message\<close> throws.
\<close>

theorem send_message_frame:
  assumes "length buf + 10 < 65536"
  shows "send_message tx type addr buf l =
    (if tx (message_bytes type addr buf) = Some (length buf + 12)
     then Inr (l\<lparr>sent := sent l @ frame (rev (le_bytes 2 (type_code type)) @ [0, 0, 0, 0] @
            rev (le_bytes 4 (ucast addr :: u32)) @ buf)\<rparr>)
     else Inl (RuntimeError ''Failed to send PCIe message''))"
  using length_message_bytes [of buf type addr] message_bytes_is_frame [OF assms, of type addr] assms
  by (auto simp: send_message_def send_all_def split: option.splits)

definition blank_link :: mcmq_link where
  "blank_link = \<lparr>sent = [], read_id_counter = 0, read_requests = (\<lambda>i. None), result_buf = [],
     result_len = 0, result_ready = False, link_ready = False\<rparr>"

theorem send_message_frame_witness:
  "send_message (\<lambda>m. Some (length m)) WRITE_REQ 0xAB00001008 [7, 0, 0, 0] blank_link =
     Inr (blank_link\<lparr>sent := [0, 14, 0, 2, 0, 0, 0, 0, 0, 0, 0x10, 0x08, 7, 0, 0, 0]\<rparr>)"
proof -
  have "frame (rev (le_bytes 2 (type_code WRITE_REQ)) @ [0, 0, 0, 0] @
      rev (le_bytes 4 (ucast (0xAB00001008 :: u64) :: u32)) @ [7, 0, 0, 0]) =
      [0, 14, 0, 2, 0, 0, 0, 0, 0, 0, 0x10, 0x08, 7, 0, 0, 0]"
    by code_simp
  moreover have "length (message_bytes WRITE_REQ 0xAB00001008 [7, 0, 0, 0]) = length [7, 0, 0, 0 :: u8] + 12"
    by (rule length_message_bytes) simp
  ultimately show ?thesis
    using send_message_frame [of "[7, 0, 0, 0]" "\<lambda>m. Some (length m)" WRITE_REQ "0xAB00001008" blank_link]
    by (simp add: blank_link_def)
qed

lemma recv_dispatches_frames_raw:
  assumes "rb_ok r" "length (rb_elems r) + length chunk \<le> rb_capacity r" "length chunk < 2 ^ 64"
    and "rb_elems r @ chunk = concat (map frame ps) @ rest" "length rest \<le> 2" "list_all frame_ok ps"
  shows "\<exists>r'. recv_wakeup irq chunk (r, st) = bindE (foldE (dispatch irq) ps st) (\<lambda>st'. Inr (r', st')) \<and>
    rb_elems r' = rest \<and> rb_ok r' \<and> rb_capacity r' = rb_capacity r"
proof -
  define r1 where "r1 = snd (writeBuff chunk (of_nat (length chunk)) r)"
  have n: "unat (of_nat (length chunk) :: size_t) = length chunk" using assms(3) by (simp add: unat_of_nat_lt)
  have r1: "rb_elems r1 = concat (map frame ps) @ rest" "rb_ok r1" "rb_capacity r1 = rb_capacity r"
    using rbq.put_fits [OF assms(1) n assms(2)] assms(4) by (simp_all add: r1_def)
  from parse_loop_frames [OF r1(1) assms(6,5) r1(2), of irq st] r1(3) show ?thesis
    by (simp add: recv_wakeup_def r1_def)
qed

text \<open>
  If what is left in the ring and the chunk that arrives make up whole messages and at most two
  bytes more, one wake-up handles exactly these messages, in order, each once, and keeps the
  bytes behind them in the ring; an error in handling a message ends it. The loop always ends.
\<close>

theorem recv_dispatches_frames:
  assumes "rb_ok r" "length (rb_elems r) + length chunk \<le> rb_capacity r" "length chunk < 2 ^ 64"
    and "rb_elems r @ chunk = concat (map frame ps) @ rest" "length rest \<le> 2" "list_all frame_ok ps"
  shows "\<exists>r'. recv_wakeup irq chunk (r, st) = bindE (foldE (dispatch irq) ps st) (\<lambda>st'. Inr (r', st')) \<and>
    rb_elems r' = rest \<and> rb_ok r' \<and> rb_capacity r' = rb_capacity r"
  using assms by (rule recv_dispatches_frames_raw)

definition empty_ring :: "u8 ringbuffer" where
  "empty_ring = Ringbuffer (replicate 16384 0)"

lemma empty_ring_ok:
  "rb_ok empty_ring" "rb_elems empty_ring = []" "rb_capacity empty_ring = 16384" "rb_count empty_ring = 0"
proof -
  have "length (data_buff empty_ring) = 2 ^ 14" by (simp add: empty_ring_def Ringbuffer_def)
  then have "rb_size_ok empty_ring" unfolding rb_size_ok_def by (intro exI [of _ 14]) simp
  then show "rb_ok empty_ring" by (simp add: rb_ok_def rb_count_def empty_ring_def Ringbuffer_def)
qed (simp_all add: rb_elems_def rb_count_def rb_capacity_def empty_ring_def Ringbuffer_def)

lemma dispatch_ready:
  "dispatch irq [0, 5] (l, d) = Inr (l\<lparr>link_ready := True\<rparr>, d)"
proof -
  have "ntohs (of_le [0, 5]) = 5" by code_simp
  then show ?thesis by (simp add: dispatch_def)
qed

lemma frame_ready: "frame [0, 5] = [0, 2, 0, 5]"
  by code_simp

theorem recv_dispatches_frames_witness:
  "\<exists>r'. recv_wakeup None [0, 2, 0, 5, 0] (empty_ring, blank_link, ()) =
     Inr (r', blank_link\<lparr>link_ready := True\<rparr>, ()) \<and> rb_elems r' = [0]"
proof -
  have "rb_elems empty_ring @ [0, 2, 0, 5, 0] = concat (map frame [[0, 5]]) @ [0]"
    by (simp add: empty_ring_ok frame_ready)
  from recv_dispatches_frames [OF empty_ring_ok(1) _ _ this, of None "(blank_link, ())"]
  show ?thesis by (auto simp: empty_ring_ok frame_ok_def dispatch_ready)
qed

text \<open>
  C22: a message whose length prefix arrives in one chunk and whose end in the next is not handled:
  the prefix has been taken out of the ring and its value is forgotten, so that the second wake-up
  reads the message itself as if a new frame began there. The stream is out of step.
\<close>

theorem recv_split_message_lost:
  assumes "rb_ok r" "rb_elems r = []" "2 + length p \<le> rb_capacity r" "length p < 65536"
    and "3 \<le> k" "k < 2 + length p"
  shows "\<exists>r2. bindE (recv_wakeup irq (take k (frame p)) (r, st)) (recv_wakeup irq (drop k (frame p))) =
    parse_loop irq r2 None st \<and> rb_elems r2 = p"
proof -
  define r1 where "r1 = snd (writeBuff (take k (frame p)) (of_nat (length (take k (frame p)))) r)"
  have small: "length p < 2 ^ 16" using assms(4) by simp
  have k: "length (take k (frame p)) = k" using assms(6) by simp
  have un: "unat (of_nat k :: size_t) = k" using assms(6) small by (intro unat_of_nat_lt) simp
  have r1: "rb_elems r1 = take k (frame p)" "rb_ok r1" "rb_capacity r1 = rb_capacity r"
    using rbq.put_fits [OF assms(1), of "of_nat k" "take k (frame p)"] assms(2,3,6) un k
    by (simp_all add: r1_def)
  obtain bs r1' where read: "readBuff 2 r1 = (bs, r1')" by (cases "readBuff 2 r1")
  define len where "len = ntohs (of_le bs)"
  have bs: "bs = take 2 (frame p @ [])" and rest: "rb_elems r1' = take (k - 2) p"
    using rbq.get_elems [of 2 r1] rbq.get_rest [of 2 r1] read r1(1) assms(5)
    by (simp_all add: frame_def take_append drop_append min_def drop_take)
  have len: "unat len = length p" using frame_prefix(1) [OF assms(4), of "[]"] by (simp add: len_def bs)
  have ok': "rb_ok r1'" "rb_capacity r1' = rb_capacity r"
    using rbq.get_ok [OF r1(2), of 2] rbq.get_capacity [of 2 r1] r1(3) read by simp_all
  have avail': "unat (readAvailable r1') = k - 2"
    using rbq.avail_elems [of r1'] rest assms(6) by simp
  have "readAvailable r1 > 2"
    using rbq.avail_elems [of r1] r1(1) k assms(5) by (simp add: word_less_nat_alt)
  moreover have "readAvailable r1' < ucast len"
    using avail' len assms(5,6) by (simp add: word_less_nat_alt unat_ucast_up)
  ultimately have "parse_loop irq r1 None st = parse_loop irq r1' (Some len) st"
    by (subst parse_loop.simps) (simp add: read len_def [symmetric])
  then have "recv_wakeup irq (take k (frame p)) (r, st) = parse_loop irq r1' (Some len) st"
    by (simp add: recv_wakeup_def r1_def)
  also have "\<not> ucast len \<le> readAvailable r1'" using \<open>readAvailable r1' < ucast len\<close> by (simp add: not_le)
  then have "parse_loop irq r1' (Some len) st = Inr (r1', st)" by (subst parse_loop.simps) simp
  finally have "bindE (recv_wakeup irq (take k (frame p)) (r, st)) (recv_wakeup irq (drop k (frame p))) =
      recv_wakeup irq (drop k (frame p)) (r1', st)"
    by simp
  moreover have "rb_elems (snd (writeBuff (drop k (frame p)) (of_nat (length (drop k (frame p)))) r1')) = p"
  proof -
    have dk: "drop k (frame p) = drop (k - 2) p" using assms(5) by (simp add: frame_def)
    have "unat (of_nat (length (drop (k - 2) p)) :: size_t) = length (drop (k - 2) p)"
      using small by (intro unat_of_nat_lt) simp
    from rbq.put_fits [OF ok'(1) this] ok'(2) rest assms(3,6) show ?thesis unfolding dk by simp
  qed
  ultimately show ?thesis by (auto simp: recv_wakeup_def)
qed

theorem recv_split_message_lost_witness:
  "\<exists>r2. bindE (recv_wakeup None [0, 2, 0] (empty_ring, blank_link, ())) (recv_wakeup None [5]) =
     Inr (r2, blank_link, ()) \<and> rb_elems r2 = [0, 5] \<and> \<not> link_ready blank_link"
proof -
  have f: "take 3 (frame [0, 5]) = [0, 2, 0]" "drop 3 (frame [0, 5]) = [5]"
    by (simp_all add: frame_ready)
  from recv_split_message_lost [OF empty_ring_ok(1,2), of "[0, 5]" 3 None "(blank_link, ())"]
  obtain r2 where "bindE (recv_wakeup None [0, 2, 0] (empty_ring, blank_link, ())) (recv_wakeup None [5]) =
      parse_loop None r2 None (blank_link, ())" "rb_elems r2 = [0, 5]"
    by (auto simp: empty_ring_ok f)
  then show ?thesis by (simp add: parse_loop_stop blank_link_def)
qed

section \<open>Register reads\<close>

text \<open>The answer of the device to a read request: the identifier comes back in host order.\<close>

definition completion :: "u32 \<Rightarrow> u8 list \<Rightarrow> u8 list" where
  "completion rid data = rev (le_bytes 2 (type_code READ_COMP)) @ le_bytes 4 rid @ data"

lemma dispatch_completion:
  "dispatch irq (completion rid data) (l, d) = Inr (complete_read_request rid data l, d)"
proof -
  have t: "take 2 (completion rid data) = le_bytes 2 (htons (type_code READ_COMP))"
    by (simp add: completion_def le_bytes_htons)
  have b: "drop 2 (completion rid data) = le_bytes 4 rid @ data" by (simp add: completion_def)
  show ?thesis unfolding dispatch_def t b by (simp add: completion_def)
qed

text \<open>
  C20: a register read through the link returns the bytes of the device's answer to it: the request
  that goes out carries the identifier of the table entry the answer is matched with, the entry
  is gone afterwards, other pending requests are untouched, and the caller does not wait for ever.
\<close>

theorem mcmq_read_answered:
  assumes "rb_ok r" "rb_elems r = []" "length raw + 8 \<le> rb_capacity r" "length raw < 2 ^ 15"
    and "tx (message_bytes READ_REQ addr (le_bytes 4 (read_id_counter l))) = Some 16"
    and "length data = length raw"
  shows "\<exists>r' l'. mcmq_read tx irq addr raw (frame (completion (read_id_counter l) data) # cs, r, l, d) =
      Inr ((data, of_nat (length data)), cs, r', l', d) \<and>
    rb_ok r' \<and> rb_elems r' = [] \<and> rb_capacity r' = rb_capacity r \<and>
    sent l' = sent l @ message_bytes READ_REQ addr (le_bytes 4 (read_id_counter l)) \<and>
    read_requests l' = (read_requests l)(read_id_counter l := None)"
proof -
  let ?rid = "read_id_counter l" let ?chunk = "frame (completion ?rid data)"
  define l1 where "l1 = snd (setup_read_request raw l)"
  have begun: "setup_read_request raw l = (?rid, l1)" by (simp add: l1_def setup_read_request_def Let_def)
  define l2 where "l2 = l1\<lparr>sent := sent l1 @ message_bytes READ_REQ addr (le_bytes 4 ?rid)\<rparr>"
  have "read_begin tx addr raw l = Inr (?rid, l2)"
    using assms(5) length_message_bytes [of "le_bytes 4 ?rid" READ_REQ addr]
    by (simp add: read_begin_def begun send_message_def send_all_def l2_def)
  then have start: "mcmq_read tx irq addr raw (?chunk # cs, r, l, d) = read_wait irq ?rid (?chunk # cs) (r, l2, d)"
    by (simp add: mcmq_read_def)
  obtain q where q: "read_requests l2 ?rid = Some q" "rr_buf q = raw" "rr_buflen q = of_nat (length raw)"
    "\<not> rr_completed q"
    by (simp add: l2_def l1_def setup_read_request_def Let_def split: option.splits)
  have entries: "(read_requests l2)(?rid := None) = (read_requests l)(?rid := None)"
    by (simp add: l2_def l1_def setup_read_request_def Let_def)
  define l3 where "l3 = complete_read_request ?rid data l2"
  have fits: "length (rb_elems r) + length ?chunk \<le> rb_capacity r" "length ?chunk < 2 ^ 64"
    "frame_ok (completion ?rid data)"
    using assms(2,3,4,6) by (simp_all add: completion_def frame_ok_def)
  from recv_dispatches_frames_raw [OF assms(1) fits(1,2), of "[completion ?rid data]" "[]" irq "(l2, d)"]
  obtain r' where wake: "recv_wakeup irq ?chunk (r, l2, d) = Inr (r', l3, d)" "rb_elems r' = []" "rb_ok r'"
    "rb_capacity r' = rb_capacity r"
    using assms(2) fits(3) by (auto simp: dispatch_completion l3_def)
  have len: "unat (of_nat (length raw) :: size_t) = length raw" using assms(4) by (intro unat_of_nat_lt) simp
  have "read_requests l3 = (read_requests l2)(?rid \<mapsto>
      q\<lparr>rr_buf := data, rr_len := of_nat (length data), rr_completed := True\<rparr>)" "sent l3 = sent l2"
    using q assms(6) len by (simp_all add: l3_def complete_read_request_def Let_def patch_def)
  then have "read_end ?rid l3 = Some ((data, of_nat (length data)),
      l3\<lparr>read_requests := (read_requests l)(?rid := None)\<rparr>)" "sent l3 = sent l2"
    using entries by (simp_all add: read_end_def)
  moreover have "read_end ?rid l2 = None" using q by (simp add: read_end_def)
  ultimately show ?thesis
    using wake unfolding start
    by (simp add: l2_def) (simp add: l1_def setup_read_request_def Let_def)
qed

theorem mcmq_read_answered_witness:
  "\<exists>st. readl (mcmq_ops (\<lambda>n. replicate n 0) (\<lambda>m. Some (length m)) None) 0x1c
      ([frame (completion 0 [1, 0, 0, 0])], empty_ring, blank_link, ()) = Inr (1, st)"
proof -
  have "length (message_bytes READ_REQ 0x1c (le_bytes 4 (0 :: u32))) = 16"
    using length_message_bytes [of "le_bytes 4 (0 :: u32)" READ_REQ "0x1c"] by simp
  moreover have "(of_le [1, 0, 0, 0] :: u32) = 1" by code_simp
  moreover have "replicate 4 (0 :: u8) = [0, 0, 0, 0]" by code_simp
  ultimately show ?thesis
    using mcmq_read_answered [OF empty_ring_ok(1,2), of "[0, 0, 0, 0]" "\<lambda>m. Some (length m)" "0x1c"
        blank_link "[1, 0, 0, 0]" None "[]" "()"]
    by (auto simp: readl_def mcmq_ops_def empty_ring_ok blank_link_def)
qed

end
