(* ===== verification/PcieThread.thy ===== *)
theory PcieThread
  imports PcieLink
begin

text \<open>
  The life of a link's receiving thread: \<open>PCIeLink::start\<close> and \<open>PCIeLink::stop\<close> of
  \<^verbatim>\<open>pcie_link.cpp\<close> and the loop around \<open>epoll_wait\<close> that both links' \<open>recv_thread\<close>
  have. The thread that starts and stops the link and the receiving thread interleave freely; what
  the receiving thread does with an event is left to theories PcieMcmq and PcieVfio.
\<close>

section \<open>State and operations\<close>

text \<open>
  \<open>AtTest\<close> is the test of \<open>stopped\<close> at the head of the loop, \<open>AtWait\<close> the call of \<open>epoll_wait\<close>,
  \<open>Woken n\<close> its return with \<open>n\<close> events (two at most), before the second test, and \<open>Handling n\<close> the
  inner loop with \<open>n\<close> events to go. \<open>Gone\<close> is a thread object without a thread.
\<close>

datatype receiver = Gone | AtTest | AtWait | Woken nat | Handling nat | Ended

datatype owner = Down | Up | StopStored | StopWritten

record link_thread =
  event_fd :: "nat option"
  event_count :: u64
  stopped :: bool
  receiver :: receiver
  owner :: owner

definition new_link_thread :: link_thread where
  "new_link_thread = \<lparr>event_fd = None, event_count = 0, stopped = False, receiver = Gone, owner = Down\<rparr>"

text \<open>
  \<open>start\<close>, with the descriptor that \<open>eventfd\<close> returns. Assigning to a thread object that still has a
  thread terminates the program.
\<close>

definition link_start :: "nat option \<Rightarrow> link_thread \<Rightarrow> fault + link_thread" where
  "link_start efd t =
     (case efd of
        None \<Rightarrow> Inl AssertFailed
      | Some fd \<Rightarrow>
          if receiver t \<noteq> Gone then Inl Aborted
          else Inr (t\<lparr>event_fd := Some fd, event_count := 0, receiver := AtTest\<rparr>))"

text \<open>
  \<open>stop\<close> in its three steps: the store, the write (which fails without a descriptor, and nobody
  looks), the join, which throws without a thread and waits for its end, with the close.
\<close>

definition stop_store :: "link_thread \<Rightarrow> link_thread" where
  "stop_store t = t\<lparr>stopped := True\<rparr>"

definition stop_write :: "link_thread \<Rightarrow> link_thread" where
  "stop_write t = (if event_fd t = None then t else t\<lparr>event_count := event_count t + 1\<rparr>)"

definition stop_join :: "link_thread \<Rightarrow> (fault + link_thread) option" where
  "stop_join t =
     (if receiver t = Gone then Some (Inl (RuntimeError ''Invalid argument''))
      else if receiver t = Ended then Some (Inr (t\<lparr>receiver := Gone, event_fd := None\<rparr>))
      else None)"

text \<open>
  What \<open>recv_thread\<close> does before its loop: it makes an epoll instance and adds its descriptors; the
  answers of the system calls are asserted.
\<close>

definition epoll_setup :: "int \<Rightarrow> int list \<Rightarrow> bool" where
  "epoll_setup epfd statuses \<longleftrightarrow> 0 \<le> epfd \<and> list_all (\<lambda>status. status = 0) statuses"

section \<open>Steps of the two threads\<close>

text \<open>
  A step of the owner, of the receiving thread, or of the receiving thread by grace of the outside
  world: an event on another descriptor, an interrupted call, an error of \<open>epoll_wait\<close>. The event
  descriptor is never read, so it stays ready once it has been written. The handlers return.
\<close>

datatype mover = Owner | Receiver | Outside

inductive link_step :: "mover \<Rightarrow> link_thread \<Rightarrow> link_thread \<Rightarrow> bool" where
  start_thread: "owner t = Down \<Longrightarrow> link_start (Some fd) t = Inr t' \<Longrightarrow> link_step Owner t (t'\<lparr>owner := Up\<rparr>)"
| store: "owner t = Up \<Longrightarrow> link_step Owner t ((stop_store t)\<lparr>owner := StopStored\<rparr>)"
| write_event: "owner t = StopStored \<Longrightarrow> link_step Owner t ((stop_write t)\<lparr>owner := StopWritten\<rparr>)"
| join: "owner t = StopWritten \<Longrightarrow> stop_join t = Some (Inr t') \<Longrightarrow> link_step Owner t (t'\<lparr>owner := Down\<rparr>)"
| test: "receiver t = AtTest \<Longrightarrow>
    link_step Receiver t (t\<lparr>receiver := (if stopped t then Ended else AtWait)\<rparr>)"
| own_event: "receiver t = AtWait \<Longrightarrow> event_fd t \<noteq> None \<Longrightarrow> 0 < event_count t \<Longrightarrow> n \<in> {1, 2} \<Longrightarrow>
    link_step Receiver t (t\<lparr>receiver := Woken n\<rparr>)"
| other_event: "receiver t = AtWait \<Longrightarrow> n \<in> {1, 2} \<Longrightarrow> link_step Outside t (t\<lparr>receiver := Woken n\<rparr>)"
| interrupted: "receiver t = AtWait \<Longrightarrow> link_step Outside t (t\<lparr>receiver := AtTest\<rparr>)"
| epoll_error: "receiver t = AtWait \<Longrightarrow> link_step Outside t (t\<lparr>receiver := Ended\<rparr>)"
| retest: "receiver t = Woken n \<Longrightarrow>
    link_step Receiver t (t\<lparr>receiver := (if stopped t then Ended else Handling n)\<rparr>)"
| handle: "receiver t = Handling (Suc n) \<Longrightarrow> link_step Receiver t (t\<lparr>receiver := Handling n\<rparr>)"
| round: "receiver t = Handling 0 \<Longrightarrow> link_step Receiver t (t\<lparr>receiver := AtTest\<rparr>)"

inductive_cases link_stepE: "link_step m t t'"

inductive link_reach :: "link_thread \<Rightarrow> bool" where
  start: "link_reach new_link_thread"
| step: "link_reach t \<Longrightarrow> link_step m t t' \<Longrightarrow> link_reach t'"

definition link_inv :: "link_thread \<Rightarrow> bool" where
  "link_inv t \<longleftrightarrow>
     (owner t = Down \<longleftrightarrow> receiver t = Gone) \<and> (receiver t = Gone \<longleftrightarrow> event_fd t = None) \<and>
     (owner t \<in> {StopStored, StopWritten} \<longrightarrow> stopped t) \<and> (owner t = StopWritten \<longrightarrow> event_count t = 1) \<and>
     (owner t \<in> {Up, StopStored} \<longrightarrow> event_count t = 0) \<and>
     (\<forall>n. receiver t \<in> {Woken n, Handling n} \<longrightarrow> n \<le> 2)"

lemma link_step_inv: "link_step m t t' \<Longrightarrow> link_inv t \<Longrightarrow> link_inv t'"
  by (erule link_stepE)
    (auto simp: link_inv_def link_start_def stop_store_def stop_write_def stop_join_def split: if_splits)

lemma link_reach_inv: "link_reach t \<Longrightarrow> link_inv t"
proof (induction rule: link_reach.induct)
  case start
  then show ?case by (simp add: link_inv_def new_link_thread_def)
next
  case (step t m t')
  then show ?case by (blast intro: link_step_inv)
qed

section \<open>Stopping\<close>

text \<open>A step while \<open>stop\<close> is under way, after its store; what is left to do for both threads.\<close>

definition stop_step :: "link_thread \<Rightarrow> link_thread \<Rightarrow> bool" where
  "stop_step t t' \<longleftrightarrow> owner t \<in> {StopStored, StopWritten} \<and> (\<exists>m. link_step m t t')"

fun receiver_left :: "receiver \<Rightarrow> nat" where
  "receiver_left (Handling n) = n + 2"
| "receiver_left AtWait = 2"
| "receiver_left AtTest = 1"
| "receiver_left (Woken n) = 1"
| "receiver_left _ = 0"

fun owner_left :: "owner \<Rightarrow> nat" where
  "owner_left StopStored = 2"
| "owner_left StopWritten = 1"
| "owner_left _ = 0"

definition stop_left :: "link_thread \<Rightarrow> nat" where
  "stop_left t = receiver_left (receiver t) + owner_left (owner t)"

lemma stop_step_left:
  assumes "stop_step t t'" "link_inv t"
  shows "stop_left t' < stop_left t"
proof -
  obtain m where m: "link_step m t t'" and o: "owner t \<in> {StopStored, StopWritten}"
    using assms(1) by (auto simp: stop_step_def)
  from o assms(2) have "stopped t" by (auto simp: link_inv_def)
  with m o show ?thesis
    by (elim link_stepE)
      (auto simp: stop_left_def stop_store_def stop_write_def stop_join_def split: if_splits)
qed

lemma stop_run_left:
  assumes "(stop_step ^^ n) t t'" "link_inv t"
    and "owner t \<in> {StopStored, StopWritten}"
  shows "stop_left t' + n \<le> stop_left t \<and> link_inv t' \<and> stopped t' \<and> owner t' \<noteq> Up"
  using assms
proof (induction n arbitrary: t')
  case 0
  then show ?case by (auto simp: link_inv_def)
next
  case (Suc n)
  then obtain u where u: "(stop_step ^^ n) t u" "stop_step u t'" by auto
  from Suc.IH [OF u(1)] Suc.prems have *: "stop_left u + n \<le> stop_left t" "link_inv u" "stopped u" by simp_all
  have "stopped t' \<and> owner t' \<noteq> Up" using u(2) *(3)
    by (auto simp: stop_step_def stop_store_def stop_write_def stop_join_def elim!: link_stepE split: if_splits)
  with * stop_step_left [OF u(2) *(2)] u(2) show ?case by (auto simp: stop_step_def intro: link_step_inv)
qed

lemma stop_never_stuck:
  assumes "link_inv t" "owner t \<in> {StopStored, StopWritten}"
  shows "\<exists>m t'. m \<noteq> Outside \<and> link_step m t t'"
proof (cases "owner t = StopStored")
  case True
  then show ?thesis using write_event by blast
next
  case False
  with assms have own: "owner t = StopWritten" "0 < event_count t" "event_fd t \<noteq> None" "receiver t \<noteq> Gone"
    by (auto simp: link_inv_def)
  show ?thesis
  proof (cases "receiver t")
    case AtWait
    with own own_event [of t 1] show ?thesis by blast
  next
    case (Handling n)
    then show ?thesis by (cases n) (blast intro: handle round)+
  next
    case Ended
    with own join [of t] show ?thesis by (simp add: stop_join_def) blast
  qed (use own in \<open>(blast intro: test retest)+\<close>)
qed

lemma stop_left_bound: "link_inv t \<Longrightarrow> owner t \<in> {StopStored, StopWritten} \<Longrightarrow> stop_left t \<le> 6"
  by (cases "receiver t") (auto simp: stop_left_def link_inv_def)

text \<open>Once stopped, a link that is started again handles nothing: \<open>stopped\<close> is never reset.\<close>

definition deaf :: "link_thread \<Rightarrow> bool" where
  "deaf t \<longleftrightarrow> stopped t \<and> receiver t \<in> {Gone, AtTest, Ended}"

lemma deaf_step: "deaf t \<Longrightarrow> link_step m t t' \<Longrightarrow> deaf t'"
  by (erule link_stepE)
    (auto simp: deaf_def link_start_def stop_store_def stop_write_def stop_join_def split: if_splits)

lemma deaf_run: "(\<lambda>t t'. \<exists>m. link_step m t t')\<^sup>*\<^sup>* t t' \<Longrightarrow> deaf t \<Longrightarrow> deaf t'"
  by (induction rule: rtranclp_induct) (blast intro: deaf_step)+

text \<open>
  C27: \<open>stop\<close> always returns, at any point of the receiving thread's loop and without an event from
  outside: from its store on the two threads make at most six steps, they cannot get stuck before it
  has returned, and then the thread is gone and its descriptor closed. While the thread runs its
  descriptor is open. A link that is started again after that never handles an event.
\<close>

theorem link_stop_returns:
  assumes "link_reach t" "owner t \<in> {StopStored, StopWritten}" "(stop_step ^^ n) t t'"
  shows "n \<le> 6 \<and>
    (owner t' \<in> {StopStored, StopWritten} \<longrightarrow> event_fd t' \<noteq> None \<and> (\<exists>m u. m \<noteq> Outside \<and> link_step m t' u)) \<and>
    (owner t' \<notin> {StopStored, StopWritten} \<longrightarrow> owner t' = Down \<and> receiver t' = Gone \<and> event_fd t' = None \<and>
       (\<forall>u. (\<lambda>t t'. \<exists>m. link_step m t t')\<^sup>*\<^sup>* t' u \<longrightarrow> receiver u \<in> {Gone, AtTest, Ended}))"
proof (intro conjI impI)
  note inv = link_reach_inv [OF assms(1)]
  note run = stop_run_left [OF assms(3) inv assms(2)]
  show "n \<le> 6" using run stop_left_bound [OF inv assms(2)] by simp
  show "event_fd t' \<noteq> None" if "owner t' \<in> {StopStored, StopWritten}" using run that by (auto simp: link_inv_def)
  show "\<exists>m u. m \<noteq> Outside \<and> link_step m t' u" if "owner t' \<in> {StopStored, StopWritten}"
    using run that stop_never_stuck by blast
  assume "owner t' \<notin> {StopStored, StopWritten}"
  with run show down: "owner t' = Down" by (cases "owner t'") auto
  with run show gone: "receiver t' = Gone" "event_fd t' = None" by (auto simp: link_inv_def)
  have "deaf t'" using run gone by (simp add: deaf_def)
  then show "\<forall>u. (\<lambda>t t'. \<exists>m. link_step m t t')\<^sup>*\<^sup>* t' u \<longrightarrow> receiver u \<in> {Gone, AtTest, Ended}"
    using deaf_run by (auto simp: deaf_def)
qed

text \<open>The thread waits for events when \<open>stop\<close> begins.\<close>

definition waiting_link :: link_thread where
  "waiting_link = \<lparr>event_fd = Some 7, event_count = 0, stopped = True, receiver = AtWait, owner = StopStored\<rparr>"

lemma waiting_link_reach: "link_reach waiting_link"
proof -
  have "link_reach \<lparr>event_fd = Some 7, event_count = 0, stopped = False, receiver = AtTest, owner = Up\<rparr>"
    using link_reach.step [OF start start_thread [of new_link_thread 7]]
    by (simp add: new_link_thread_def link_start_def)
  from link_reach.step [OF this test]
  have "link_reach \<lparr>event_fd = Some 7, event_count = 0, stopped = False, receiver = AtWait, owner = Up\<rparr>" by simp
  from link_reach.step [OF this store] show ?thesis by (simp add: stop_store_def waiting_link_def)
qed

theorem link_stop_returns_witness:
  "\<exists>m u. m \<noteq> Outside \<and> link_step m waiting_link u"
  using link_stop_returns [OF waiting_link_reach, of 0 waiting_link]
  by (simp add: waiting_link_def)

end
