(* ===== verification/McmqThread.thy ===== *)
theory McmqThread
  imports PcieMcmq PcieThread
begin

text \<open>
  \<^verbatim>\<open>pcie_link_mcmq.cpp\<close>, continued: opening the socket, with the answers of the system
  calls as a parameter, and the receiving thread as a whole, over what \<open>epoll_wait\<close> and \<open>recv\<close>
  return. When its loop goes round and when it ends is the subject of theory PcieThread.
\<close>

section \<open>Opening the socket\<close>

text \<open>What \<open>socket\<close>, \<open>bind\<close>, \<open>listen\<close> and \<open>accept\<close> return.\<close>

record vsock_calls =
  socket_fd :: int
  bind_status :: int
  listen_status :: int
  accepted_fd :: int

record mcmq_socket =
  sock_fd :: int
  peer_fd :: int

definition new_mcmq_socket :: mcmq_socket where
  "new_mcmq_socket = \<lparr>sock_fd = -1, peer_fd = -1\<rparr>"

definition mcmq_init :: "vsock_calls \<Rightarrow> mcmq_socket \<Rightarrow> bool \<times> mcmq_socket" where
  "mcmq_init s k =
     (if sock_fd k \<noteq> -1 then (True, k)
      else if bind_status s \<noteq> 0 then (False, k)
      else if listen_status s \<noteq> 0 then (False, k)
      else if accepted_fd s < 0 then (False, k)
      else (True, k\<lparr>sock_fd := socket_fd s, peer_fd := accepted_fd s\<rparr>))"

text \<open>
  The first successful call opens the link, a failed one leaves it closed, and a further call does
  nothing, whatever the system would answer. The descriptor of \<open>socket\<close> is not looked at: \<open>bind\<close>
  refuses a bad one.
\<close>

lemma mcmq_init_opens:
  assumes "bind_status s = 0 \<Longrightarrow> 0 \<le> socket_fd s" "mcmq_init s new_mcmq_socket = (ok, k)"
  shows "ok \<longleftrightarrow> 0 \<le> peer_fd k" "ok \<Longrightarrow> mcmq_init s' k = (True, k)" "\<not> ok \<Longrightarrow> k = new_mcmq_socket"
  using assms by (auto simp: mcmq_init_def new_mcmq_socket_def split: if_splits)

section \<open>The receiving thread\<close>

text \<open>
  What one call of \<open>epoll_wait\<close> leads to: an interrupted call, an error, or events. Of the two
  descriptors only the socket matters to the loop body; \<open>halt\<close> is the value of \<open>stopped\<close> after the
  call, and the last component what \<open>recv\<close> returns if the socket is ready: up to 4096 bytes,
  an interruption, or an error, which leaves the inner loop only. The list ends where the test at the
  head of the loop finds \<open>stopped\<close> set.
\<close>

datatype received = Chunk "u8 list" | RecvInterrupted | RecvError

datatype mcmq_wakeup = WaitInterrupted | WaitError | Ready bool "received option"

fun mcmq_recv ::
    "'d irq_handler \<Rightarrow> mcmq_wakeup list \<Rightarrow> u8 ringbuffer \<times> mcmq_link \<times> 'd \<Rightarrow>
     fault + (u8 ringbuffer \<times> mcmq_link \<times> 'd)" where
  "mcmq_recv irq [] st = Inr st"
| "mcmq_recv irq (WaitInterrupted # ws) st = mcmq_recv irq ws st"
| "mcmq_recv irq (WaitError # ws) st = Inr st"
| "mcmq_recv irq (Ready halt answer # ws) st =
     (if halt then Inr st
      else (case answer of
              Some (Chunk chunk) \<Rightarrow> bindE (recv_wakeup irq chunk st) (mcmq_recv irq ws)
            | _ \<Rightarrow> mcmq_recv irq ws st))"

text \<open>
  The thread adds the socket and the event descriptor to its epoll instance, with the answers
  \<open>statuses\<close>. It has a ring buffer of its own, on its stack; \<open>raw\<close> is what is there.
\<close>

definition mcmq_recv_thread ::
    "int \<Rightarrow> int list \<Rightarrow> 'd irq_handler \<Rightarrow> u8 list \<Rightarrow> mcmq_wakeup list \<Rightarrow> mcmq_link \<times> 'd \<Rightarrow>
     fault + (mcmq_link \<times> 'd)" where
  "mcmq_recv_thread epfd statuses irq raw ws st =
     (if \<not> epoll_setup epfd statuses then Inl AssertFailed
      else bindE (mcmq_recv irq ws (Ringbuffer raw, st)) (\<lambda>(r, st'). Inr st'))"

section \<open>What the thread handles\<close>

text \<open>
  Runs in which each chunk ends at most two bytes behind the end of a message: \<open>rest\<close> are the bytes
  left from before, and \<open>ps\<close> the messages that the run completes before the thread ends.
\<close>

inductive cut_ok :: "u8 list \<Rightarrow> mcmq_wakeup list \<Rightarrow> u8 list list \<Rightarrow> bool" where
  at_end: "cut_ok rest [] []"
| halted: "cut_ok rest (Ready True answer # ws) []"
| wait_failed: "cut_ok rest (WaitError # ws) []"
| nothing: "cut_ok rest ws ps \<Longrightarrow> w \<in> {WaitInterrupted, Ready False None, Ready False (Some RecvInterrupted),
    Ready False (Some RecvError)} \<Longrightarrow> cut_ok rest (w # ws) ps"
| chunk: "rest @ c = concat (map frame ps) @ rest' \<Longrightarrow> length rest' \<le> 2 \<Longrightarrow> length c \<le> 4096 \<Longrightarrow>
    list_all frame_ok ps \<Longrightarrow> cut_ok rest' ws qs \<Longrightarrow> cut_ok rest (Ready False (Some (Chunk c)) # ws) (ps @ qs)"

lemma recv_run:
  assumes "cut_ok rest ws ps" "rb_ok r" "rb_elems r = rest" "length rest \<le> 2" "rb_capacity r = 16384"
  shows "bindE (mcmq_recv irq ws (r, st)) (\<lambda>(r', st'). Inr st') = foldE (dispatch irq) ps st"
  using assms
proof (induction arbitrary: r st rule: cut_ok.induct)
  case (nothing rest ws ps w)
  from nothing.IH [OF nothing.prems] nothing.hyps(2) show ?case by (cases st) auto
next
  case (chunk rest c ps rest' ws qs)
  have "length (rb_elems r) + length c \<le> rb_capacity r" "length c < 2 ^ 64" using chunk by simp_all
  from recv_dispatches_frames_raw [OF chunk.prems(1) this, of ps rest' irq st] chunk
  obtain r' where wake: "recv_wakeup irq c (r, st) = bindE (foldE (dispatch irq) ps st) (\<lambda>st'. Inr (r', st'))"
    and r': "rb_elems r' = rest'" "rb_ok r'" "rb_capacity r' = 16384"
    by auto
  have "bindE (mcmq_recv irq ws (r', st')) (\<lambda>(r', st'). Inr st') = foldE (dispatch irq) qs st'" for st'
    using chunk.IH [OF r'(2,1) chunk.hyps(2) r'(3)] .
  then show ?case by (simp add: wake foldE_append bindE_assoc)
qed simp_all

text \<open>
  C21: the receiving thread handles every message of the stream exactly once and in order, over any
  number of wake-ups, interrupted calls and errors of \<open>recv\<close>, until \<open>stopped\<close> is found set or
  \<open>epoll_wait\<close> fails, provided that no chunk ends in the middle of a message.
\<close>

theorem recv_thread_dispatches:
  assumes "cut_ok [] ws ps" "length raw = 16384" "epoll_setup epfd statuses"
  shows "mcmq_recv_thread epfd statuses irq raw ws st = foldE (dispatch irq) ps st"
proof -
  have "rb_ok (Ringbuffer raw)" "rb_elems (Ringbuffer raw) = []" "rb_capacity (Ringbuffer raw) = 16384"
    using assms(2) rb_ok_constructor [of raw 14] rb_elems_constructor
    by (simp_all add: rb_capacity_def Ringbuffer_def)
  with recv_run [OF assms(1)] assms(3) show ?thesis by (simp add: mcmq_recv_thread_def)
qed

theorem recv_thread_dispatches_witness:
  "mcmq_recv_thread 8 [0, 0] (Some (\<lambda>v (l, vs). Inr (l, vs @ [v]))) (replicate 16384 0)
     [Ready False (Some (Chunk [0, 2, 0, 5, 0])), WaitInterrupted, Ready False (Some (Chunk [4, 0, 4, 0, 3])),
      Ready True None, Ready False (Some (Chunk [1, 2, 3]))] (blank_link, []) =
   Inr (blank_link\<lparr>link_ready := True\<rparr>, [3])"
proof -
  have "ntohs (of_le [0, 4]) = (4 :: u16)" "ntohs (of_le [0, 3]) = (3 :: u16)" by code_simp+
  then have vector: "dispatch (Some h) [0, 4, 0, 3] (l, vs) = h 3 (l, vs)" for h l and vs :: "u16 list"
    by (simp add: dispatch_def del: of_le.simps)
  have irq: "frame [0, 4, 0, 3] = [0, 4, 0, 4, 0, 3]" by code_simp
  have "cut_ok [] [Ready True None, Ready False (Some (Chunk [1, 2, 3]))] []" by (rule halted)
  from chunk [OF _ _ _ _ this, of "[0]" "[4, 0, 4, 0, 3]" "[[0, 4, 0, 3]]"]
  have "cut_ok [0] [Ready False (Some (Chunk [4, 0, 4, 0, 3])), Ready True None, Ready False (Some (Chunk [1, 2, 3]))]
      [[0, 4, 0, 3]]"
    by (simp add: irq frame_ok_def)
  then have "cut_ok [0] [WaitInterrupted, Ready False (Some (Chunk [4, 0, 4, 0, 3])), Ready True None,
      Ready False (Some (Chunk [1, 2, 3]))] [[0, 4, 0, 3]]"
    by (rule nothing) simp
  from chunk [OF _ _ _ _ this, of "[]" "[0, 2, 0, 5, 0]" "[[0, 5]]"]
  have "cut_ok [] [Ready False (Some (Chunk [0, 2, 0, 5, 0])), WaitInterrupted,
      Ready False (Some (Chunk [4, 0, 4, 0, 3])), Ready True None, Ready False (Some (Chunk [1, 2, 3]))]
      [[0, 5], [0, 4, 0, 3]]"
    by (simp add: frame_ready frame_ok_def)
  from recv_thread_dispatches [OF this, of "replicate 16384 0" 8 "[0, 0]" "Some (\<lambda>v (l, vs). Inr (l, vs @ [v]))"
      "(blank_link, [])"] show ?thesis
    by (simp add: dispatch_ready vector epoll_setup_def)
qed

end
