(* ===== verification/PcieVfio.thy ===== *)
theory PcieVfio
  imports PcieThread MemorySpace
begin

text \<open>
  \<^verbatim>\<open>pcie_link_vfio.h\<close> and \<^verbatim>\<open>pcie_link_vfio.cpp\<close>: the link to a real
  device. Parameters: the mapped registers, as 32-bit loads and stores on a state \<open>'b\<close>, and what the
  system calls of \<open>init\<close> answer. What \<open>init\<close> asks of the kernel about interrupts is recorded.
\<close>

section \<open>Registers\<close>

record 'b mmio =
  load32 :: "u64 \<Rightarrow> 'b \<Rightarrow> u32 \<times> 'b"
  store32 :: "u64 \<Rightarrow> u32 \<Rightarrow> 'b \<Rightarrow> 'b"

text \<open>An access of another size is logged; then a read leaves in the caller's buffer what it held, \<open>raw\<close>.\<close>

definition vfio_read :: "'b mmio \<Rightarrow> (size_t \<Rightarrow> u8 list) \<Rightarrow> u64 \<Rightarrow> size_t \<Rightarrow> 'b \<Rightarrow> fault + (u8 list \<times> 'b)" where
  "vfio_read M raw addr buflen b =
     (if buflen = 4 then (let (v, b1) = load32 M addr b in Inr (le_bytes 4 v, b1))
      else if buflen = 8 then
        (let (lo, b1) = load32 M addr b; (hi, b2) = load32 M (addr + 4) b1
         in Inr (le_bytes 8 (push_bit 32 (ucast hi) OR ucast lo :: u64), b2))
      else Inr (raw buflen, b))"

definition vfio_write :: "'b mmio \<Rightarrow> u64 \<Rightarrow> u8 list \<Rightarrow> 'b \<Rightarrow> fault + 'b" where
  "vfio_write M addr buf b =
     (if length buf = 4 then Inr (store32 M addr (of_le buf) b)
      else if length buf = 8 then
        (let v = of_le buf :: u64
         in Inr (store32 M (addr + 4) (ucast (drop_bit 32 v AND 0xffffffff)) (store32 M addr (ucast (v AND 0xffffffff)) b)))
      else Inr b)"

definition vfio_ops :: "'b mmio \<Rightarrow> (size_t \<Rightarrow> u8 list) \<Rightarrow> 'b pcie_ops" where
  "vfio_ops M raw = \<lparr>read_from_device = vfio_read M raw, write_to_device = vfio_write M\<rparr>"

section \<open>Initialisation\<close>

text \<open>
  The answers of the system: the checks of the VFIO container and group, the command register of the
  device, the results of the sixteen calls of \<open>eventfd\<close>, and the number of vectors of each kind of
  interrupt.
\<close>

record vfio_system =
  api_version_ok :: bool
  type1_iommu :: bool
  group_viable :: bool
  pci_command :: u16
  eventfds :: "nat list"
  irq_counts :: "u32 list"

text \<open>
  A range of the device's addresses that the kernel maps onto the program's memory; the addresses of
  the memory space, from \<open>iova_base\<close>, stand for the program's own.
\<close>

record dma_map =
  dma_iova :: u64
  dma_size :: u64
  dma_flags :: u32

record vfio_link =
  irq_fds :: "nat list"
  irq_map :: "nat \<Rightarrow> nat option"
  command_written :: "u16 option"
  set_irqs :: "(nat \<times> nat list) list"
  dma_maps :: "dma_map list"
  vfio_ready :: bool

definition new_vfio_link :: vfio_link where
  "new_vfio_link = \<lparr>irq_fds = [], irq_map = (\<lambda>fd. None), command_written = None, set_irqs = [], dma_maps = [],
     vfio_ready = False\<rparr>"

definition make_irq_fds :: "nat list \<Rightarrow> vfio_link \<Rightarrow> vfio_link" where
  "make_irq_fds efds l =
     fold (\<lambda>i l. l\<lparr>irq_fds := irq_fds l @ [efds ! i], irq_map := (irq_map l)(efds ! i \<mapsto> i)\<rparr>) [0..<16] l"

text \<open>
  One kind of interrupt: fewer than 16 vectors are not used; the descriptors are copied into an array
  of 16 elements, for as many vectors as the device has.
\<close>

definition set_irq :: "u32 list \<Rightarrow> nat \<Rightarrow> vfio_link \<Rightarrow> fault + vfio_link" where
  "set_irq cnts i l =
     (let n = cnts ! i
      in if n < 16 then Inr l
         else if n > 16 then Inl UndefinedBehaviour
         else Inr (l\<lparr>set_irqs := set_irqs l @ [(i, map (\<lambda>j. irq_fds l ! j) [0..<unat n])]\<rparr>))"

definition vfio_init :: "vfio_system \<Rightarrow> vfio_link \<Rightarrow> fault + (bool \<times> vfio_link)" where
  "vfio_init s l =
     (if \<not> api_version_ok s then Inr (False, l)
      else if \<not> type1_iommu s then Inr (False, l)
      else if \<not> group_viable s then Inr (False, l)
      else
        let l1 = make_irq_fds (eventfds s) (l\<lparr>command_written := Some (pci_command s OR 0x4)\<rparr>)
        in bindE (foldE (set_irq (irq_counts s)) [0..<length (irq_counts s)] l1) (\<lambda>l2.
             Inr (True, l2\<lparr>vfio_ready := True\<rparr>)))"

text \<open>\<open>map_dma\<close>, with the answer of the system call; a failure is logged.\<close>

definition map_dma :: "bool \<Rightarrow> memory_space \<Rightarrow> vfio_link \<Rightarrow> vfio_link" where
  "map_dma accepted m l =
     (if accepted
      then l\<lparr>dma_maps := dma_maps l @ [\<lparr>dma_iova = ucast (iova_base m), dma_size = map_size m, dma_flags = 1 OR 2\<rparr>]\<rparr>
      else l)"

section \<open>Interrupts\<close>

text \<open>
  What \<open>epoll_wait\<close> returns: an interrupted call, an error, or the descriptors that are ready, with
  the value of \<open>stopped\<close> after the call. The list ends where the test of the loop finds \<open>stopped\<close> set.
  The handler, if one is set, works on the state \<open>'d\<close>.
\<close>

datatype wakeup = Interrupted | EpollError | Events bool "nat list"

definition handle_event :: "(u16 \<Rightarrow> 'd \<Rightarrow> fault + 'd) option \<Rightarrow> vfio_link \<Rightarrow> nat \<Rightarrow> 'd \<Rightarrow> fault + 'd" where
  "handle_event irq l fd d =
     (case irq_map l fd of
        None \<Rightarrow> Inr d
      | Some v \<Rightarrow> (case irq of None \<Rightarrow> Inr d | Some h \<Rightarrow> h (of_nat v) d))"

fun vfio_recv :: "(u16 \<Rightarrow> 'd \<Rightarrow> fault + 'd) option \<Rightarrow> vfio_link \<Rightarrow> wakeup list \<Rightarrow> 'd \<Rightarrow> fault + 'd" where
  "vfio_recv irq l [] d = Inr d"
| "vfio_recv irq l (Interrupted # ws) d = vfio_recv irq l ws d"
| "vfio_recv irq l (EpollError # ws) d = Inr d"
| "vfio_recv irq l (Events halt fds # ws) d =
     (if halt then Inr d else bindE (foldE (handle_event irq l) fds d) (vfio_recv irq l ws))"

text \<open>The thread adds the event descriptor and those of the vectors to its epoll instance.\<close>

definition vfio_recv_thread ::
    "int \<Rightarrow> int list \<Rightarrow> (u16 \<Rightarrow> 'd \<Rightarrow> fault + 'd) option \<Rightarrow> vfio_link \<Rightarrow> wakeup list \<Rightarrow> 'd \<Rightarrow> fault + 'd" where
  "vfio_recv_thread epfd statuses irq l ws d =
     (if \<not> epoll_setup epfd statuses then Inl AssertFailed else vfio_recv irq l ws d)"

section \<open>Properties\<close>

text \<open>
  C26: over this link a 64-bit access of the driver is the two 32-bit accesses of its halves, the low
  half first, whatever the registers do.
\<close>

theorem vfio_accesses_split:
  "readq (vfio_ops M raw) addr b =
     bindE (readl (vfio_ops M raw) addr b) (\<lambda>(lo, b1).
     bindE (readl (vfio_ops M raw) (addr + 4) b1) (\<lambda>(hi, b2). Inr (ucast lo OR push_bit 32 (ucast hi), b2))) \<and>
   writeq (vfio_ops M raw) addr v b =
     bindE (writel (vfio_ops M raw) addr (ucast v) b) (writel (vfio_ops M raw) (addr + 4) (ucast (drop_bit 32 v)))"
proof
  show "readq (vfio_ops M raw) addr b =
     bindE (readl (vfio_ops M raw) addr b) (\<lambda>(lo, b1).
     bindE (readl (vfio_ops M raw) (addr + 4) b1) (\<lambda>(hi, b2). Inr (ucast lo OR push_bit 32 (ucast hi), b2)))"
    by (simp add: readq_def readl_def vfio_ops_def vfio_read_def or.commute split: prod.split)
  have ones: "(0xffffffff :: u64) = mask 32" by (simp add: mask_eq_exp_minus_1)
  have low: "ucast (x AND 0xffffffff) = (ucast x :: u32)" for x :: u64
    unfolding ones by (auto intro!: bit_word_eqI simp: bit_simps)
  have "ucast (v AND 0xffffffff) = (ucast v :: u32)"
    "ucast (drop_bit 32 v AND 0xffffffff) = (ucast (drop_bit 32 v) :: u32)" by (rule low)+
  then show "writeq (vfio_ops M raw) addr v b =
     bindE (writel (vfio_ops M raw) addr (ucast v) b) (writel (vfio_ops M raw) (addr + 4) (ucast (drop_bit 32 v)))"
    by (simp add: writeq_def writel_def vfio_ops_def vfio_write_def)
qed

lemma find_snoc: "find P (xs @ [x]) = (case find P xs of None \<Rightarrow> if P x then Some x else None | Some y \<Rightarrow> Some y)"
  by (induction xs) simp_all

lemma make_irq_fds_prefix:
  assumes "distinct efds" "n \<le> length efds"
  shows "fold (\<lambda>i l. l\<lparr>irq_fds := irq_fds l @ [efds ! i], irq_map := (irq_map l)(efds ! i \<mapsto> i)\<rparr>) [0..<n] l =
    l\<lparr>irq_fds := irq_fds l @ take n efds,
      irq_map := (\<lambda>fd. case find (\<lambda>i. efds ! i = fd) [0..<n] of None \<Rightarrow> irq_map l fd | Some i \<Rightarrow> Some i)\<rparr>"
  using assms(2)
proof (induction n)
  case (Suc n)
  have "(case find (\<lambda>i. efds ! i = fd) ([0..<n] @ [n]) of None \<Rightarrow> irq_map l fd | Some i \<Rightarrow> Some i) =
      (if fd = efds ! n then Some n
       else case find (\<lambda>i. efds ! i = fd) [0..<n] of None \<Rightarrow> irq_map l fd | Some i \<Rightarrow> Some i)" for fd
  proof (cases "fd = efds ! n")
    case True
    have "efds ! i \<noteq> efds ! n" if "i < n" for i
      using nth_eq_iff_index_eq [OF assms(1), of i n] that Suc.prems by simp
    then have "find (\<lambda>i. efds ! i = fd) [0..<n] = None" using True by (auto simp: find_None_iff)
    with True show ?thesis by (simp add: find_snoc)
  qed (simp add: find_snoc split: option.split)
  then have "(\<lambda>fd. case find (\<lambda>i. efds ! i = fd) [0..<Suc n] of None \<Rightarrow> irq_map l fd | Some i \<Rightarrow> Some i) =
      (\<lambda>fd. case find (\<lambda>i. efds ! i = fd) [0..<n] of None \<Rightarrow> irq_map l fd | Some i \<Rightarrow> Some i)(efds ! n \<mapsto> n)"
    by (simp add: fun_upd_def)
  moreover have "take (Suc n) efds = take n efds @ [efds ! n]"
    using Suc.prems by (simp add: take_Suc_conv_app_nth)
  ultimately show ?case using Suc.IH Suc.prems by (simp del: fun_upd_apply find.simps)
qed simp

lemma make_irq_fds_eq:
  assumes "distinct efds" "length efds = 16"
  shows "irq_fds (make_irq_fds efds l) = irq_fds l @ efds" "set_irqs (make_irq_fds efds l) = set_irqs l"
    "v < 16 \<Longrightarrow> irq_map (make_irq_fds efds l) (efds ! v) = Some v"
proof -
  have eq: "make_irq_fds efds l = l\<lparr>irq_fds := irq_fds l @ efds,
      irq_map := (\<lambda>fd. case find (\<lambda>i. efds ! i = fd) [0..<16] of None \<Rightarrow> irq_map l fd | Some i \<Rightarrow> Some i)\<rparr>"
    using make_irq_fds_prefix [OF assms(1), of 16 l] assms(2) by (simp add: make_irq_fds_def)
  show "irq_fds (make_irq_fds efds l) = irq_fds l @ efds" "set_irqs (make_irq_fds efds l) = set_irqs l"
    by (simp_all add: eq)
  show "irq_map (make_irq_fds efds l) (efds ! v) = Some v" if "v < 16"
  proof -
    have "find (\<lambda>i. efds ! i = efds ! v) [0..<16] = Some v"
      using that nth_eq_iff_index_eq [OF assms(1)] assms(2)
      by (subst find_Some_iff) (intro exI [of _ v], auto)
    then show ?thesis by (simp add: eq)
  qed
qed

lemma set_irq_run:
  assumes "irq_fds l = efds" "length efds = 16"
  shows "case foldE (set_irq cnts) js l of
      Inl e \<Rightarrow> e = UndefinedBehaviour \<and> (\<exists>i \<in> set js. 16 < cnts ! i)
    | Inr l' \<Rightarrow> irq_fds l' = efds \<and> irq_map l' = irq_map l \<and> (\<forall>i \<in> set js. cnts ! i \<le> 16) \<and>
        set_irqs l' = set_irqs l @ map (\<lambda>i. (i, efds)) (filter (\<lambda>i. cnts ! i = 16) js)"
  using assms(1)
proof (induction js arbitrary: l)
  case (Cons i js)
  have all: "map (\<lambda>j. efds ! j) [0..<16] = efds" using assms(2) by (metis map_nth)
  consider "cnts ! i < 16" | "cnts ! i = 16" | "16 < cnts ! i" by (metis linorder_neqE)
  then show ?case
  proof cases
    case 1
    then have "set_irq cnts i l = Inr l" by (simp add: set_irq_def)
    with 1 Cons.IH [OF Cons.prems] show ?thesis by (auto split: sum.splits)
  next
    case 2
    let ?l = "l\<lparr>set_irqs := set_irqs l @ [(i, efds)]\<rparr>"
    have "set_irq cnts i l = Inr ?l" using 2 all Cons.prems by (simp add: set_irq_def)
    moreover have "irq_fds ?l = efds" using Cons.prems by simp
    ultimately show ?thesis using 2 Cons.IH [of ?l] by (auto split: sum.splits)
  next
    case 3
    then have "set_irq cnts i l = Inl UndefinedBehaviour" by (auto simp: set_irq_def Let_def)
    with 3 show ?thesis by simp
  qed
qed simp


definition sample_vfio :: vfio_system where
  "sample_vfio = \<lparr>api_version_ok = True, type1_iommu = True, group_viable = True, pci_command = 2,
     eventfds = [10..<26], irq_counts = [1, 1, 16, 1]\<rparr>"


end
