(* ===== verification/CLayout.thy ===== *)
theory CLayout
  imports Prelude
begin

text \<open>
  The layout of C data in memory, as the System V ABI for x86-64 prescribes it: sizes, alignments
  and member offsets of structures, unions and arrays of fixed-width integers, and reading and
  writing a member in the bytes of an object. Theory Nvme writes the structures of
  \<^verbatim>\<open>nvme.h\<close> in it.
\<close>

section \<open>Types, sizes and offsets\<close>

datatype ctype =
    U8 | U16 | U32 | U64
  | Arr ctype nat
  | Struct "(string \<times> ctype) list"
  | Union "(string \<times> ctype) list"

type_synonym members = "(string \<times> ctype) list"

text \<open>The next multiple of the alignment.\<close>

definition align_up :: "nat \<Rightarrow> nat \<Rightarrow> nat" where
  "align_up n a = (n + a - 1) div a * a"

fun align_of :: "ctype \<Rightarrow> nat" and align_max :: "members \<Rightarrow> nat" where
  "align_of U8 = 1"
| "align_of U16 = 2"
| "align_of U32 = 4"
| "align_of U64 = 8"
| "align_of (Arr t n) = align_of t"
| "align_of (Struct ms) = align_max ms"
| "align_of (Union ms) = align_max ms"
| "align_max [] = 1"
| "align_max ((f, t) # ms) = max (align_of t) (align_max ms)"

text \<open>\<open>end_of o ms\<close> is the offset behind the last member when the first may start at \<open>o\<close>.\<close>

fun size_of :: "ctype \<Rightarrow> nat" and end_of :: "nat \<Rightarrow> members \<Rightarrow> nat" and size_max :: "members \<Rightarrow> nat" where
  "size_of U8 = 1"
| "size_of U16 = 2"
| "size_of U32 = 4"
| "size_of U64 = 8"
| "size_of (Arr t n) = n * size_of t"
| "size_of (Struct ms) = align_up (end_of 0 ms) (align_max ms)"
| "size_of (Union ms) = align_up (size_max ms) (align_max ms)"
| "end_of off [] = off"
| "end_of off ((f, t) # ms) = end_of (align_up off (align_of t) + size_of t) ms"
| "size_max [] = 0"
| "size_max ((f, t) # ms) = max (size_of t) (size_max ms)"

fun member :: "nat \<Rightarrow> members \<Rightarrow> string \<Rightarrow> (nat \<times> ctype) option" where
  "member off [] g = None"
| "member off ((f, t) # ms) g =
     (if f = g then Some (align_up off (align_of t), t)
      else member (align_up off (align_of t) + size_of t) ms g)"

text \<open>The offset and the type of the member a path of names leads to.\<close>

fun locate :: "ctype \<Rightarrow> string list \<Rightarrow> (nat \<times> ctype) option" where
  "locate t [] = Some (0, t)"
| "locate (Struct ms) (f # p) =
     (case member 0 ms f of
        None \<Rightarrow> None
      | Some (off, t) \<Rightarrow> map_option (\<lambda>(o', t'). (off + o', t')) (locate t p))"
| "locate (Union ms) (f # p) =
     (case map_of ms f of None \<Rightarrow> None | Some t \<Rightarrow> locate t p)"
| "locate t (f # p) = None"

section \<open>Alignment\<close>

lemma align_of_pos: "0 < align_of t" and align_max_pos: "0 < align_max ms"
  by (induction t and ms rule: align_of_align_max.induct) auto

lemma align_up_ge: "0 < a \<Longrightarrow> n \<le> align_up n a"
proof -
  assume a: "0 < a"
  have "(n + a - 1) div a * a + (n + a - 1) mod a = n + a - 1" by simp
  moreover have "(n + a - 1) mod a < a" using a by simp
  ultimately show ?thesis unfolding align_up_def by linarith
qed

lemma align_up_dvd: "a dvd align_up n a"
  by (simp add: align_up_def)

lemma align_up_less: "0 < a \<Longrightarrow> align_up n a < n + a"
proof -
  assume "0 < a"
  moreover have "(n + a - 1) div a * a \<le> n + a - 1" by (rule div_times_less_eq_dividend)
  ultimately show ?thesis unfolding align_up_def by linarith
qed

lemma align_up_eval [simp]:
  "align_up n (Suc 0) = n"
  "align_up n 1 = n"
  "align_up n 2 = (n + 1) div 2 * 2"
  "align_up n 4 = (n + 3) div 4 * 4"
  "align_up n 8 = (n + 7) div 8 * 8"
  by (simp_all add: align_up_def)

section \<open>Members lie inside their object and apart from each other\<close>

lemma end_of_ge: "off \<le> end_of off ms"
proof (induction ms arbitrary: off)
  case (Cons m ms)
  obtain f t where m: "m = (f, t)" by (cases m)
  have "off \<le> align_up off (align_of t) + size_of t"
    using align_up_ge [OF align_of_pos, of off t] by simp
  also have "\<dots> \<le> end_of (align_up off (align_of t) + size_of t) ms" by (rule Cons.IH)
  finally show ?case using m by simp
qed simp

lemma member_bounds:
  "member off ms g = Some (k, t) \<Longrightarrow> off \<le> k \<and> k + size_of t \<le> end_of off ms \<and> align_of t dvd k"
proof (induction off ms g rule: member.induct)
  case (2 off f t' ms g)
  show ?case
  proof (cases "f = g")
    case True
    then show ?thesis using 2(2) end_of_ge align_up_ge [OF align_of_pos] by (auto simp: align_up_dvd)
  next
    case False
    then have "align_up off (align_of t') + size_of t' \<le> k \<and>
        k + size_of t \<le> end_of (align_up off (align_of t') + size_of t') ms \<and> align_of t dvd k"
      using 2 by simp
    with align_up_ge [OF align_of_pos, of off t'] show ?thesis by simp
  qed
qed simp

lemma members_apart:
  assumes "member off ms f = Some (k, t)" "member off ms g = Some (l, u)" "f \<noteq> g"
  shows "k + size_of t \<le> l \<or> l + size_of u \<le> k"
  using assms
proof (induction ms arbitrary: off)
  case (Cons m ms)
  obtain h v where m: "m = (h, v)" by (cases m)
  let ?next = "align_up off (align_of v) + size_of v"
  consider "h = f" | "h = g" | "h \<noteq> f" "h \<noteq> g" by blast
  then show ?case
  proof cases
    case 1
    then have "member ?next ms g = Some (l, u)" "k + size_of t = ?next"
      using Cons.prems m by (auto split: if_splits)
    with member_bounds [of ?next ms g] show ?thesis by auto
  next
    case 2
    then have "member ?next ms f = Some (k, t)" "l + size_of u = ?next"
      using Cons.prems m by (auto split: if_splits)
    with member_bounds [of ?next ms f] show ?thesis by auto
  next
    case 3
    then show ?thesis using Cons.prems m by (intro Cons.IH [of ?next]) auto
  qed
qed simp

lemma size_max_member: "map_of ms f = Some t \<Longrightarrow> size_of t \<le> size_max ms"
  by (induction ms) (auto split: if_splits)

lemma locate_bounds: "locate t p = Some (k, u) \<Longrightarrow> k + size_of u \<le> size_of t"
proof (induction t p arbitrary: k u rule: locate.induct)
  case (2 ms f p)
  then obtain off t k' where m: "member 0 ms f = Some (off, t)" "locate t p = Some (k', u)" "k = off + k'"
    by (auto split: option.splits)
  have "k' + size_of u \<le> size_of t" using 2(1) [OF m(1) refl m(2)] .
  moreover have "off + size_of t \<le> end_of 0 ms" using member_bounds [OF m(1)] by simp
  moreover have "end_of 0 ms \<le> align_up (end_of 0 ms) (align_max ms)" by (rule align_up_ge [OF align_max_pos])
  ultimately show ?case using m(3) by simp
next
  case (3 ms f p)
  then obtain t where m: "map_of ms f = Some t" "locate t p = Some (k, u)" by (auto split: option.splits)
  have "k + size_of u \<le> size_of t" using 3(1) [OF m] .
  also have "\<dots> \<le> size_max ms" using m(1) by (rule size_max_member)
  also have "\<dots> \<le> align_up (size_max ms) (align_max ms)" by (rule align_up_ge [OF align_max_pos])
  finally show ?case by simp
qed auto

section \<open>Member access\<close>

definition get_member :: "ctype \<Rightarrow> string list \<Rightarrow> u8 list \<Rightarrow> u64" where
  "get_member ty p bs =
     (case locate ty p of Some (off, t) \<Rightarrow> of_le (slice off (size_of t) bs) | None \<Rightarrow> 0)"

definition put_member :: "ctype \<Rightarrow> string list \<Rightarrow> u64 \<Rightarrow> u8 list \<Rightarrow> u8 list" where
  "put_member ty p v bs =
     (case locate ty p of Some (off, t) \<Rightarrow> patch off (le_bytes (size_of t) v) bs | None \<Rightarrow> bs)"

lemma length_put_member [simp]:
  assumes "length bs = size_of ty"
  shows "length (put_member ty p v bs) = size_of ty"
proof (cases "locate ty p")
  case (Some r)
  then show ?thesis using locate_bounds [of ty p] assms by (cases r) (auto simp: put_member_def)
qed (simp add: put_member_def assms)

lemma get_put_member:
  assumes "length bs = size_of ty" "locate ty p = Some (off, t)"
  shows "get_member ty p (put_member ty p v bs) = take_bit (8 * size_of t) v"
  using locate_bounds [OF assms(2)] assms by (simp add: get_member_def put_member_def of_le_le_bytes slice_patch)

lemma get_put_member_other:
  assumes "length bs = size_of ty" "locate ty p = Some (off, t)" "locate ty q = Some (off', t')"
    and "off + size_of t \<le> off' \<or> off' + size_of t' \<le> off"
  shows "get_member ty q (put_member ty p v bs) = get_member ty q bs"
  using locate_bounds [OF assms(2)] locate_bounds [OF assms(3)] assms
  by (simp add: get_member_def put_member_def slice_patch_other)

text \<open>The bytes of an object that is all zero.\<close>

lemma of_le_zeros [simp]: "of_le (replicate n 0) = 0"
  by (induction n) simp_all

lemma get_member_zeros: "length bs = size_of ty \<Longrightarrow> bs = replicate n 0 \<Longrightarrow> get_member ty p bs = 0"
  by (auto simp: get_member_def slice_def split: option.splits)

end
