(* ===== verification/Nvme.thy ===== *)
theory Nvme
  imports CLayout
begin

text \<open>
  The NVMe definitions of \<^verbatim>\<open>nvme.h\<close>: registers, fields of the capability register,
  configuration and status bits, opcodes, the structures exchanged with the controller (identify
  data, the 64-byte commands, the 16-byte completion) as layouts of theory CLayout, and the status
  codes. The properties say that the structures have the sizes and offsets on which driver and
  controller agree, and that the driver's status test sees every error.
\<close>

section \<open>Registers\<close>

datatype nvme_reg =
    NVME_REG_CAP | NVME_REG_VS | NVME_REG_INTMS | NVME_REG_INTMC | NVME_REG_CC | NVME_REG_CSTS
   | NVME_REG_NSSR | NVME_REG_AQA | NVME_REG_ASQ | NVME_REG_ACQ | NVME_REG_CMBLOC
   | NVME_REG_CMBSZ | NVME_REG_BPINFO | NVME_REG_BPRSEL | NVME_REG_BPMBL | NVME_REG_PMRCAP
   | NVME_REG_PMRCTL | NVME_REG_PMRSTS | NVME_REG_PMREBS | NVME_REG_PMRSWTP | NVME_REG_DBS

primrec reg_offset :: "nvme_reg \<Rightarrow> u64" where
  "reg_offset NVME_REG_CAP = 0x0000"
| "reg_offset NVME_REG_VS = 0x0008"
| "reg_offset NVME_REG_INTMS = 0x000c"
| "reg_offset NVME_REG_INTMC = 0x0010"
| "reg_offset NVME_REG_CC = 0x0014"
| "reg_offset NVME_REG_CSTS = 0x001c"
| "reg_offset NVME_REG_NSSR = 0x0020"
| "reg_offset NVME_REG_AQA = 0x0024"
| "reg_offset NVME_REG_ASQ = 0x0028"
| "reg_offset NVME_REG_ACQ = 0x0030"
| "reg_offset NVME_REG_CMBLOC = 0x0038"
| "reg_offset NVME_REG_CMBSZ = 0x003c"
| "reg_offset NVME_REG_BPINFO = 0x0040"
| "reg_offset NVME_REG_BPRSEL = 0x0044"
| "reg_offset NVME_REG_BPMBL = 0x0048"
| "reg_offset NVME_REG_PMRCAP = 0x0e00"
| "reg_offset NVME_REG_PMRCTL = 0x0e04"
| "reg_offset NVME_REG_PMRSTS = 0x0e08"
| "reg_offset NVME_REG_PMREBS = 0x0e0c"
| "reg_offset NVME_REG_PMRSWTP = 0x0e10"
| "reg_offset NVME_REG_DBS = 0x1000"

text \<open>The fields of the capability register.\<close>

definition NVME_CAP_MQES :: "u64 \<Rightarrow> u64" where
  "NVME_CAP_MQES cap = cap AND 0xffff"

definition NVME_CAP_TIMEOUT :: "u64 \<Rightarrow> u64" where
  "NVME_CAP_TIMEOUT cap = drop_bit 24 cap AND 0xff"

definition NVME_CAP_STRIDE :: "u64 \<Rightarrow> u64" where
  "NVME_CAP_STRIDE cap = drop_bit 32 cap AND 0xf"

definition NVME_CAP_NSSRC :: "u64 \<Rightarrow> u64" where
  "NVME_CAP_NSSRC cap = drop_bit 36 cap AND 0x1"

definition NVME_CAP_MPSMIN :: "u64 \<Rightarrow> u64" where
  "NVME_CAP_MPSMIN cap = drop_bit 48 cap AND 0xf"

definition NVME_CAP_MPSMAX :: "u64 \<Rightarrow> u64" where
  "NVME_CAP_MPSMAX cap = drop_bit 52 cap AND 0xf"

text \<open>Queue entry sizes as powers of two, the depth of the admin queue.\<close>

definition NVME_ADM_SQES :: nat where
  "NVME_ADM_SQES = 6"

definition NVME_NVM_IOSQES :: nat where
  "NVME_NVM_IOSQES = 6"

definition NVME_NVM_IOCQES :: nat where
  "NVME_NVM_IOCQES = 4"

definition NVME_AQ_DEPTH :: u32 where
  "NVME_AQ_DEPTH = 32"

text \<open>Bits of the configuration and the status register.\<close>

definition NVME_CC_ENABLE :: u32 where
  "NVME_CC_ENABLE = 1"

definition NVME_CC_CSS_NVM :: u32 where
  "NVME_CC_CSS_NVM = push_bit 4 0"

definition NVME_CC_MPS_SHIFT :: nat where
  "NVME_CC_MPS_SHIFT = 7"

definition NVME_CC_AMS_SHIFT :: nat where
  "NVME_CC_AMS_SHIFT = 11"

definition NVME_CC_SHN_SHIFT :: nat where
  "NVME_CC_SHN_SHIFT = 14"

definition NVME_CC_IOSQES_SHIFT :: nat where
  "NVME_CC_IOSQES_SHIFT = 16"

definition NVME_CC_IOCQES_SHIFT :: nat where
  "NVME_CC_IOCQES_SHIFT = 20"

definition NVME_CC_AMS_RR :: u32 where
  "NVME_CC_AMS_RR = push_bit NVME_CC_AMS_SHIFT 0"

definition NVME_CC_SHN_NONE :: u32 where
  "NVME_CC_SHN_NONE = push_bit NVME_CC_SHN_SHIFT 0"

definition NVME_CC_SHN_NORMAL :: u32 where
  "NVME_CC_SHN_NORMAL = push_bit NVME_CC_SHN_SHIFT 1"

definition NVME_CC_SHN_MASK :: u32 where
  "NVME_CC_SHN_MASK = push_bit NVME_CC_SHN_SHIFT 3"

definition NVME_CC_IOSQES :: u32 where
  "NVME_CC_IOSQES = push_bit NVME_CC_IOSQES_SHIFT (of_nat NVME_NVM_IOSQES)"

definition NVME_CC_IOCQES :: u32 where
  "NVME_CC_IOCQES = push_bit NVME_CC_IOCQES_SHIFT (of_nat NVME_NVM_IOCQES)"

definition NVME_CSTS_RDY :: u32 where
  "NVME_CSTS_RDY = 1"

text \<open>Queue flags and the feature the driver sets.\<close>

definition NVME_QUEUE_PHYS_CONTIG :: u32 where
  "NVME_QUEUE_PHYS_CONTIG = 1"

definition NVME_FEAT_NUM_QUEUES :: u32 where
  "NVME_FEAT_NUM_QUEUES = 7"

section \<open>Identify data\<close>

definition nvme_id_power_state :: ctype where
  "nvme_id_power_state = Struct [
     (''max_power'', U16), (''rsvd2'', U8), (''flags'', U8), (''entry_lat'', U32),
     (''exit_lat'', U32), (''read_tput'', U8), (''read_lat'', U8), (''write_tput'', U8),
     (''write_lat'', U8), (''idle_power'', U16), (''idle_scale'', U8), (''rsvd19'', U8),
     (''active_power'', U16), (''active_work_scale'', U8), (''rsvd23'', Arr U8 9)]"

definition nvme_id_ctrl :: ctype where
  "nvme_id_ctrl = Struct [
     (''vid'', U16), (''ssvid'', U16), (''sn'', Arr U8 20), (''mn'', Arr U8 40),
     (''fr'', Arr U8 8), (''rab'', U8), (''ieee'', Arr U8 3), (''cmic'', U8), (''mdts'', U8),
     (''cntlid'', U16), (''ver'', U32), (''rtd3r'', U32), (''rtd3e'', U32), (''oaes'', U32),
     (''ctratt'', U32), (''rsvd100'', Arr U8 28), (''crdt1'', U16), (''crdt2'', U16),
     (''crdt3'', U16), (''rsvd134'', Arr U8 122), (''oacs'', U16), (''acl'', U8),
     (''aerl'', U8), (''frmw'', U8), (''lpa'', U8), (''elpe'', U8), (''npss'', U8),
     (''avscc'', U8), (''apsta'', U8), (''wctemp'', U16), (''cctemp'', U16), (''mtfa'', U16),
     (''hmpre'', U32), (''hmmin'', U32), (''tnvmcap'', Arr U8 16), (''unvmcap'', Arr U8 16),
     (''rpmbs'', U32), (''edstt'', U16), (''dsto'', U8), (''fwug'', U8), (''kas'', U16),
     (''hctma'', U16), (''mntmt'', U16), (''mxtmt'', U16), (''sanicap'', U32),
     (''hmminds'', U32), (''hmmaxd'', U16), (''rsvd338'', Arr U8 4), (''anatt'', U8),
     (''anacap'', U8), (''anagrpmax'', U32), (''nanagrpid'', U32), (''rsvd352'', Arr U8 160),
     (''sqes'', U8), (''cqes'', U8), (''maxcmd'', U16), (''nn'', U32), (''oncs'', U16),
     (''fuses'', U16), (''fna'', U8), (''vwc'', U8), (''awun'', U16), (''awupf'', U16),
     (''nvscc'', U8), (''nwpc'', U8), (''acwu'', U16), (''rsvd534'', Arr U8 2), (''sgls'', U32),
     (''mnan'', U32), (''rsvd544'', Arr U8 224), (''subnqn'', Arr U8 256),
     (''rsvd1024'', Arr U8 768), (''ioccsz'', U32), (''iorcsz'', U32), (''icdoff'', U16),
     (''ctrattr'', U8), (''msdbd'', U8), (''rsvd1804'', Arr U8 244),
     (''psd'', Arr nvme_id_power_state 32), (''vs'', Arr U8 1024)]"

definition nvme_lbaf :: ctype where
  "nvme_lbaf = Struct [
     (''ms'', U16), (''ds'', U8), (''rp'', U8)]"

definition nvme_id_ns :: ctype where
  "nvme_id_ns = Struct [
     (''nsze'', U64), (''ncap'', U64), (''nuse'', U64), (''nsfeat'', U8), (''nlbaf'', U8),
     (''flbas'', U8), (''mc'', U8), (''dpc'', U8), (''dps'', U8), (''nmic'', U8),
     (''rescap'', U8), (''fpi'', U8), (''dlfeat'', U8), (''nawun'', U16), (''nawupf'', U16),
     (''nacwu'', U16), (''nabsn'', U16), (''nabo'', U16), (''nabspf'', U16), (''noiob'', U16),
     (''nvmcap'', Arr U8 16), (''npwg'', U16), (''npwa'', U16), (''npdg'', U16),
     (''npda'', U16), (''nows'', U16), (''rsvd74'', Arr U8 18), (''anagrpid'', U32),
     (''rsvd96'', Arr U8 3), (''nsattr'', U8), (''nvmsetid'', U16), (''endgid'', U16),
     (''nguid'', Arr U8 16), (''eui64'', Arr U8 8), (''lbaf'', Arr nvme_lbaf 16),
     (''rsvd192'', Arr U8 192), (''vs'', Arr U8 3712)]"

text \<open>What \<open>identify\<close> can be asked for.\<close>

datatype nvme_id_cns =
    NVME_ID_CNS_NS | NVME_ID_CNS_CTRL | NVME_ID_CNS_NS_ACTIVE_LIST | NVME_ID_CNS_NS_DESC_LIST
   | NVME_ID_CNS_NS_PRESENT_LIST | NVME_ID_CNS_NS_PRESENT | NVME_ID_CNS_CTRL_NS_LIST
   | NVME_ID_CNS_CTRL_LIST | NVME_ID_CNS_SCNDRY_CTRL_LIST | NVME_ID_CNS_NS_GRANULARITY
   | NVME_ID_CNS_UUID_LIST

primrec cns_code :: "nvme_id_cns \<Rightarrow> u8" where
  "cns_code NVME_ID_CNS_NS = 0x00"
| "cns_code NVME_ID_CNS_CTRL = 0x01"
| "cns_code NVME_ID_CNS_NS_ACTIVE_LIST = 0x02"
| "cns_code NVME_ID_CNS_NS_DESC_LIST = 0x03"
| "cns_code NVME_ID_CNS_NS_PRESENT_LIST = 0x10"
| "cns_code NVME_ID_CNS_NS_PRESENT = 0x11"
| "cns_code NVME_ID_CNS_CTRL_NS_LIST = 0x12"
| "cns_code NVME_ID_CNS_CTRL_LIST = 0x13"
| "cns_code NVME_ID_CNS_SCNDRY_CTRL_LIST = 0x15"
| "cns_code NVME_ID_CNS_NS_GRANULARITY = 0x16"
| "cns_code NVME_ID_CNS_UUID_LIST = 0x17"

section \<open>Commands\<close>

datatype nvme_opcode =
    nvme_cmd_flush | nvme_cmd_write | nvme_cmd_read | nvme_cmd_write_uncor | nvme_cmd_compare
   | nvme_cmd_write_zeroes | nvme_cmd_dsm | nvme_cmd_verify | nvme_cmd_resv_register
   | nvme_cmd_resv_report | nvme_cmd_resv_acquire | nvme_cmd_resv_release

primrec opcode_value :: "nvme_opcode \<Rightarrow> u8" where
  "opcode_value nvme_cmd_flush = 0x00"
| "opcode_value nvme_cmd_write = 0x01"
| "opcode_value nvme_cmd_read = 0x02"
| "opcode_value nvme_cmd_write_uncor = 0x04"
| "opcode_value nvme_cmd_compare = 0x05"
| "opcode_value nvme_cmd_write_zeroes = 0x08"
| "opcode_value nvme_cmd_dsm = 0x09"
| "opcode_value nvme_cmd_verify = 0x0c"
| "opcode_value nvme_cmd_resv_register = 0x0d"
| "opcode_value nvme_cmd_resv_report = 0x0e"
| "opcode_value nvme_cmd_resv_acquire = 0x11"
| "opcode_value nvme_cmd_resv_release = 0x15"

datatype nvme_admin_opcode =
    nvme_admin_delete_sq | nvme_admin_create_sq | nvme_admin_get_log_page
   | nvme_admin_delete_cq | nvme_admin_create_cq | nvme_admin_identify | nvme_admin_abort_cmd
   | nvme_admin_set_features | nvme_admin_get_features | nvme_admin_async_event
   | nvme_admin_ns_mgmt | nvme_admin_activate_fw | nvme_admin_download_fw
   | nvme_admin_dev_self_test | nvme_admin_ns_attach | nvme_admin_keep_alive
   | nvme_admin_directive_send | nvme_admin_directive_recv | nvme_admin_virtual_mgmt
   | nvme_admin_nvme_mi_send | nvme_admin_nvme_mi_recv | nvme_admin_dbbuf
   | nvme_admin_format_nvm | nvme_admin_security_send | nvme_admin_security_recv
   | nvme_admin_sanitize_nvm | nvme_admin_get_lba_status

primrec admin_opcode_value :: "nvme_admin_opcode \<Rightarrow> u8" where
  "admin_opcode_value nvme_admin_delete_sq = 0x00"
| "admin_opcode_value nvme_admin_create_sq = 0x01"
| "admin_opcode_value nvme_admin_get_log_page = 0x02"
| "admin_opcode_value nvme_admin_delete_cq = 0x04"
| "admin_opcode_value nvme_admin_create_cq = 0x05"
| "admin_opcode_value nvme_admin_identify = 0x06"
| "admin_opcode_value nvme_admin_abort_cmd = 0x08"
| "admin_opcode_value nvme_admin_set_features = 0x09"
| "admin_opcode_value nvme_admin_get_features = 0x0a"
| "admin_opcode_value nvme_admin_async_event = 0x0c"
| "admin_opcode_value nvme_admin_ns_mgmt = 0x0d"
| "admin_opcode_value nvme_admin_activate_fw = 0x10"
| "admin_opcode_value nvme_admin_download_fw = 0x11"
| "admin_opcode_value nvme_admin_dev_self_test = 0x14"
| "admin_opcode_value nvme_admin_ns_attach = 0x15"
| "admin_opcode_value nvme_admin_keep_alive = 0x18"
| "admin_opcode_value nvme_admin_directive_send = 0x19"
| "admin_opcode_value nvme_admin_directive_recv = 0x1a"
| "admin_opcode_value nvme_admin_virtual_mgmt = 0x1c"
| "admin_opcode_value nvme_admin_nvme_mi_send = 0x1d"
| "admin_opcode_value nvme_admin_nvme_mi_recv = 0x1e"
| "admin_opcode_value nvme_admin_dbbuf = 0x7C"
| "admin_opcode_value nvme_admin_format_nvm = 0x80"
| "admin_opcode_value nvme_admin_security_send = 0x81"
| "admin_opcode_value nvme_admin_security_recv = 0x82"
| "admin_opcode_value nvme_admin_sanitize_nvm = 0x84"
| "admin_opcode_value nvme_admin_get_lba_status = 0x86"

text \<open>
  The members of the anonymous structure inside \<open>union nvme_data_ptr\<close> are named directly, as in C.
\<close>

definition nvme_data_ptr :: ctype where
  "nvme_data_ptr = Struct [(''prp1'', U64), (''prp2'', U64)]"

definition nvme_common_command :: ctype where
  "nvme_common_command = Struct [
     (''opcode'', U8), (''flags'', U8), (''command_id'', U16), (''nsid'', U32),
     (''cdw2'', Arr U32 2), (''metadata'', U64), (''dptr'', nvme_data_ptr), (''cdw10'', U32),
     (''cdw11'', U32), (''cdw12'', U32), (''cdw13'', U32), (''cdw14'', U32), (''cdw15'', U32)]"

definition nvme_rw_command :: ctype where
  "nvme_rw_command = Struct [
     (''opcode'', U8), (''flags'', U8), (''command_id'', U16), (''nsid'', U32),
     (''rsvd2'', U64), (''metadata'', U64), (''dptr'', nvme_data_ptr), (''slba'', U64),
     (''length'', U16), (''control'', U16), (''dsmgmt'', U32), (''reftag'', U32),
     (''apptag'', U16), (''appmask'', U16)]"

definition nvme_identify :: ctype where
  "nvme_identify = Struct [
     (''opcode'', U8), (''flags'', U8), (''command_id'', U16), (''nsid'', U32),
     (''rsvd2'', Arr U64 2), (''dptr'', nvme_data_ptr), (''cns'', U8), (''rsvd3'', U8),
     (''ctrlid'', U16), (''rsvd11'', Arr U32 5)]"

definition nvme_features :: ctype where
  "nvme_features = Struct [
     (''opcode'', U8), (''flags'', U8), (''command_id'', U16), (''nsid'', U32),
     (''rsvd2'', Arr U64 2), (''dptr'', nvme_data_ptr), (''fid'', U32), (''dword11'', U32),
     (''dword12'', U32), (''dword13'', U32), (''dword14'', U32), (''dword15'', U32)]"

definition nvme_create_cq :: ctype where
  "nvme_create_cq = Struct [
     (''opcode'', U8), (''flags'', U8), (''command_id'', U16), (''rsvd1'', Arr U32 5),
     (''prp1'', U64), (''rsvd8'', U64), (''cqid'', U16), (''qsize'', U16), (''cq_flags'', U16),
     (''irq_vector'', U16), (''rsvd12'', Arr U32 4)]"

definition nvme_create_sq :: ctype where
  "nvme_create_sq = Struct [
     (''opcode'', U8), (''flags'', U8), (''command_id'', U16), (''rsvd1'', Arr U32 5),
     (''prp1'', U64), (''rsvd8'', U64), (''sqid'', U16), (''qsize'', U16), (''sq_flags'', U16),
     (''cqid'', U16), (''rsvd12'', Arr U32 4)]"

definition nvme_delete_queue :: ctype where
  "nvme_delete_queue = Struct [
     (''opcode'', U8), (''flags'', U8), (''command_id'', U16), (''rsvd1'', Arr U32 9),
     (''qid'', U16), (''rsvd10'', U16), (''rsvd11'', Arr U32 5)]"

definition nvme_command :: ctype where
  "nvme_command = Union [
     (''common'', nvme_common_command), (''rw'', nvme_rw_command), (''identify'', nvme_identify),
     (''features'', nvme_features), (''create_cq'', nvme_create_cq), (''create_sq'', nvme_create_sq),
     (''delete_queue'', nvme_delete_queue)]"

definition nvme_result :: ctype where
  "nvme_result = Union [(''u16'', U16), (''u32'', U32), (''u64'', U64)]"

definition nvme_completion :: ctype where
  "nvme_completion = Struct [
     (''result'', nvme_result), (''sq_head'', U16), (''sq_id'', U16), (''command_id'', U16),
     (''status'', U16)]"

lemmas command_defs =
  nvme_command_def nvme_common_command_def nvme_rw_command_def nvme_identify_def nvme_features_def
  nvme_create_cq_def nvme_create_sq_def nvme_delete_queue_def nvme_data_ptr_def

section \<open>Status codes\<close>

text \<open>Some values have two names: the meaning depends on the command set.\<close>

definition nvme_status_codes :: "(string \<times> u16) list" where
  "nvme_status_codes = [
     (''NVME_SC_SUCCESS'', 0x0), (''NVME_SC_INVALID_OPCODE'', 0x1),
     (''NVME_SC_INVALID_FIELD'', 0x2), (''NVME_SC_CMDID_CONFLICT'', 0x3),
     (''NVME_SC_DATA_XFER_ERROR'', 0x4), (''NVME_SC_POWER_LOSS'', 0x5),
     (''NVME_SC_INTERNAL'', 0x6), (''NVME_SC_ABORT_REQ'', 0x7), (''NVME_SC_ABORT_QUEUE'', 0x8),
     (''NVME_SC_FUSED_FAIL'', 0x9), (''NVME_SC_FUSED_MISSING'', 0xa),
     (''NVME_SC_INVALID_NS'', 0xb), (''NVME_SC_CMD_SEQ_ERROR'', 0xc),
     (''NVME_SC_SGL_INVALID_LAST'', 0xd), (''NVME_SC_SGL_INVALID_COUNT'', 0xe),
     (''NVME_SC_SGL_INVALID_DATA'', 0xf), (''NVME_SC_SGL_INVALID_METADATA'', 0x10),
     (''NVME_SC_SGL_INVALID_TYPE'', 0x11), (''NVME_SC_SGL_INVALID_OFFSET'', 0x16),
     (''NVME_SC_SGL_INVALID_SUBTYPE'', 0x17), (''NVME_SC_SANITIZE_FAILED'', 0x1C),
     (''NVME_SC_SANITIZE_IN_PROGRESS'', 0x1D), (''NVME_SC_NS_WRITE_PROTECTED'', 0x20),
     (''NVME_SC_CMD_INTERRUPTED'', 0x21), (''NVME_SC_LBA_RANGE'', 0x80),
     (''NVME_SC_CAP_EXCEEDED'', 0x81), (''NVME_SC_NS_NOT_READY'', 0x82),
     (''NVME_SC_RESERVATION_CONFLICT'', 0x83), (''NVME_SC_CQ_INVALID'', 0x100),
     (''NVME_SC_QID_INVALID'', 0x101), (''NVME_SC_QUEUE_SIZE'', 0x102),
     (''NVME_SC_ABORT_LIMIT'', 0x103), (''NVME_SC_ABORT_MISSING'', 0x104),
     (''NVME_SC_ASYNC_LIMIT'', 0x105), (''NVME_SC_FIRMWARE_SLOT'', 0x106),
     (''NVME_SC_FIRMWARE_IMAGE'', 0x107), (''NVME_SC_INVALID_VECTOR'', 0x108),
     (''NVME_SC_INVALID_LOG_PAGE'', 0x109), (''NVME_SC_INVALID_FORMAT'', 0x10a),
     (''NVME_SC_FW_NEEDS_CONV_RESET'', 0x10b), (''NVME_SC_INVALID_QUEUE'', 0x10c),
     (''NVME_SC_FEATURE_NOT_SAVEABLE'', 0x10d), (''NVME_SC_FEATURE_NOT_CHANGEABLE'', 0x10e),
     (''NVME_SC_FEATURE_NOT_PER_NS'', 0x10f), (''NVME_SC_FW_NEEDS_SUBSYS_RESET'', 0x110),
     (''NVME_SC_FW_NEEDS_RESET'', 0x111), (''NVME_SC_FW_NEEDS_MAX_TIME'', 0x112),
     (''NVME_SC_FW_ACTIVATE_PROHIBITED'', 0x113), (''NVME_SC_OVERLAPPING_RANGE'', 0x114),
     (''NVME_SC_NS_INSUFFICIENT_CAP'', 0x115), (''NVME_SC_NS_ID_UNAVAILABLE'', 0x116),
     (''NVME_SC_NS_ALREADY_ATTACHED'', 0x118), (''NVME_SC_NS_IS_PRIVATE'', 0x119),
     (''NVME_SC_NS_NOT_ATTACHED'', 0x11a), (''NVME_SC_THIN_PROV_NOT_SUPP'', 0x11b),
     (''NVME_SC_CTRL_LIST_INVALID'', 0x11c), (''NVME_SC_BP_WRITE_PROHIBITED'', 0x11e),
     (''NVME_SC_PMR_SAN_PROHIBITED'', 0x123), (''NVME_SC_BAD_ATTRIBUTES'', 0x180),
     (''NVME_SC_INVALID_PI'', 0x181), (''NVME_SC_READ_ONLY'', 0x182),
     (''NVME_SC_ONCS_NOT_SUPPORTED'', 0x183), (''NVME_SC_CONNECT_FORMAT'', 0x180),
     (''NVME_SC_CONNECT_CTRL_BUSY'', 0x181), (''NVME_SC_CONNECT_INVALID_PARAM'', 0x182),
     (''NVME_SC_CONNECT_RESTART_DISC'', 0x183), (''NVME_SC_CONNECT_INVALID_HOST'', 0x184),
     (''NVME_SC_DISCOVERY_RESTART'', 0x190), (''NVME_SC_AUTH_REQUIRED'', 0x191),
     (''NVME_SC_WRITE_FAULT'', 0x280), (''NVME_SC_READ_ERROR'', 0x281),
     (''NVME_SC_GUARD_CHECK'', 0x282), (''NVME_SC_APPTAG_CHECK'', 0x283),
     (''NVME_SC_REFTAG_CHECK'', 0x284), (''NVME_SC_COMPARE_FAILED'', 0x285),
     (''NVME_SC_ACCESS_DENIED'', 0x286), (''NVME_SC_UNWRITTEN_BLOCK'', 0x287),
     (''NVME_SC_ANA_PERSISTENT_LOSS'', 0x301), (''NVME_SC_ANA_INACCESSIBLE'', 0x302),
     (''NVME_SC_ANA_TRANSITION'', 0x303), (''NVME_SC_HOST_PATH_ERROR'', 0x370),
     (''NVME_SC_HOST_ABORTED_CMD'', 0x371), (''NVME_SC_CRD'', 0x1800), (''NVME_SC_DNR'', 0x4000)]"

section \<open>Sizes and offsets\<close>

lemmas identify_defs = nvme_id_ctrl_def nvme_id_power_state_def nvme_id_ns_def nvme_lbaf_def

lemma size_of_command [simp]: "size_of nvme_command = 64"
  by (simp add: command_defs del: One_nat_def)

lemma size_of_completion [simp]: "size_of nvme_completion = 16"
  by (simp add: nvme_completion_def nvme_result_def del: One_nat_def)

lemma locate_header [simp]:
  "locate nvme_command [''common'', ''opcode''] = Some (0, U8)"
  "locate nvme_command [''rw'', ''opcode''] = Some (0, U8)"
  "locate nvme_command [''identify'', ''opcode''] = Some (0, U8)"
  "locate nvme_command [''features'', ''opcode''] = Some (0, U8)"
  "locate nvme_command [''create_cq'', ''opcode''] = Some (0, U8)"
  "locate nvme_command [''create_sq'', ''opcode''] = Some (0, U8)"
  "locate nvme_command [''common'', ''command_id''] = Some (2, U16)"
  "locate nvme_command [''rw'', ''nsid''] = Some (4, U32)"
  "locate nvme_command [''common'', ''dptr'', ''prp1''] = Some (24, U64)"
  "locate nvme_command [''common'', ''dptr'', ''prp2''] = Some (32, U64)"
  by (simp_all add: command_defs del: One_nat_def)

lemma locate_rw [simp]:
  "locate nvme_command [''rw'', ''slba''] = Some (40, U64)"
  "locate nvme_command [''rw'', ''length''] = Some (48, U16)"
  "locate nvme_command [''rw'', ''control''] = Some (50, U16)"
  "locate nvme_command [''rw'', ''dsmgmt''] = Some (52, U32)"
  by (simp_all add: command_defs del: One_nat_def)

lemma locate_admin [simp]:
  "locate nvme_command [''identify'', ''cns''] = Some (40, U8)"
  "locate nvme_command [''features'', ''fid''] = Some (40, U32)"
  "locate nvme_command [''features'', ''dword11''] = Some (44, U32)"
  "locate nvme_command [''create_cq'', ''prp1''] = Some (24, U64)"
  "locate nvme_command [''create_cq'', ''cqid''] = Some (40, U16)"
  "locate nvme_command [''create_cq'', ''qsize''] = Some (42, U16)"
  "locate nvme_command [''create_cq'', ''cq_flags''] = Some (44, U16)"
  "locate nvme_command [''create_cq'', ''irq_vector''] = Some (46, U16)"
  "locate nvme_command [''create_sq'', ''prp1''] = Some (24, U64)"
  "locate nvme_command [''create_sq'', ''sqid''] = Some (40, U16)"
  "locate nvme_command [''create_sq'', ''qsize''] = Some (42, U16)"
  "locate nvme_command [''create_sq'', ''sq_flags''] = Some (44, U16)"
  "locate nvme_command [''create_sq'', ''cqid''] = Some (46, U16)"
  by (simp_all add: command_defs del: One_nat_def)

lemma locate_completion [simp]:
  "locate nvme_completion [''result'', ''u32''] = Some (0, U32)"
  "locate nvme_completion [''result'', ''u64''] = Some (0, U64)"
  "locate nvme_completion [''sq_head''] = Some (8, U16)"
  "locate nvme_completion [''command_id''] = Some (12, U16)"
  "locate nvme_completion [''status''] = Some (14, U16)"
  by (simp_all add: nvme_completion_def nvme_result_def del: One_nat_def)

lemma distinct_opcodes: "opcode_value a = opcode_value b \<Longrightarrow> a = b"
  by (cases a; cases b) simp_all

lemma size_of_identify:
  "size_of nvme_id_ctrl = 4096" "size_of nvme_id_ns = 4096" "size_of nvme_id_power_state = 32"
  by (simp_all add: identify_defs del: One_nat_def)

text \<open>The command variants, in the order of the union; the first four have a data pointer.\<close>

definition command_variants :: "ctype list" where
  "command_variants = [nvme_common_command, nvme_rw_command, nvme_identify, nvme_features,
     nvme_create_cq, nvme_create_sq, nvme_delete_queue]"

lemma size_of_variants:
  "size_of nvme_common_command = 64" "size_of nvme_rw_command = 64" "size_of nvme_identify = 64"
  "size_of nvme_features = 64" "size_of nvme_create_cq = 64" "size_of nvme_create_sq = 64"
  "size_of nvme_delete_queue = 64"
  by (simp_all add: command_defs del: One_nat_def)

lemma locate_opcode:
  "locate nvme_common_command [''opcode''] = Some (0, U8)" "locate nvme_rw_command [''opcode''] = Some (0, U8)"
  "locate nvme_identify [''opcode''] = Some (0, U8)" "locate nvme_features [''opcode''] = Some (0, U8)"
  "locate nvme_create_cq [''opcode''] = Some (0, U8)" "locate nvme_create_sq [''opcode''] = Some (0, U8)"
  "locate nvme_delete_queue [''opcode''] = Some (0, U8)"
  by (simp_all add: command_defs del: One_nat_def)

lemma locate_command_id:
  "locate nvme_common_command [''command_id''] = Some (2, U16)"
  "locate nvme_rw_command [''command_id''] = Some (2, U16)"
  "locate nvme_identify [''command_id''] = Some (2, U16)"
  "locate nvme_features [''command_id''] = Some (2, U16)"
  "locate nvme_create_cq [''command_id''] = Some (2, U16)"
  "locate nvme_create_sq [''command_id''] = Some (2, U16)"
  "locate nvme_delete_queue [''command_id''] = Some (2, U16)"
  by (simp_all add: command_defs del: One_nat_def)

lemma locate_dptr:
  "locate nvme_common_command [''dptr'', ''prp1''] = Some (24, U64)"
  "locate nvme_rw_command [''dptr'', ''prp1''] = Some (24, U64)"
  "locate nvme_identify [''dptr'', ''prp1''] = Some (24, U64)"
  "locate nvme_features [''dptr'', ''prp1''] = Some (24, U64)"
  "locate nvme_common_command [''dptr'', ''prp2''] = Some (32, U64)"
  "locate nvme_rw_command [''dptr'', ''prp2''] = Some (32, U64)"
  "locate nvme_identify [''dptr'', ''prp2''] = Some (32, U64)"
  "locate nvme_features [''dptr'', ''prp2''] = Some (32, U64)"
  by (simp_all add: command_defs del: One_nat_def)

lemmas variant_facts = size_of_variants locate_opcode locate_command_id locate_dptr

text \<open>Opcodes are ordered by their values.\<close>

instantiation nvme_opcode :: linorder
begin

definition less_eq_nvme_opcode :: "nvme_opcode \<Rightarrow> nvme_opcode \<Rightarrow> bool" where
  "less_eq_nvme_opcode a b \<longleftrightarrow> opcode_value a \<le> opcode_value b"

definition less_nvme_opcode :: "nvme_opcode \<Rightarrow> nvme_opcode \<Rightarrow> bool" where
  "less_nvme_opcode a b \<longleftrightarrow> opcode_value a < opcode_value b"

instance
  by standard
    (auto simp: less_eq_nvme_opcode_def less_nvme_opcode_def dest: distinct_opcodes order.antisym)

end

section \<open>Properties\<close>

text \<open>
  The structures have the sizes the controller assumes: 64-byte commands whatever the variant,
  16-byte completions, 4096 bytes of identify data, 32 per power state; in every command variant
  the opcode is byte 0 and the command identifier bytes 2 and 3, and the data pointer, where there
  is one, starts at byte 24, so that the driver may fill it through \<open>common\<close>.
\<close>

theorem nvme_layouts_fit:
  "size_of nvme_command = 64 \<and> size_of nvme_completion = 16 \<and>
   size_of nvme_id_ctrl = 4096 \<and> size_of nvme_id_ns = 4096 \<and> size_of nvme_id_power_state = 32 \<and>
   map size_of command_variants = [64, 64, 64, 64, 64, 64, 64] \<and>
   map (\<lambda>v. locate v [''opcode'']) command_variants =
     [Some (0, U8), Some (0, U8), Some (0, U8), Some (0, U8), Some (0, U8), Some (0, U8), Some (0, U8)] \<and>
   map (\<lambda>v. locate v [''command_id'']) command_variants =
     [Some (2, U16), Some (2, U16), Some (2, U16), Some (2, U16), Some (2, U16), Some (2, U16), Some (2, U16)] \<and>
   map (\<lambda>v. locate v [''dptr'', ''prp1'']) (take 4 command_variants) =
     [Some (24, U64), Some (24, U64), Some (24, U64), Some (24, U64)] \<and>
   map (\<lambda>v. locate v [''dptr'', ''prp2'']) (take 4 command_variants) =
     [Some (32, U64), Some (32, U64), Some (32, U64), Some (32, U64)]"
  by (intro conjI size_of_command size_of_completion size_of_identify; simp add: command_variants_def variant_facts)

text \<open>
  Masking a status with \<open>0x7ff\<close>, as the driver does, hides no error: of all status codes only
  success itself and the two modifier bits (retry delay and do not retry) are masked to 0.
\<close>

theorem status_mask_sees_errors:
  "filter (\<lambda>(n, v). v AND 0x7ff = 0) nvme_status_codes =
     [(''NVME_SC_SUCCESS'', 0), (''NVME_SC_CRD'', 0x1800), (''NVME_SC_DNR'', 0x4000)]"
  by (simp add: nvme_status_codes_def)

end
