(* ===== verification/NvmeDriver.thy ===== *)
theory NvmeDriver
  imports MemorySpace Nvme PcieLink
begin

text \<open>
  \<^verbatim>\<open>nvme_driver.h\<close> and \<^verbatim>\<open>nvme_driver.cpp\<close>: queues, commands and
  completions of the NVMe driver. Parameters: \<open>ops\<close>, the virtual functions of the link, over its
  state \<open>'l\<close>; \<open>dev\<close>, the other side while the driver waits for a command: it changes link and shared
  memory and raises the interrupt of a vector, or never does again (\<open>None\<close>). A callback is a token
  \<open>'cb\<close>; the driver records the calls in order, with their arguments. A queue is named by its index.
\<close>

section \<open>State\<close>

record nvme_queue =
  sq_dma_addr :: u32
  cq_dma_addr :: u32
  dbbuf_sq_db :: u32
  dbbuf_cq_db :: u32
  depth :: u32
  sqe_shift :: u8
  q_qid :: u16
  sq_tail :: u16
  last_sq_tail :: u16
  cq_head :: u16
  cq_phase :: u8
  q_db :: u32

record 'cb async_command =
  ac_status :: u32
  ac_result :: u64
  ac_completed :: bool
  ac_callback :: "'cb option"
  prp_lists :: "u32 list"

record ('l, 'cb) nvme_driver =
  link :: 'l
  mem :: memory_space
  ncpus :: u32
  queues :: "nvme_queue list"
  queue_count :: size_t
  online_queues :: size_t
  command_id_counter :: u16
  command_map :: "u16 \<Rightarrow> 'cb async_command option"
  ctrl_cap :: u64
  ctrl_config :: u32
  ctrl_page_size :: u32
  queue_depth :: u32
  io_queue_depth :: u32
  db_stride :: u32
  dbbuf_dbs :: u32
  called :: "('cb \<times> u32 \<times> u64) list"

text \<open>\<open>make_unique\<close> sets every field to zero.\<close>

definition new_queue :: nvme_queue where
  "new_queue = \<lparr>sq_dma_addr = 0, cq_dma_addr = 0, dbbuf_sq_db = 0, dbbuf_cq_db = 0, depth = 0,
     sqe_shift = 0, q_qid = 0, sq_tail = 0, last_sq_tail = 0, cq_head = 0, cq_phase = 0, q_db = 0\<rparr>"

definition new_command :: "'cb async_command" where
  "new_command = \<lparr>ac_status = 0, ac_result = 0, ac_completed = False, ac_callback = None, prp_lists = []\<rparr>"

text \<open>A queue by its index in the vector, and its update.\<close>

definition get_queue :: "nat \<Rightarrow> ('l, 'cb) nvme_driver \<Rightarrow> fault + nvme_queue" where
  "get_queue i d = (if i < length (queues d) then Inr (queues d ! i) else Inl UndefinedBehaviour)"

definition set_queue :: "nat \<Rightarrow> nvme_queue \<Rightarrow> ('l, 'cb) nvme_driver \<Rightarrow> ('l, 'cb) nvme_driver" where
  "set_queue i q d = d\<lparr>queues := (queues d)[i := q]\<rparr>"

definition put_mem :: "u32 \<Rightarrow> u8 list \<Rightarrow> ('l, 'cb) nvme_driver \<Rightarrow> fault + ('l, 'cb) nvme_driver" where
  "put_mem addr bs d = bindE (mem_write addr bs (mem d)) (\<lambda>m. Inr (d\<lparr>mem := m\<rparr>))"

definition put_reg ::
    "'l pcie_ops \<Rightarrow> u64 \<Rightarrow> u32 \<Rightarrow> ('l, 'cb) nvme_driver \<Rightarrow> fault + ('l, 'cb) nvme_driver" where
  "put_reg ops addr v d = bindE (writel ops addr v (link d)) (\<lambda>l. Inr (d\<lparr>link := l\<rparr>))"

section \<open>Queues\<close>

definition update_cq_head :: "nvme_queue \<Rightarrow> nvme_queue" where
  "update_cq_head q =
     (let tmp = cq_head q + 1
      in if (ucast tmp :: u32) = depth q then q\<lparr>cq_head := 0, cq_phase := cq_phase q XOR 1\<rparr>
         else q\<lparr>cq_head := tmp\<rparr>)"

definition SQ_SIZE :: "nvme_queue \<Rightarrow> size_t" where
  "SQ_SIZE q = ucast (push_bit (unat (sqe_shift q)) (depth q))"

definition CQ_SIZE :: "nvme_queue \<Rightarrow> size_t" where
  "CQ_SIZE q = ucast (depth q) * of_nat (size_of nvme_completion)"

definition doorbell :: "u32 \<Rightarrow> ('l, 'cb) nvme_driver \<Rightarrow> u32" where
  "doorbell qid d = ucast (reg_offset NVME_REG_DBS) + qid * 8 * db_stride d"

definition allocate_queue :: "u32 \<Rightarrow> u32 \<Rightarrow> ('l, 'cb) nvme_driver \<Rightarrow> fault + ('l, 'cb) nvme_driver" where
  "allocate_queue qid dep d =
     bindE (get_queue (unat qid) d) (\<lambda>q0.
       let q = q0\<lparr>sqe_shift := of_nat (if qid \<noteq> 0 then NVME_NVM_IOSQES else NVME_ADM_SQES), depth := dep\<rparr>
       in bindE (allocate_pages (SQ_SIZE q) (mem d)) (\<lambda>(sq, m1).
          bindE (allocate_pages (CQ_SIZE q) m1) (\<lambda>(cq, m2).
            Inr ((set_queue (unat qid)
                   (q\<lparr>sq_dma_addr := sq, cq_dma_addr := cq, q_qid := ucast qid,
                      q_db := doorbell qid d, cq_phase := 1, cq_head := 0\<rparr>) d)
                 \<lparr>mem := m2, queue_count := queue_count d + 1\<rparr>))))"

definition init_queue :: "u32 \<Rightarrow> ('l, 'cb) nvme_driver \<Rightarrow> fault + ('l, 'cb) nvme_driver" where
  "init_queue qid d =
     bindE (get_queue (unat qid) d) (\<lambda>q0.
       let q1 = q0\<lparr>sq_tail := 0, last_sq_tail := 0, cq_head := 0, q_db := doorbell qid d, cq_phase := 1\<rparr>;
           q = (if dbbuf_dbs d \<noteq> 0 \<and> qid \<noteq> 0
                then q1\<lparr>dbbuf_sq_db := dbbuf_dbs d + qid * 8 * db_stride d,
                        dbbuf_cq_db := dbbuf_dbs d + qid * 8 * db_stride d + 4 * db_stride d\<rparr>
                else q1)
       in bindE (mem_set (cq_dma_addr q) 0 (CQ_SIZE q) (mem d)) (\<lambda>m.
            Inr ((set_queue (unat qid) q d)\<lparr>mem := m, online_queues := online_queues d + 1\<rparr>)))"

section \<open>The controller's registers\<close>

text \<open>\<open>wait_ready\<close> polls the status register; it may poll for ever.\<close>

partial_function (option) poll_ready ::
    "'l pcie_ops \<Rightarrow> u32 \<Rightarrow> 'l \<Rightarrow> (fault + 'l) option" where
  "poll_ready ops ready l =
     (case readl ops (reg_offset NVME_REG_CSTS) l of
        Inl e \<Rightarrow> Some (Inl e)
      | Inr (csts, l') \<Rightarrow>
          if csts = 0xffffffff then Some (Inl (DeviceIOError ''Bad CSTS register value from device''))
          else if csts AND NVME_CSTS_RDY = ready then Some (Inr l')
          else poll_ready ops ready l')"

declare poll_ready.simps [code]

definition wait_ready ::
    "'l pcie_ops \<Rightarrow> bool \<Rightarrow> ('l, 'cb) nvme_driver \<Rightarrow> fault + ('l, 'cb) nvme_driver" where
  "wait_ready ops enabled d =
     (case poll_ready ops (if enabled then NVME_CSTS_RDY else 0) (link d) of
        None \<Rightarrow> Inl Diverges
      | Some r \<Rightarrow> bindE r (\<lambda>l. Inr (d\<lparr>link := l\<rparr>)))"

definition disable_controller ::
    "'l pcie_ops \<Rightarrow> ('l, 'cb) nvme_driver \<Rightarrow> fault + ('l, 'cb) nvme_driver" where
  "disable_controller ops d =
     (let c = ctrl_config d AND NOT NVME_CC_SHN_MASK AND NOT NVME_CC_ENABLE
      in bindE (put_reg ops (reg_offset NVME_REG_CC) c (d\<lparr>ctrl_config := c\<rparr>)) (wait_ready ops False))"

definition shutdown :: "'l pcie_ops \<Rightarrow> ('l, 'cb) nvme_driver \<Rightarrow> fault + ('l, 'cb) nvme_driver" where
  "shutdown ops d =
     (let c = ctrl_config d AND NOT NVME_CC_SHN_MASK OR NVME_CC_SHN_NORMAL
      in put_reg ops (reg_offset NVME_REG_CC) c (d\<lparr>ctrl_config := c\<rparr>))"

definition enable_controller ::
    "'l pcie_ops \<Rightarrow> ('l, 'cb) nvme_driver \<Rightarrow> fault + ('l, 'cb) nvme_driver" where
  "enable_controller ops d =
     bindE (readq ops (reg_offset NVME_REG_CAP) (link d)) (\<lambda>(cap, l).
       let dev_page_min = ucast (NVME_CAP_MPSMIN cap) + 12 :: u32
       in if 12 < dev_page_min then Inl (DeviceIOError ''Unsupported page size from device'')
          else
            let c = NVME_CC_CSS_NVM OR push_bit NVME_CC_MPS_SHIFT (12 - 12) OR
                    (NVME_CC_AMS_RR OR NVME_CC_SHN_NONE) OR (NVME_CC_IOSQES OR NVME_CC_IOCQES) OR
                    NVME_CC_ENABLE
            in bindE (put_reg ops (reg_offset NVME_REG_CC) c
                 (d\<lparr>link := l, ctrl_cap := cap, ctrl_page_size := push_bit 12 1, ctrl_config := c\<rparr>))
                 (wait_ready ops True))"

section \<open>The command table\<close>

text \<open>\<open>emplace\<close> keeps an entry that is there: only the fields set afterwards are overwritten.\<close>

definition setup_async_command ::
    "'cb option \<Rightarrow> ('l, 'cb) nvme_driver \<Rightarrow> u16 \<times> ('l, 'cb) nvme_driver" where
  "setup_async_command cb d =
     (let cid = command_id_counter d;
          cmd = (case command_map d cid of None \<Rightarrow> new_command | Some c \<Rightarrow> c)
      in (cid, d\<lparr>command_id_counter := cid + 1,
                 command_map := (command_map d)(cid \<mapsto> cmd\<lparr>ac_completed := False, ac_callback := cb\<rparr>)\<rparr>))"

text \<open>\<open>erase\<close> runs the destructor of the command, which frees its PRP lists.\<close>

definition remove_async_command ::
    "u16 \<Rightarrow> ('l, 'cb) nvme_driver \<Rightarrow> fault + ('l, 'cb) nvme_driver" where
  "remove_async_command cid d =
     (case command_map d cid of
        None \<Rightarrow> Inr d
      | Some c \<Rightarrow> bindE (foldE (\<lambda>prp m. free_mem prp 0x1000 m) (prp_lists c) (mem d)) (\<lambda>m.
            Inr (d\<lparr>mem := m, command_map := (command_map d)(cid := None)\<rparr>)))"

definition push_prp_list :: "u16 \<Rightarrow> u32 \<Rightarrow> ('l, 'cb) nvme_driver \<Rightarrow> ('l, 'cb) nvme_driver" where
  "push_prp_list cid prp d =
     (case command_map d cid of
        None \<Rightarrow> d
      | Some c \<Rightarrow> d\<lparr>command_map := (command_map d)(cid \<mapsto> c\<lparr>prp_lists := prp_lists c @ [prp]\<rparr>)\<rparr>)"

section \<open>Data pointers\<close>

text \<open>
  A new page for the PRP list of a command, and the chaining of a full page to the next: the last
  entry moves to the new page and is replaced by its address.
\<close>

definition new_prp_list :: "u16 \<Rightarrow> ('l, 'cb) nvme_driver \<Rightarrow> fault + (u32 \<times> ('l, 'cb) nvme_driver)" where
  "new_prp_list cid d =
     bindE (allocate_pages (ucast (ctrl_page_size d)) (mem d)) (\<lambda>(prp, m).
       Inr (prp, push_prp_list cid prp (d\<lparr>mem := m\<rparr>)))"

definition chain_prp_list ::
    "u16 \<Rightarrow> u32 \<Rightarrow> u32 \<Rightarrow> ('l, 'cb) nvme_driver \<Rightarrow> fault + (u32 \<times> ('l, 'cb) nvme_driver)" where
  "chain_prp_list cid old i d =
     bindE (new_prp_list cid d) (\<lambda>(prp, d1).
     bindE (mem_read (old + (i - 1) * 8) 8 (mem d1)) (\<lambda>last_entry.
     bindE (put_mem prp last_entry d1) (\<lambda>d2.
     bindE (put_mem (old + (i - 1) * 8) (le_bytes 8 (ucast prp :: u64)) d2) (\<lambda>d3.
       Inr (prp, d3)))))"

partial_function (option) prp_loop ::
    "u16 \<Rightarrow> u32 \<Rightarrow> u32 \<Rightarrow> u32 \<Rightarrow> size_t \<Rightarrow> ('l, 'cb) nvme_driver \<Rightarrow> (fault + ('l, 'cb) nvme_driver) option" where
  "prp_loop cid prp i buf buflen d =
     (case (if i = drop_bit 3 (ctrl_page_size d) then chain_prp_list cid prp i d else Inr (prp, d)) of
        Inl e \<Rightarrow> Some (Inl e)
      | Inr (prp', d1) \<Rightarrow>
          (case put_mem (prp' + i * 8) (le_bytes 8 (ucast buf :: u64)) d1 of
             Inl e \<Rightarrow> Some (Inl e)
           | Inr d2 \<Rightarrow>
               if buflen \<le> ucast (ctrl_page_size d2) then Some (Inr d2)
               else prp_loop cid prp' (i + 1) (buf + ctrl_page_size d2)
                      (buflen - ucast (ctrl_page_size d2)) d2))"

declare prp_loop.simps [code]

definition setup_buffer ::
    "u16 \<Rightarrow> u8 list \<Rightarrow> u32 \<Rightarrow> size_t \<Rightarrow> ('l, 'cb) nvme_driver \<Rightarrow> fault + (u8 list \<times> ('l, 'cb) nvme_driver)" where
  "setup_buffer cid cmd buf buflen d =
     (let ps = ctrl_page_size d
      in if ps = 0 then Inl UndefinedBehaviour
         else
           let off = buf mod ps
           in if (ucast off :: size_t) + buflen \<le> ucast (ps * 2) then
                let first_prp_len = ps - off;
                    cmd1 = put_member nvme_command [''common'', ''dptr'', ''prp1''] (ucast buf) cmd
                in Inr (if buflen > ucast first_prp_len
                        then put_member nvme_command [''common'', ''dptr'', ''prp2''] (ucast (buf + first_prp_len)) cmd1
                        else cmd1, d)
              else
                bindE (new_prp_list cid d) (\<lambda>(prp, d1).
                  case prp_loop cid prp 0 (buf + (ps - off)) (buflen - ucast (ps - off)) d1 of
                    None \<Rightarrow> Inl Diverges
                  | Some r \<Rightarrow> bindE r (\<lambda>d2.
                      Inr (put_member nvme_command [''common'', ''dptr'', ''prp2''] (ucast prp)
                        (put_member nvme_command [''common'', ''dptr'', ''prp1''] (ucast buf) cmd), d2))))"

section \<open>Submission\<close>

definition write_sq_doorbell ::
    "'l pcie_ops \<Rightarrow> nat \<Rightarrow> bool \<Rightarrow> ('l, 'cb) nvme_driver \<Rightarrow> fault + ('l, 'cb) nvme_driver" where
  "write_sq_doorbell ops qi write_sq d =
     bindE (get_queue qi d) (\<lambda>q.
       let next = sq_tail q + 1;
           next_tail = (if (ucast next :: u32) = depth q then 0 else next)
       in if \<not> write_sq \<and> next_tail \<noteq> last_sq_tail q then Inr d
          else
            let tail = ucast (sq_tail q) :: u32
            in bindE (if dbbuf_sq_db q \<noteq> 0 then put_mem (dbbuf_sq_db q) (le_bytes 4 tail) d
                      else put_reg ops (ucast (q_db q)) tail d) (\<lambda>d1.
                 Inr (set_queue qi (q\<lparr>last_sq_tail := sq_tail q\<rparr>) d1)))"

definition ring_cq_doorbell ::
    "'l pcie_ops \<Rightarrow> nat \<Rightarrow> ('l, 'cb) nvme_driver \<Rightarrow> fault + ('l, 'cb) nvme_driver" where
  "ring_cq_doorbell ops qi d =
     bindE (get_queue qi d) (\<lambda>q.
       let head = ucast (cq_head q) :: u32
       in if dbbuf_cq_db q \<noteq> 0 then put_mem (dbbuf_cq_db q) (le_bytes 4 head) d
          else put_reg ops (ucast (q_db q + 4 * db_stride d)) head d)"

definition submit_sq_command ::
    "'l pcie_ops \<Rightarrow> nat \<Rightarrow> u8 list \<Rightarrow> bool \<Rightarrow> ('l, 'cb) nvme_driver \<Rightarrow> fault + ('l, 'cb) nvme_driver" where
  "submit_sq_command ops qi cmd write_sq d =
     bindE (get_queue qi d) (\<lambda>q.
     bindE (put_mem (sq_dma_addr q + push_bit (unat (sqe_shift q)) (ucast (sq_tail q))) cmd d) (\<lambda>d1.
       let next = sq_tail q + 1
       in write_sq_doorbell ops qi write_sq
            (set_queue qi (q\<lparr>sq_tail := (if (ucast next :: u32) = depth q then 0 else next)\<rparr>) d1)))"

text \<open>
  The common part of \<open>submit_sync_command\<close> and \<open>submit_async_command\<close>: a table entry, its
  identifier in the command, the data pointers, the submission.
\<close>

definition submit_async_command ::
    "'l pcie_ops \<Rightarrow> nat \<Rightarrow> u8 list \<Rightarrow> u32 \<Rightarrow> size_t \<Rightarrow> 'cb option \<Rightarrow> ('l, 'cb) nvme_driver \<Rightarrow>
     fault + (u16 \<times> ('l, 'cb) nvme_driver)" where
  "submit_async_command ops qi cmd buf buflen cb d =
     (let (cid, d1) = setup_async_command cb d;
          cmd1 = put_member nvme_command [''common'', ''command_id''] (ucast cid) cmd
      in bindE (if buflen \<noteq> 0 then setup_buffer cid cmd1 buf buflen d1 else Inr (cmd1, d1)) (\<lambda>(cmd2, d2).
         bindE (submit_sq_command ops qi cmd2 True d2) (\<lambda>d3. Inr (cid, d3))))"

section \<open>Completion\<close>

definition cqe_pending :: "nat \<Rightarrow> ('l, 'cb) nvme_driver \<Rightarrow> fault + bool" where
  "cqe_pending qi d =
     bindE (get_queue qi d) (\<lambda>q.
       if \<not> (ucast (cq_head q) :: u32) < depth q then Inl AssertFailed
       else bindE (mem_read (cq_dma_addr q + ucast (cq_head q) * of_nat (size_of nvme_completion) + 14) 2 (mem d)) (\<lambda>bs.
         Inr (ucast (of_le bs AND 1 :: u16) = cq_phase q)))"

definition handle_cqe :: "nat \<Rightarrow> u16 \<Rightarrow> ('l, 'cb) nvme_driver \<Rightarrow> fault + ('l, 'cb) nvme_driver" where
  "handle_cqe qi idx d =
     bindE (get_queue qi d) (\<lambda>q.
       if \<not> (ucast idx :: u32) < depth q then Inl AssertFailed
       else bindE (mem_read (cq_dma_addr q + ucast idx * of_nat (size_of nvme_completion))
                    (of_nat (size_of nvme_completion)) (mem d)) (\<lambda>cqe.
         let command_id = ucast (get_member nvme_completion [''command_id''] cqe) :: u16;
             status = ucast (drop_bit 1 (get_member nvme_completion [''status''] cqe)) :: u32;
             result = get_member nvme_completion [''result'', ''u64''] cqe
         in case command_map d command_id of
              None \<Rightarrow> Inr d
            | Some c \<Rightarrow>
                (case ac_callback c of
                   Some cb \<Rightarrow> remove_async_command command_id (d\<lparr>called := called d @ [(cb, status, result)]\<rparr>)
                 | None \<Rightarrow> Inr (d\<lparr>command_map := (command_map d)(command_id \<mapsto>
                     c\<lparr>ac_status := status, ac_result := result, ac_completed := True\<rparr>)\<rparr>))))"

text \<open>The loop of \<open>nvme_irq\<close>, with the number of entries found.\<close>

partial_function (option) irq_loop ::
    "nat \<Rightarrow> nat \<Rightarrow> ('l, 'cb) nvme_driver \<Rightarrow> (fault + (nat \<times> ('l, 'cb) nvme_driver)) option" where
  "irq_loop qi found d =
     (case cqe_pending qi d of
        Inl e \<Rightarrow> Some (Inl e)
      | Inr pending \<Rightarrow>
          if pending then
            (case handle_cqe qi (cq_head (queues d ! qi)) d of
               Inl e \<Rightarrow> Some (Inl e)
             | Inr d1 \<Rightarrow> irq_loop qi (found + 1) (set_queue qi (update_cq_head (queues d1 ! qi)) d1))
          else Some (Inr (found, d)))"

declare irq_loop.simps [code]

definition nvme_irq ::
    "'l pcie_ops \<Rightarrow> nat \<Rightarrow> ('l, 'cb) nvme_driver \<Rightarrow> fault + ('l, 'cb) nvme_driver" where
  "nvme_irq ops qi d =
     (case irq_loop qi 0 d of
        None \<Rightarrow> Inl Diverges
      | Some r \<Rightarrow> bindE r (\<lambda>(found, d1). if found \<noteq> 0 then ring_cq_doorbell ops qi d1 else Inr d1))"

text \<open>The interrupt handler that \<open>start\<close> installs: \<open>queues[vector]\<close> is not checked.\<close>

definition irq_entry ::
    "'l pcie_ops \<Rightarrow> u16 \<Rightarrow> ('l, 'cb) nvme_driver \<Rightarrow> fault + ('l, 'cb) nvme_driver" where
  "irq_entry ops vector d =
     (if unat vector < length (queues d) then nvme_irq ops (unat vector) d else Inl UndefinedBehaviour)"

section \<open>Waiting for a command\<close>

type_synonym 'l device = "'l \<times> memory_space \<Rightarrow> ('l \<times> memory_space \<times> u16) option"

text \<open>
  \<open>AsyncCommand::wait\<close>. While the caller sleeps the device works and interrupts; the interrupt
  handler runs in the link's thread.
\<close>

partial_function (option) sleep_until_completed ::
    "'l pcie_ops \<Rightarrow> 'l device \<Rightarrow> u16 \<Rightarrow> ('l, 'cb) nvme_driver \<Rightarrow>
     (fault + ('cb async_command \<times> ('l, 'cb) nvme_driver)) option" where
  "sleep_until_completed ops dev cid d =
     (case command_map d cid of
        None \<Rightarrow> Some (Inl UndefinedBehaviour)
      | Some c \<Rightarrow>
          if ac_completed c then Some (Inr (c, d))
          else
            (case dev (link d, mem d) of
               None \<Rightarrow> Some (Inl Diverges)
             | Some (l, m, vector) \<Rightarrow>
                 (case irq_entry ops vector (d\<lparr>link := l, mem := m\<rparr>) of
                    Inl e \<Rightarrow> Some (Inl e)
                  | Inr d1 \<Rightarrow> sleep_until_completed ops dev cid d1)))"

declare sleep_until_completed.simps [code]

definition wait_command ::
    "'l pcie_ops \<Rightarrow> 'l device \<Rightarrow> u16 \<Rightarrow> ('l, 'cb) nvme_driver \<Rightarrow>
     fault + (u32 \<times> u64 \<times> ('l, 'cb) nvme_driver)" where
  "wait_command ops dev cid d =
     (case sleep_until_completed ops dev cid d of
        None \<Rightarrow> Inl Diverges
      | Some r \<Rightarrow> bindE r (\<lambda>(c, d1).
          bindE (remove_async_command cid d1) (\<lambda>d2. Inr (ac_status c, ac_result c, d2))))"

definition submit_sync_command ::
    "'l pcie_ops \<Rightarrow> 'l device \<Rightarrow> nat \<Rightarrow> u8 list \<Rightarrow> u32 \<Rightarrow> size_t \<Rightarrow> ('l, 'cb) nvme_driver \<Rightarrow>
     fault + (u32 \<times> u64 \<times> ('l, 'cb) nvme_driver)" where
  "submit_sync_command ops dev qi cmd buf buflen d =
     bindE (submit_async_command ops qi cmd buf buflen None d) (\<lambda>(cid, d1). wait_command ops dev cid d1)"

section \<open>Admin commands\<close>

definition zero_command :: "u8 list" where
  "zero_command = replicate 64 0"

definition nvme_set_features ::
    "'l pcie_ops \<Rightarrow> 'l device \<Rightarrow> u8 \<Rightarrow> u32 \<Rightarrow> u32 \<Rightarrow> ('l, 'cb) nvme_driver \<Rightarrow>
     fault + (u32 \<times> u32 \<times> ('l, 'cb) nvme_driver)" where
  "nvme_set_features ops dev opc fid dword11 d =
     (let c = put_member nvme_command [''features'', ''dword11''] (ucast dword11)
                (put_member nvme_command [''features'', ''fid''] (ucast fid)
                  (put_member nvme_command [''features'', ''opcode''] (ucast opc) zero_command))
      in bindE (submit_sync_command ops dev 0 c 0 0 d) (\<lambda>(status, res, d1).
           Inr (status, ucast res, d1)))"

text \<open>\<open>set_queue_count\<close> always reports success; the number comes back in \<open>count\<close>.\<close>

definition set_queue_count ::
    "'l pcie_ops \<Rightarrow> 'l device \<Rightarrow> u32 \<Rightarrow> ('l, 'cb) nvme_driver \<Rightarrow> fault + (u32 \<times> ('l, 'cb) nvme_driver)" where
  "set_queue_count ops dev count d =
     bindE (nvme_set_features ops dev (admin_opcode_value nvme_admin_set_features) NVME_FEAT_NUM_QUEUES
              ((count - 1) OR push_bit 16 (count - 1)) d) (\<lambda>(status, result, d1).
       if status > 0 then Inr (0, d1)
       else
         let nioqs = min (result AND 0xffff) (drop_bit 16 result) + 1
         in Inr (if sint nioqs < sint count then nioqs else count, d1))"

definition dbbuf_config ::
    "'l pcie_ops \<Rightarrow> 'l device \<Rightarrow> ('l, 'cb) nvme_driver \<Rightarrow> fault + ('l, 'cb) nvme_driver" where
  "dbbuf_config ops dev d =
     (let c = put_member nvme_command [''common'', ''dptr'', ''prp1''] (ucast (dbbuf_dbs d))
                (put_member nvme_command [''common'', ''opcode''] (ucast (admin_opcode_value nvme_admin_dbbuf)) zero_command)
      in bindE (submit_sync_command ops dev 0 c 0 0 d) (\<lambda>(status, res, d1).
           if status \<noteq> 0 then Inl (DeviceIOError ''Failed to set dbbuf on device'') else Inr d1))"

definition create_cq_command :: "nvme_queue \<Rightarrow> u32 \<Rightarrow> u32 \<Rightarrow> u8 list" where
  "create_cq_command q qid vector =
     put_member nvme_command [''create_cq'', ''irq_vector''] (ucast vector)
      (put_member nvme_command [''create_cq'', ''cq_flags''] (ucast NVME_QUEUE_PHYS_CONTIG)
       (put_member nvme_command [''create_cq'', ''qsize''] (ucast (depth q - 1))
        (put_member nvme_command [''create_cq'', ''cqid''] (ucast qid)
         (put_member nvme_command [''create_cq'', ''prp1''] (ucast (cq_dma_addr q))
          (put_member nvme_command [''create_cq'', ''opcode''] (ucast (admin_opcode_value nvme_admin_create_cq))
             zero_command)))))"

definition create_sq_command :: "nvme_queue \<Rightarrow> u32 \<Rightarrow> u8 list" where
  "create_sq_command q qid =
     put_member nvme_command [''create_sq'', ''cqid''] (ucast qid)
      (put_member nvme_command [''create_sq'', ''sq_flags''] (ucast NVME_QUEUE_PHYS_CONTIG)
       (put_member nvme_command [''create_sq'', ''qsize''] (ucast (depth q - 1))
        (put_member nvme_command [''create_sq'', ''sqid''] (ucast qid)
         (put_member nvme_command [''create_sq'', ''prp1''] (ucast (sq_dma_addr q))
          (put_member nvme_command [''create_sq'', ''opcode''] (ucast (admin_opcode_value nvme_admin_create_sq))
             zero_command)))))"

text \<open>\<open>create_queue\<close>: first the completion queue, then the submission queue, then the driver's side.\<close>

definition create_queue ::
    "'l pcie_ops \<Rightarrow> 'l device \<Rightarrow> u32 \<Rightarrow> ('l, 'cb) nvme_driver \<Rightarrow> fault + (u32 \<times> ('l, 'cb) nvme_driver)" where
  "create_queue ops dev qid d =
     bindE (get_queue (unat qid) d) (\<lambda>q.
     bindE (submit_sync_command ops dev 0 (create_cq_command q qid qid) 0 0 d) (\<lambda>(status, res, d1).
       if status \<noteq> 0 then Inr (status, d1)
       else bindE (submit_sync_command ops dev 0 (create_sq_command q qid) 0 0 d1) (\<lambda>(status2, res2, d2).
         if status2 \<noteq> 0 then Inr (status2, d2)
         else bindE (init_queue qid d2) (\<lambda>d3. Inr (0, d3)))))"

definition identify_controller ::
    "'l pcie_ops \<Rightarrow> 'l device \<Rightarrow> ('l, 'cb) nvme_driver \<Rightarrow> fault + (u32 \<times> ('l, 'cb) nvme_driver)" where
  "identify_controller ops dev d =
     (let c = put_member nvme_command [''identify'', ''cns''] (ucast (cns_code NVME_ID_CNS_CTRL))
                (put_member nvme_command [''identify'', ''opcode''] (ucast (admin_opcode_value nvme_admin_identify)) zero_command);
          n = of_nat (size_of nvme_id_ctrl) :: size_t
      in bindE (allocate_pages n (mem d)) (\<lambda>(id_buf, m).
         bindE (submit_sync_command ops dev 0 c id_buf n (d\<lparr>mem := m\<rparr>)) (\<lambda>(status, res, d1).
         bindE (free_mem id_buf n (mem d1)) (\<lambda>m1. Inr (status, d1\<lparr>mem := m1\<rparr>)))))"

section \<open>Bringing the controller up\<close>

definition setup_admin_queue ::
    "'l pcie_ops \<Rightarrow> ('l, 'cb) nvme_driver \<Rightarrow> fault + ('l, 'cb) nvme_driver" where
  "setup_admin_queue ops d =
     bindE (disable_controller ops d) (\<lambda>d1.
     bindE (allocate_queue 0 NVME_AQ_DEPTH d1) (\<lambda>d2.
     bindE (get_queue 0 d2) (\<lambda>q.
       let aqa0 = depth q - 1; aqa = aqa0 OR push_bit 16 aqa0
       in bindE (put_reg ops (reg_offset NVME_REG_AQA) aqa d2) (\<lambda>d3.
          bindE (writeq ops (reg_offset NVME_REG_ASQ) (ucast (sq_dma_addr q)) (link d3)) (\<lambda>l1.
          bindE (writeq ops (reg_offset NVME_REG_ACQ) (ucast (cq_dma_addr q)) l1) (\<lambda>l2.
          bindE (enable_controller ops (d3\<lparr>link := l2\<rparr>)) (init_queue 0)))))))"

text \<open>The loop that creates the queues stops at the first one the device refuses.\<close>

primrec create_queues ::
    "'l pcie_ops \<Rightarrow> 'l device \<Rightarrow> nat list \<Rightarrow> ('l, 'cb) nvme_driver \<Rightarrow> fault + ('l, 'cb) nvme_driver" where
  "create_queues ops dev [] d = Inr d"
| "create_queues ops dev (i # is) d =
     bindE (create_queue ops dev (of_nat i) d) (\<lambda>(status, d1).
       if status \<noteq> 0 then Inr d1 else create_queues ops dev is d1)"

definition setup_io_queues ::
    "'l pcie_ops \<Rightarrow> 'l device \<Rightarrow> ('l, 'cb) nvme_driver \<Rightarrow> fault + ('l, 'cb) nvme_driver" where
  "setup_io_queues ops dev d =
     bindE (set_queue_count ops dev (of_nat (length (queues d)) - 1) d) (\<lambda>(nr, d1).
       if nr = 0 then Inl (DeviceIOError ''Failed to set queue count on device'')
       else bindE (foldE (\<lambda>i. allocate_queue (of_nat i) (queue_depth d1)) [unat (queue_count d1)..<unat nr + 1] d1) (\<lambda>d2.
         let max_qs = min (queue_count d2 - 1) (ucast nr)
         in create_queues ops dev [unat (online_queues d2)..<unat max_qs + 1] d2))"

definition reset ::
    "'l pcie_ops \<Rightarrow> 'l device \<Rightarrow> ('l, 'cb) nvme_driver \<Rightarrow> fault + ('l, 'cb) nvme_driver" where
  "reset ops dev d =
     bindE (readq ops (reg_offset NVME_REG_CAP) (link d)) (\<lambda>(cap, l).
       let mqes = ucast (NVME_CAP_MQES cap + 1) :: u32;
           d1 = d\<lparr>link := l, ctrl_cap := cap,
                  queue_depth := (if sint (io_queue_depth d) < sint mqes then io_queue_depth d else mqes),
                  db_stride := push_bit (unat (NVME_CAP_STRIDE cap)) 1\<rparr>
       in bindE (setup_admin_queue ops d1) (\<lambda>d2.
          bindE (identify_controller ops dev d2) (\<lambda>(status, d3).
          bindE (setup_io_queues ops dev d3) (\<lambda>d4.
            if dbbuf_dbs d4 \<noteq> 0 then dbbuf_config ops dev d4 else Inr d4))))"

text \<open>
  The constructor; the configuration register and the identifier counter start with what the memory
  held. \<open>start\<close>: \<open>send_cfg\<close> and \<open>await\<close> are the link's \<open>send_config\<close> and
  \<open>wait_for_device_ready\<close>.
\<close>

definition NVMeDriver ::
    "u32 \<Rightarrow> u32 \<Rightarrow> 'l \<Rightarrow> memory_space \<Rightarrow> bool \<Rightarrow> u32 \<Rightarrow> u16 \<Rightarrow> fault + ('l, 'cb) nvme_driver" where
  "NVMeDriver cpus io_depth l m use_dbbuf raw_config raw_counter =
     bindE
       (if use_dbbuf then
          bindE (allocate 0x1000 1 m) (\<lambda>(a, m1). bindE (mem_set a 0 0x1000 m1) (\<lambda>m2. Inr (a, m2)))
        else Inr (0, m))
       (\<lambda>(dbs, m').
          Inr \<lparr>link = l, mem = m', ncpus = cpus, queues = [], queue_count = 0, online_queues = 0,
               command_id_counter = raw_counter, command_map = (\<lambda>i. None), ctrl_cap = 0,
               ctrl_config = raw_config, ctrl_page_size = 0, queue_depth = 0, io_queue_depth = io_depth,
               db_stride = 0, dbbuf_dbs = dbs, called = []\<rparr>)"

definition start ::
    "'l pcie_ops \<Rightarrow> 'l device \<Rightarrow> ('l \<Rightarrow> fault + 'l) \<Rightarrow> ('l \<Rightarrow> fault + 'l) \<Rightarrow>
     ('l, 'cb) nvme_driver \<Rightarrow> fault + ('l, 'cb) nvme_driver" where
  "start ops dev send_cfg await d =
     bindE (send_cfg (link d)) (\<lambda>l1.
     bindE (await l1) (\<lambda>l2.
       reset ops dev (d\<lparr>link := l2, queues := queues d @ replicate (unat (ncpus d + 1)) new_queue\<rparr>)))"

text \<open>The queue of the calling thread.\<close>

definition set_thread_id :: "u32 \<Rightarrow> ('l, 'cb) nvme_driver \<Rightarrow> fault + nat" where
  "set_thread_id thread_id d =
     (if unat thread_id < length (queues d) then Inr (unat thread_id) else Inl AssertFailed)"

section \<open>Reading and writing blocks\<close>

text \<open>\<open>pos\<close> is signed; sizes and positions count pages of 4096 bytes.\<close>

definition rw_command :: "bool \<Rightarrow> u32 \<Rightarrow> u64 \<Rightarrow> size_t \<Rightarrow> u8 list" where
  "rw_command do_write nsid pos sz =
     put_member nvme_command [''rw'', ''dsmgmt''] 0
      (put_member nvme_command [''rw'', ''control''] 0
       (put_member nvme_command [''rw'', ''length''] (drop_bit 12 sz - 1)
        (put_member nvme_command [''rw'', ''slba''] (signed_drop_bit 12 pos)
         (put_member nvme_command [''rw'', ''nsid''] (ucast nsid)
          (put_member nvme_command [''rw'', ''opcode'']
             (ucast (opcode_value (if do_write then nvme_cmd_write else nvme_cmd_read))) zero_command)))))"

definition submit_rw_command ::
    "'l pcie_ops \<Rightarrow> nat option \<Rightarrow> bool \<Rightarrow> u32 \<Rightarrow> u64 \<Rightarrow> u32 \<Rightarrow> size_t \<Rightarrow> 'cb option \<Rightarrow>
     ('l, 'cb) nvme_driver \<Rightarrow> fault + (u16 \<times> ('l, 'cb) nvme_driver)" where
  "submit_rw_command ops thread_io_queue do_write nsid pos buf sz cb d =
     (case thread_io_queue of
        None \<Rightarrow> Inl UndefinedBehaviour
      | Some qi \<Rightarrow> submit_async_command ops qi (rw_command do_write nsid pos sz) buf sz cb d)"

definition read_async ::
    "'l pcie_ops \<Rightarrow> nat option \<Rightarrow> u32 \<Rightarrow> u64 \<Rightarrow> u32 \<Rightarrow> size_t \<Rightarrow> 'cb \<Rightarrow>
     ('l, 'cb) nvme_driver \<Rightarrow> fault + ('l, 'cb) nvme_driver" where
  "read_async ops tq nsid pos buf sz cb d = map_sum (\<lambda>e. e) snd (submit_rw_command ops tq False nsid pos buf sz (Some cb) d)"

definition write_async ::
    "'l pcie_ops \<Rightarrow> nat option \<Rightarrow> u32 \<Rightarrow> u64 \<Rightarrow> u32 \<Rightarrow> size_t \<Rightarrow> 'cb \<Rightarrow>
     ('l, 'cb) nvme_driver \<Rightarrow> fault + ('l, 'cb) nvme_driver" where
  "write_async ops tq nsid pos buf sz cb d = map_sum (\<lambda>e. e) snd (submit_rw_command ops tq True nsid pos buf sz (Some cb) d)"

text \<open>The blocking calls; \<open>write\<close> passes \<open>false\<close>, as \<open>read\<close> does.\<close>

definition nvme_read ::
    "'l pcie_ops \<Rightarrow> 'l device \<Rightarrow> nat option \<Rightarrow> u32 \<Rightarrow> u64 \<Rightarrow> u32 \<Rightarrow> size_t \<Rightarrow>
     ('l, 'cb) nvme_driver \<Rightarrow> fault + ('l, 'cb) nvme_driver" where
  "nvme_read ops dev tq nsid pos buf sz d =
     bindE (submit_rw_command ops tq False nsid pos buf sz None d) (\<lambda>(cid, d1).
     bindE (wait_command ops dev cid d1) (\<lambda>(status, res, d2).
       if status AND 0x7ff = 0 then Inr d2 else Inl (DeviceIOError ''Read command error'')))"

definition nvme_write ::
    "'l pcie_ops \<Rightarrow> 'l device \<Rightarrow> nat option \<Rightarrow> u32 \<Rightarrow> u64 \<Rightarrow> u32 \<Rightarrow> size_t \<Rightarrow>
     ('l, 'cb) nvme_driver \<Rightarrow> fault + ('l, 'cb) nvme_driver" where
  "nvme_write ops dev tq nsid pos buf sz d =
     bindE (submit_rw_command ops tq False nsid pos buf sz None d) (\<lambda>(cid, d1).
     bindE (wait_command ops dev cid d1) (\<lambda>(status, res, d2).
       if status AND 0x7ff = 0 then Inr d2 else Inl (DeviceIOError ''Read command error'')))"

end
