(* ===== verification/NvmeNames.thy ===== *)
theory NvmeNames
  imports NvmeDriver
begin

text \<open>
  The enumerations of \<^verbatim>\<open>nvme.h\<close> as tables of names and values: the bits of the configuration and
  status registers, namespace flags, queue flags, features, log pages and firmware actions. Theory Nvme
  defines those the driver uses; the lemmas say that they agree, that names of the same kind have
  different values, and that the controller reads from the configuration that the driver writes the
  entry sizes of its queues.
\<close>

section \<open>Tables\<close>

definition nvme_register_bits :: "(string \<times> u32) list" where
  "nvme_register_bits = [
     (''NVME_CC_ENABLE'', push_bit 0 1), (''NVME_CC_CSS_NVM'', push_bit 4 0), (''NVME_CC_EN_SHIFT'', 0),
     (''NVME_CC_CSS_SHIFT'', 4), (''NVME_CC_MPS_SHIFT'', 7), (''NVME_CC_AMS_SHIFT'', 11),
     (''NVME_CC_SHN_SHIFT'', 14), (''NVME_CC_IOSQES_SHIFT'', 16), (''NVME_CC_IOCQES_SHIFT'', 20),
     (''NVME_CC_AMS_RR'', push_bit NVME_CC_AMS_SHIFT 0),
     (''NVME_CC_AMS_WRRU'', push_bit NVME_CC_AMS_SHIFT 1),
     (''NVME_CC_AMS_VS'', push_bit NVME_CC_AMS_SHIFT 7),
     (''NVME_CC_SHN_NONE'', push_bit NVME_CC_SHN_SHIFT 0),
     (''NVME_CC_SHN_NORMAL'', push_bit NVME_CC_SHN_SHIFT 1),
     (''NVME_CC_SHN_ABRUPT'', push_bit NVME_CC_SHN_SHIFT 2),
     (''NVME_CC_SHN_MASK'', push_bit NVME_CC_SHN_SHIFT 3),
     (''NVME_CC_IOSQES'', push_bit NVME_CC_IOSQES_SHIFT (of_nat NVME_NVM_IOSQES)),
     (''NVME_CC_IOCQES'', push_bit NVME_CC_IOCQES_SHIFT (of_nat NVME_NVM_IOCQES)),
     (''NVME_CSTS_RDY'', push_bit 0 1), (''NVME_CSTS_CFS'', push_bit 1 1),
     (''NVME_CSTS_NSSRO'', push_bit 4 1), (''NVME_CSTS_PP'', push_bit 5 1),
     (''NVME_CSTS_SHST_NORMAL'', push_bit 2 0), (''NVME_CSTS_SHST_OCCUR'', push_bit 2 1),
     (''NVME_CSTS_SHST_CMPLT'', push_bit 2 2), (''NVME_CSTS_SHST_MASK'', push_bit 2 3)]"

definition nvme_namespace_flags :: "(string \<times> u32) list" where
  "nvme_namespace_flags = [
     (''NVME_NS_FEAT_THIN'', push_bit 0 1), (''NVME_NS_FLBAS_LBA_MASK'', 0xf),
     (''NVME_NS_FLBAS_META_EXT'', 0x10), (''NVME_LBAF_RP_BEST'', 0), (''NVME_LBAF_RP_BETTER'', 1),
     (''NVME_LBAF_RP_GOOD'', 2), (''NVME_LBAF_RP_DEGRADED'', 3), (''NVME_NS_DPC_PI_LAST'', push_bit 4 1),
     (''NVME_NS_DPC_PI_FIRST'', push_bit 3 1), (''NVME_NS_DPC_PI_TYPE3'', push_bit 2 1),
     (''NVME_NS_DPC_PI_TYPE2'', push_bit 1 1), (''NVME_NS_DPC_PI_TYPE1'', push_bit 0 1),
     (''NVME_NS_DPS_PI_FIRST'', push_bit 3 1), (''NVME_NS_DPS_PI_MASK'', 0x7),
     (''NVME_NS_DPS_PI_TYPE1'', 1), (''NVME_NS_DPS_PI_TYPE2'', 2), (''NVME_NS_DPS_PI_TYPE3'', 3)]"

definition nvme_queue_flags :: "(string \<times> u32) list" where
  "nvme_queue_flags = [
     (''NVME_QUEUE_PHYS_CONTIG'', push_bit 0 1), (''NVME_CQ_IRQ_ENABLED'', push_bit 1 1),
     (''NVME_SQ_PRIO_URGENT'', push_bit 1 0), (''NVME_SQ_PRIO_HIGH'', push_bit 1 1),
     (''NVME_SQ_PRIO_MEDIUM'', push_bit 1 2), (''NVME_SQ_PRIO_LOW'', push_bit 1 3)]"

definition nvme_feature_ids :: "(string \<times> u32) list" where
  "nvme_feature_ids = [
     (''NVME_FEAT_ARBITRATION'', 0x01), (''NVME_FEAT_POWER_MGMT'', 0x02), (''NVME_FEAT_LBA_RANGE'', 0x03),
     (''NVME_FEAT_TEMP_THRESH'', 0x04), (''NVME_FEAT_ERR_RECOVERY'', 0x05),
     (''NVME_FEAT_VOLATILE_WC'', 0x06), (''NVME_FEAT_NUM_QUEUES'', 0x07),
     (''NVME_FEAT_IRQ_COALESCE'', 0x08), (''NVME_FEAT_IRQ_CONFIG'', 0x09),
     (''NVME_FEAT_WRITE_ATOMIC'', 0x0a), (''NVME_FEAT_ASYNC_EVENT'', 0x0b), (''NVME_FEAT_AUTO_PST'', 0x0c),
     (''NVME_FEAT_HOST_MEM_BUF'', 0x0d), (''NVME_FEAT_TIMESTAMP'', 0x0e), (''NVME_FEAT_KATO'', 0x0f),
     (''NVME_FEAT_HCTM'', 0x10), (''NVME_FEAT_NOPSC'', 0x11), (''NVME_FEAT_RRL'', 0x12),
     (''NVME_FEAT_PLM_CONFIG'', 0x13), (''NVME_FEAT_PLM_WINDOW'', 0x14),
     (''NVME_FEAT_HOST_BEHAVIOR'', 0x16), (''NVME_FEAT_SANITIZE'', 0x17),
     (''NVME_FEAT_SW_PROGRESS'', 0x80), (''NVME_FEAT_HOST_ID'', 0x81), (''NVME_FEAT_RESV_MASK'', 0x82),
     (''NVME_FEAT_RESV_PERSIST'', 0x83), (''NVME_FEAT_WRITE_PROTECT'', 0x84)]"

definition nvme_log_pages :: "(string \<times> u32) list" where
  "nvme_log_pages = [
     (''NVME_LOG_ERROR'', 0x01), (''NVME_LOG_SMART'', 0x02), (''NVME_LOG_FW_SLOT'', 0x03),
     (''NVME_LOG_CHANGED_NS'', 0x04), (''NVME_LOG_CMD_EFFECTS'', 0x05),
     (''NVME_LOG_DEVICE_SELF_TEST'', 0x06), (''NVME_LOG_TELEMETRY_HOST'', 0x07),
     (''NVME_LOG_TELEMETRY_CTRL'', 0x08), (''NVME_LOG_ENDURANCE_GROUP'', 0x09), (''NVME_LOG_ANA'', 0x0c),
     (''NVME_LOG_DISC'', 0x70), (''NVME_LOG_RESERVATION'', 0x80)]"

definition nvme_firmware_actions :: "(string \<times> u32) list" where
  "nvme_firmware_actions = [
     (''NVME_FWACT_REPL'', push_bit 3 0), (''NVME_FWACT_REPL_ACTV'', push_bit 3 1),
     (''NVME_FWACT_ACTV'', push_bit 3 2)]"

definition NVME_IDENTIFY_DATA_SIZE :: nat where
  "NVME_IDENTIFY_DATA_SIZE = 4096"

section \<open>What they say\<close>

lemma register_bits_agree:
  "map_of nvme_register_bits ''NVME_CC_ENABLE'' = Some NVME_CC_ENABLE"
  "map_of nvme_register_bits ''NVME_CC_CSS_NVM'' = Some NVME_CC_CSS_NVM"
  "map_of nvme_register_bits ''NVME_CC_SHN_NORMAL'' = Some NVME_CC_SHN_NORMAL"
  "map_of nvme_register_bits ''NVME_CC_SHN_MASK'' = Some NVME_CC_SHN_MASK"
  "map_of nvme_register_bits ''NVME_CC_IOSQES'' = Some NVME_CC_IOSQES"
  "map_of nvme_register_bits ''NVME_CC_IOCQES'' = Some NVME_CC_IOCQES"
  "map_of nvme_register_bits ''NVME_CSTS_RDY'' = Some NVME_CSTS_RDY"
  "map_of nvme_queue_flags ''NVME_QUEUE_PHYS_CONTIG'' = Some NVME_QUEUE_PHYS_CONTIG"
  "map_of nvme_feature_ids ''NVME_FEAT_NUM_QUEUES'' = Some NVME_FEAT_NUM_QUEUES"
  by code_simp+

lemma names_apart:
  "distinct (map snd nvme_feature_ids)" "distinct (map snd nvme_log_pages)" "distinct (map snd nvme_firmware_actions)"
  "distinct (map fst nvme_register_bits)" "distinct (map fst nvme_namespace_flags)" "distinct (map fst nvme_queue_flags)"
  by code_simp+

text \<open>
  The identify commands transfer \<open>NVME_IDENTIFY_DATA_SIZE\<close> bytes, for the controller as for a namespace.
\<close>

lemma identify_data_size: "size_of nvme_id_ctrl = NVME_IDENTIFY_DATA_SIZE" "size_of nvme_id_ns = NVME_IDENTIFY_DATA_SIZE"
  by (simp_all add: size_of_identify NVME_IDENTIFY_DATA_SIZE_def)

text \<open>
  The fields of the configuration that \<open>enable_controller\<close> writes, as the controller reads them:
  enabled, pages of 4096 bytes, no shutdown, queue entries of the sizes of commands and completions.
\<close>

lemma configuration_read_back:
  fixes c :: u32
  defines "c \<equiv> NVME_CC_CSS_NVM OR push_bit NVME_CC_MPS_SHIFT (12 - 12) OR (NVME_CC_AMS_RR OR NVME_CC_SHN_NONE) OR
    (NVME_CC_IOSQES OR NVME_CC_IOCQES) OR NVME_CC_ENABLE"
  shows "c AND NVME_CC_ENABLE = 1" "2 ^ (12 + unat (drop_bit NVME_CC_MPS_SHIFT c AND 0xf)) = (4096 :: nat)"
    "c AND NVME_CC_SHN_MASK = 0"
    "2 ^ unat (drop_bit NVME_CC_IOSQES_SHIFT c AND 0xf) = size_of nvme_command"
    "2 ^ unat (drop_bit NVME_CC_IOCQES_SHIFT c AND 0xf) = size_of nvme_completion"
  unfolding c_def by code_simp+

text \<open>The first four variants have a data pointer.\<close>

lemma variants_agree:
  "\<forall>v \<in> set command_variants. size_of v = size_of nvme_command \<and>
     locate v [''opcode''] = locate nvme_common_command [''opcode''] \<and>
     locate v [''command_id''] = locate nvme_common_command [''command_id'']"
  "\<forall>v \<in> set (take 4 command_variants).
     locate v [''dptr'', ''prp1''] = locate nvme_common_command [''dptr'', ''prp1''] \<and>
     locate v [''dptr'', ''prp2''] = locate nvme_common_command [''dptr'', ''prp2'']"
  by (simp_all add: command_variants_def variant_facts)

lemma enable_controller_writes:
  assumes "enable_controller ops d = Inr d'"
  shows "ctrl_config d' = NVME_CC_CSS_NVM OR push_bit NVME_CC_MPS_SHIFT (12 - 12) OR (NVME_CC_AMS_RR OR NVME_CC_SHN_NONE) OR
      (NVME_CC_IOSQES OR NVME_CC_IOCQES) OR NVME_CC_ENABLE"
    "ctrl_page_size d' = 4096" "\<exists>l1 l2. writel ops (reg_offset NVME_REG_CC) (ctrl_config d') l1 = Inr l2"
  using assms unfolding enable_controller_def Let_def put_reg_def wait_ready_def
  by (auto simp: bindE_Inr_iff split: if_splits option.splits) (blast intro: exI)+

text \<open>
  C39: driver and controller agree on the data they exchange: when the controller has been enabled, the
  configuration written to it says pages of the driver's page size, submission entries of the size of
  a command and completion entries of the size of a completion, without a shutdown; the identify
  data have the size of their structures, and in every command variant opcode, identifier and data
  pointer are where \<open>common\<close>, through which the driver fills them, has them.
\<close>

theorem enabled_controller_agrees:
  assumes "enable_controller ops d = Inr d'"
  shows "(\<exists>l1 l2. writel ops (reg_offset NVME_REG_CC) (ctrl_config d') l1 = Inr l2) \<and>
    ctrl_config d' AND NVME_CC_ENABLE = 1 \<and> ctrl_config d' AND NVME_CC_SHN_MASK = 0 \<and>
    2 ^ (12 + unat (drop_bit NVME_CC_MPS_SHIFT (ctrl_config d') AND 0xf)) = unat (ctrl_page_size d') \<and>
    2 ^ unat (drop_bit NVME_CC_IOSQES_SHIFT (ctrl_config d') AND 0xf) = size_of nvme_command \<and>
    2 ^ unat (drop_bit NVME_CC_IOCQES_SHIFT (ctrl_config d') AND 0xf) = size_of nvme_completion \<and>
    size_of nvme_id_ctrl = NVME_IDENTIFY_DATA_SIZE \<and> size_of nvme_id_ns = NVME_IDENTIFY_DATA_SIZE \<and>
    (\<forall>v \<in> set command_variants. size_of v = size_of nvme_command \<and>
       locate v [''opcode''] = locate nvme_common_command [''opcode''] \<and>
       locate v [''command_id''] = locate nvme_common_command [''command_id'']) \<and>
    (\<forall>v \<in> set (take 4 command_variants).
       locate v [''dptr'', ''prp1''] = locate nvme_common_command [''dptr'', ''prp1''] \<and>
       locate v [''dptr'', ''prp2''] = locate nvme_common_command [''dptr'', ''prp2''])"
  using configuration_read_back identify_data_size variants_agree enable_controller_writes(3) [OF assms]
  unfolding enable_controller_writes(1,2) [OF assms] by simp

text \<open>A controller whose registers all read one: enabled, ready, with the smallest page size.\<close>

definition ones_ops :: "u32 list pcie_ops" where
  "ones_ops = \<lparr>read_from_device = (\<lambda>a n vs. Inr (le_bytes (unat n) (1 :: u64), vs)),
     write_to_device = (\<lambda>a bs vs. Inr (vs @ [of_le bs]))\<rparr>"

definition ones_driver :: "memory_space \<Rightarrow> (u32 list, nat) nvme_driver" where
  "ones_driver m = \<lparr>link = [], mem = m, ncpus = 1, queues = [], queue_count = 0, online_queues = 0,
     command_id_counter = 0, command_map = (\<lambda>i. None), ctrl_cap = 0, ctrl_config = 0, ctrl_page_size = 0,
     queue_depth = 0, io_queue_depth = 4, db_stride = 1, dbbuf_dbs = 0, called = []\<rparr>"

lemma ones_regs:
  "readq ones_ops a vs = Inr (1, vs)" "readl ones_ops a vs = Inr (1, vs)" "writel ones_ops a v vs = Inr (vs @ [v])"
proof -
  have "le_bytes 8 (1 :: u64) = [1, 0, 0, 0, 0, 0, 0, 0]" "le_bytes 4 (1 :: u64) = [1, 0, 0, 0]" by code_simp+
  moreover have "of_le [1, 0, 0, 0, 0, 0, 0, 0] = (1 :: u64)" "of_le [1, 0, 0, 0] = (1 :: u32)" by code_simp+
  ultimately show "readq ones_ops a vs = Inr (1, vs)" "readl ones_ops a vs = Inr (1, vs)"
    "writel ones_ops a v vs = Inr (vs @ [v])"
    by (simp_all add: ones_ops_def readq_def readl_def writel_def)
qed

theorem enabled_controller_agrees_witness:
  "\<forall>m. \<exists>d'. enable_controller ones_ops (ones_driver m) = Inr d' \<and> link d' = [0x460001] \<and>
     2 ^ unat (drop_bit NVME_CC_IOSQES_SHIFT (ctrl_config d') AND 0xf) = size_of nvme_command"
proof
  fix m
  have poll: "poll_ready ones_ops NVME_CSTS_RDY vs = Some (Inr vs)" for vs
    by (subst poll_ready.simps) (simp add: ones_regs NVME_CSTS_RDY_def)
  have "\<exists>d'. enable_controller ones_ops (ones_driver m) = Inr d' \<and> link d' = [0x460001]"
    by (simp add: enable_controller_def ones_driver_def put_reg_def ones_regs wait_ready_def poll NVME_CAP_MPSMIN_def
        Let_def NVME_CC_CSS_NVM_def NVME_CC_AMS_RR_def NVME_CC_SHN_NONE_def NVME_CC_IOSQES_def NVME_CC_IOCQES_def
        NVME_CC_ENABLE_def NVME_CC_IOSQES_SHIFT_def NVME_CC_IOCQES_SHIFT_def NVME_NVM_IOSQES_def NVME_NVM_IOCQES_def)
  then show "\<exists>d'. enable_controller ones_ops (ones_driver m) = Inr d' \<and> link d' = [0x460001] \<and>
     2 ^ unat (drop_bit NVME_CC_IOSQES_SHIFT (ctrl_config d') AND 0xf) = size_of nvme_command"
    using enabled_controller_agrees by blast
qed

end
