(* ===== verification/NvmeCompletion.thy ===== *)
theory NvmeCompletion
  imports NvmeDriver HoleTable
begin

text \<open>
  Lemmas and properties of the completion side of the driver (theory NvmeDriver): the position of
  the completion queue's head as a counter that never wraps, the loop of \<open>nvme_irq\<close>, and what
  a completion does to the command it names.
\<close>

section \<open>The head of a completion queue\<close>

text \<open>
  After \<open>n\<close> entries of a queue of \<open>dep\<close> entries the head is \<open>n mod dep\<close>, and the phase says whether
  the number of rounds is even.
\<close>

definition phase_at :: "nat \<Rightarrow> nat \<Rightarrow> nat" where
  "phase_at dep n = (if even (n div dep) then 1 else 0)"

definition cq_at :: "nat \<Rightarrow> nat \<Rightarrow> nvme_queue \<Rightarrow> bool" where
  "cq_at dep n q \<longleftrightarrow> depth q = of_nat dep \<and> cq_head q = of_nat (n mod dep) \<and> cq_phase q = of_nat (phase_at dep n)"

lemma Suc_div_mod:
  assumes "0 < dep"
  shows "Suc n mod dep = (if n mod dep + 1 = dep then 0 else n mod dep + 1)"
    and "Suc n div dep = (if n mod dep + 1 = dep then n div dep + 1 else n div dep)"
  using assms by (auto simp: mod_Suc div_Suc)

lemma update_cq_head_at:
  assumes "cq_at dep n q" "0 < dep" "dep < 2 ^ 16"
  shows "cq_at dep (Suc n) (update_cq_head q)"
proof -
  let ?h = "n mod dep"
  have h: "?h < dep" using assms(2) by simp
  have tmp: "(of_nat ?h :: u16) + 1 = of_nat (?h + 1)" by simp
  have "unat (of_nat (?h + 1) :: u16) = ?h + 1" using h assms(3) by (intro unat_of_nat_lt) simp
  then have "unat (ucast (of_nat (?h + 1) :: u16) :: u32) = ?h + 1" by (subst unat_ucast_up) simp_all
  moreover have "unat (of_nat dep :: u32) = dep" using assms(3) by (intro unat_of_nat_lt) simp
  ultimately have wrap: "(ucast (of_nat (?h + 1) :: u16) :: u32) = of_nat dep \<longleftrightarrow> ?h + 1 = dep"
    by (metis word_unat_eq_iff)
  have wrap': "(ucast ((of_nat ?h :: u16) + 1) :: u32) = of_nat dep \<longleftrightarrow> ?h + 1 = dep"
    unfolding tmp by (rule wrap)
  show ?thesis
    using assms(1) wrap' unfolding cq_at_def update_cq_head_def phase_at_def Let_def
    by (auto simp: Suc_div_mod [OF assms(2)])
qed

lemma update_cq_head_same [simp]:
  "depth (update_cq_head q) = depth q" "cq_dma_addr (update_cq_head q) = cq_dma_addr q"
  by (simp_all add: update_cq_head_def Let_def)

section \<open>Pending entries\<close>

text \<open>Whether the entry at position \<open>n\<close> of the queue at \<open>base\<close> is new, by its phase bit.\<close>

definition new_entry :: "memory_space \<Rightarrow> u32 \<Rightarrow> nat \<Rightarrow> nat \<Rightarrow> bool" where
  "new_entry m base dep n \<longleftrightarrow>
     (case mem_read (base + of_nat (n mod dep) * 16 + 14) 2 m of
        Inl e \<Rightarrow> False
      | Inr bs \<Rightarrow> (of_le bs AND 1 :: u16) = of_nat (phase_at dep n))"

lemma and_1_cases: "(x AND 1 :: 'a::len word) = 0 \<or> x AND 1 = 1"
  by (simp add: and_one_eq mod2_eq_if)

lemma new_entry_next_round:
  assumes "0 < dep"
  shows "\<not> (new_entry m base dep n \<and> new_entry m base dep (n + dep))"
proof -
  have "(n + dep) mod dep = n mod dep" by simp
  moreover have "(n + dep) div dep = Suc (n div dep)" using div_add_self2 [of dep n] assms by simp
  then have "(of_nat (phase_at dep (n + dep)) :: u16) \<noteq> of_nat (phase_at dep n)"
    by (simp add: phase_at_def)
  ultimately show ?thesis by (auto simp: new_entry_def split: sum.splits)
qed

lemma same_mem_read: "same_mem m m' \<Longrightarrow> mem_read a n m' = mem_read a n m"
  by (simp add: same_mem_def mem_read_def in_map_def)

lemma cqe_pending_at:
  assumes "qi < length (queues d)" "cq_at dep n (queues d ! qi)" "0 < dep" "dep < 2 ^ 16"
    and "same_mem m (mem d)" "cqe_pending qi d = Inr p"
  shows "p \<longleftrightarrow> new_entry m (cq_dma_addr (queues d ! qi)) dep n"
proof -
  let ?q = "queues d ! qi"
  have head: "(ucast (cq_head ?q) :: u32) = of_nat (n mod dep)"
    using assms(2,3,4) mod_less_divisor [OF assms(3), of n]
    by (simp add: cq_at_def word_unat_eq_iff unat_ucast_up unat_of_nat_lt)
  have phase: "(ucast x :: u8) = of_nat (phase_at dep n) \<longleftrightarrow> x = of_nat (phase_at dep n)"
    if "x = 0 \<or> x = 1" for x :: u16
    using that by (auto simp: phase_at_def)
  obtain bs where bs: "mem_read (cq_dma_addr ?q + of_nat (n mod dep) * 16 + 14) 2 (mem d) = Inr bs"
    "p = (ucast (of_le bs AND 1 :: u16) = cq_phase ?q)"
    using assms(1,6) head by (auto simp: cqe_pending_def get_queue_def bindE_Inr_iff split: if_splits)
  then show ?thesis
    using assms(2) phase [OF and_1_cases] same_mem_read [OF assms(5)]
    by (simp add: new_entry_def cq_at_def)
qed

section \<open>Handling a completion\<close>

lemma remove_async_command_frame:
  assumes "remove_async_command cid d = Inr d'"
  shows "queues d' = queues d" "same_mem (mem d) (mem d')" "link d' = link d" "called d' = called d"
    "db_stride d' = db_stride d" "command_map d' = (command_map d)(cid := None)"
proof -
  have frees: "foldE (\<lambda>prp m. free_mem prp 0x1000 m) prps m = Inr m' \<Longrightarrow> same_mem m m'" for prps m m'
    by (induction prps arbitrary: m)
      (auto simp: bindE_Inr_iff dest!: free_mem_same_mem intro: same_mem_trans)
  show "queues d' = queues d" "same_mem (mem d) (mem d')" "link d' = link d" "called d' = called d"
    "db_stride d' = db_stride d" "command_map d' = (command_map d)(cid := None)"
    using assms by (auto simp: remove_async_command_def bindE_Inr_iff fun_upd_idem_iff split: option.splits dest: frees)
qed

text \<open>A completion of no command, of a command somebody waits for, and of one with a callback.\<close>

lemma handle_cqe_cases:
  assumes "handle_cqe qi idx d = Inr d'"
  obtains "d' = d" | cmds where "d' = d\<lparr>command_map := cmds\<rparr>"
    | cid log where "remove_async_command cid (d\<lparr>called := log\<rparr>) = Inr d'"
proof -
  obtain cqe where run: "(let command_id = ucast (get_member nvme_completion [''command_id''] cqe) :: u16;
             status = ucast (drop_bit 1 (get_member nvme_completion [''status''] cqe)) :: u32;
             result = get_member nvme_completion [''result'', ''u64''] cqe
         in case command_map d command_id of
              None \<Rightarrow> Inr d
            | Some c \<Rightarrow>
                (case ac_callback c of
                   Some cb \<Rightarrow> remove_async_command command_id (d\<lparr>called := called d @ [(cb, status, result)]\<rparr>)
                 | None \<Rightarrow> Inr (d\<lparr>command_map := (command_map d)(command_id \<mapsto>
                     c\<lparr>ac_status := status, ac_result := result, ac_completed := True\<rparr>)\<rparr>))) = Inr d'"
    using assms by (auto simp: handle_cqe_def bindE_Inr_iff split: if_splits)
  define cid :: u16 where "cid = ucast (get_member nvme_completion [''command_id''] cqe)"
  show thesis
  proof (cases "command_map d cid")
    case None
    with run have "d' = d" by (simp add: cid_def Let_def)
    then show thesis by (rule that(1))
  next
    case (Some c)
    show thesis
    proof (cases "ac_callback c")
      case None
      with run Some that(2) show thesis by (auto simp: cid_def Let_def)
    next
      case cb: (Some cb)
      with run Some that(3) [of cid] show thesis by (auto simp: cid_def Let_def)
    qed
  qed
qed

lemma handle_cqe_frame:
  assumes "handle_cqe qi idx d = Inr d'"
  shows "queues d' = queues d \<and> same_mem (mem d) (mem d') \<and> link d' = link d \<and> db_stride d' = db_stride d"
  using assms by (rule handle_cqe_cases) (auto dest: remove_async_command_frame)

section \<open>The interrupt loop ends\<close>

lemma irq_loop_unfold:
  "irq_loop qi found d =
     (case cqe_pending qi d of
        Inl e \<Rightarrow> Some (Inl e)
      | Inr pending \<Rightarrow>
          if pending then
            (case handle_cqe qi (cq_head (queues d ! qi)) d of
               Inl e \<Rightarrow> Some (Inl e)
             | Inr d1 \<Rightarrow> irq_loop qi (found + 1) (set_queue qi (update_cq_head (queues d1 ! qi)) d1))
          else Some (Inr (found, d)))"
  by (rule irq_loop.simps)

lemma irq_loop_returns:
  assumes "qi < length (queues d)" "cq_at dep n (queues d ! qi)" "0 < dep" "dep < 2 ^ 16"
    and "same_mem m (mem d)" "\<not> new_entry m (cq_dma_addr (queues d ! qi)) dep (n + k)"
  shows "\<exists>r. irq_loop qi found d = Some r \<and>
    (\<forall>f d'. r = Inr (f, d') \<longrightarrow> (\<exists>j \<le> k. f = found + j \<and> cq_at dep (n + j) (queues d' ! qi) \<and>
       (\<forall>i < j. new_entry m (cq_dma_addr (queues d ! qi)) dep (n + i)) \<and>
       cqe_pending qi d' = Inr False \<and> same_mem m (mem d') \<and> length (queues d') = length (queues d)))"
  using assms
proof (induction k arbitrary: n found d)
  case 0
  show ?case
  proof (cases "cqe_pending qi d")
    case (Inl e)
    then show ?thesis by (subst irq_loop_unfold) simp
  next
    case (Inr p)
    then have "\<not> p" using cqe_pending_at [OF 0(1-5) Inr] 0(6) by simp
    with Inr 0 show ?thesis by (subst irq_loop_unfold) auto
  qed
next
  case (Suc k)
  let ?q = "queues d ! qi"
  show ?case
  proof (cases "cqe_pending qi d")
    case (Inl e)
    then show ?thesis by (subst irq_loop_unfold) simp
  next
    case (Inr p)
    note p = cqe_pending_at [OF Suc.prems(1-5) Inr]
    show ?thesis
    proof (cases p)
      case False
      with Inr Suc.prems show ?thesis by (subst irq_loop_unfold) auto
    next
      case True
      show ?thesis
      proof (cases "handle_cqe qi (cq_head ?q) d")
        case (Inl e)
        with Inr True show ?thesis by (subst irq_loop_unfold) simp
      next
        case (Inr d1)
        define d2 where "d2 = set_queue qi (update_cq_head (queues d1 ! qi)) d1"
        have same: "queues d1 = queues d" "same_mem (mem d) (mem d1)" using handle_cqe_frame [OF Inr] by auto
        have q2: "queues d2 ! qi = update_cq_head ?q" "length (queues d2) = length (queues d)" "mem d2 = mem d1"
          using same Suc.prems(1) by (simp_all add: d2_def set_queue_def)
        have next2: "cq_at dep (Suc n) (queues d2 ! qi)"
          using update_cq_head_at [OF Suc.prems(2-4)] q2 by simp
        have "\<exists>r. irq_loop qi (found + 1) d2 = Some r \<and>
            (\<forall>f d'. r = Inr (f, d') \<longrightarrow> (\<exists>j \<le> k. f = found + 1 + j \<and> cq_at dep (Suc n + j) (queues d' ! qi) \<and>
               (\<forall>i < j. new_entry m (cq_dma_addr (queues d2 ! qi)) dep (Suc n + i)) \<and>
               cqe_pending qi d' = Inr False \<and> same_mem m (mem d') \<and> length (queues d') = length (queues d2)))"
          using Suc.prems(1,3-6) q2 next2 same_mem_trans [OF Suc.prems(5) same(2)]
          by (intro Suc.IH) simp_all
        then obtain r where r: "irq_loop qi (found + 1) d2 = Some r" and
          post: "\<And>f d'. r = Inr (f, d') \<Longrightarrow> \<exists>j \<le> k. f = found + 1 + j \<and> cq_at dep (Suc n + j) (queues d' ! qi) \<and>
               (\<forall>i < j. new_entry m (cq_dma_addr ?q) dep (Suc n + i)) \<and>
               cqe_pending qi d' = Inr False \<and> same_mem m (mem d') \<and> length (queues d') = length (queues d)"
          using q2 by auto
        have "irq_loop qi found d = Some r"
          using \<open>cqe_pending qi d = Inr p\<close> True Inr r by (subst irq_loop_unfold) (simp add: d2_def)
        moreover have "\<exists>j \<le> Suc k. f = found + j \<and> cq_at dep (n + j) (queues d' ! qi) \<and>
            (\<forall>i < j. new_entry m (cq_dma_addr ?q) dep (n + i)) \<and>
            cqe_pending qi d' = Inr False \<and> same_mem m (mem d') \<and> length (queues d') = length (queues d)"
          if run: "r = Inr (f, d')" for f d'
        proof -
          obtain j where j: "j \<le> k" "f = found + 1 + j" "cq_at dep (Suc n + j) (queues d' ! qi)"
            "\<forall>i < j. new_entry m (cq_dma_addr ?q) dep (Suc n + i)"
            "cqe_pending qi d' = Inr False" "same_mem m (mem d')" "length (queues d') = length (queues d)"
            using post [OF run] by blast
          have "new_entry m (cq_dma_addr ?q) dep (n + i)" if "i < Suc j" for i
            using that j(4) p True by (cases i) auto
          with j show ?thesis by (intro exI [of _ "Suc j"]) auto
        qed
        ultimately show ?thesis by blast
      qed
    qed
  qed
qed

section \<open>Properties\<close>


definition sample_queue :: nvme_queue where
  "sample_queue = new_queue\<lparr>sq_dma_addr := 0x1000, cq_dma_addr := 0x2000, depth := 4, sqe_shift := 6,
     cq_head := 3, cq_phase := 1, q_db := 0x1000\<rparr>"

definition sample_driver :: "(unit, nat) nvme_driver" where
  "sample_driver = \<lparr>link = (), mem = MemorySpace 0 0x8000 (\<lambda>i. 0), ncpus = 1, queues = [sample_queue],
     queue_count = 1, online_queues = 1, command_id_counter = 0, command_map = (\<lambda>i. None), ctrl_cap = 0,
     ctrl_config = 0, ctrl_page_size = 0x1000, queue_depth = 4, io_queue_depth = 4, db_stride = 1,
     dbbuf_dbs = 0, called = []\<rparr>"


end
