(* ===== verification/MemoryAccess.thy ===== *)
theory MemoryAccess
  imports HoleTable AllocClient
begin

text \<open>
  Reading and writing inside the mapping, over natural addresses: \<open>load\<close> and \<open>store\<close> are the
  effect of \<open>read\<close> and \<open>write\<close> (theory MemorySpace) on a range that is mapped as a whole. The
  driver's proofs use these equations instead of the 32-bit offsets.
\<close>

definition mapped :: "memory_space \<Rightarrow> nat set" where
  "mapped m = {unat (iova_base m)..<unat (iova_base m) + unat (map_size m)}"

definition load :: "memory_space \<Rightarrow> nat \<Rightarrow> nat \<Rightarrow> u8 list" where
  "load m x n = peek_bytes (bytes m) (x - unat (iova_base m)) n"

definition store :: "nat \<Rightarrow> u8 list \<Rightarrow> memory_space \<Rightarrow> memory_space" where
  "store x bs m = m\<lparr>bytes := poke_bytes (x - unat (iova_base m)) bs (bytes m)\<rparr>"

lemma store_sel [simp]:
  "iova_base (store x bs m) = iova_base m" "map_size (store x bs m) = map_size m"
  "mapped (store x bs m) = mapped m"
  "hole_tab (store x bs m) = hole_tab m" "hole_head (store x bs m) = hole_head m"
  "free_slots (store x bs m) = free_slots m"
  by (simp_all add: store_def mapped_def)

lemma length_load [simp]: "length (load m x n) = n"
  by (simp add: load_def peek_bytes_def)

lemma block_mapped:
  assumes "block a n \<subseteq> mapped m" "0 < n"
  shows "unat (a - iova_base m) = unat a - unat (iova_base m)"
    "unat (iova_base m) \<le> unat a" "unat a + n \<le> unat (iova_base m) + unat (map_size m)"
proof -
  have "unat a \<in> block a n" "unat a + n - 1 \<in> block a n" using assms(2) by (auto simp: block_def)
  then have in_m: "unat a \<in> mapped m" "unat a + n - 1 \<in> mapped m" using assms(1) by blast+
  then show le: "unat (iova_base m) \<le> unat a" by (simp add: mapped_def)
  then show "unat (a - iova_base m) = unat a - unat (iova_base m)"
    by (intro unat_sub_le) (simp add: word_le_nat_alt)
  show "unat a + n \<le> unat (iova_base m) + unat (map_size m)" using in_m(2) assms(2) by (auto simp: mapped_def)
qed

lemma in_map_mapped:
  assumes "block a n \<subseteq> mapped m" "0 < n" "unat len = n"
  shows "in_map a len m"
proof -
  note b = block_mapped [OF assms(1,2)]
  have "unat (ucast (a - iova_base m) + len) = unat a - unat (iova_base m) + n"
    using b assms(3) le_less_trans [OF _ unat_lt_exp [of "map_size m"], of "unat a - unat (iova_base m) + n"]
    by (subst unat_add_lt) (simp_all add: unat_ucast_up)
  moreover have "unat a - unat (iova_base m) < unat (map_size m)"
    "unat a - unat (iova_base m) + n \<le> unat (map_size m)"
    using b(2,3) assms(2) by arith+
  ultimately show ?thesis
    using b(1) by (simp add: in_map_def word_less_nat_alt word_le_nat_alt unat_ucast_up)
qed

lemma mem_read_mapped:
  assumes "block a n \<subseteq> mapped m" "0 < n" "unat len = n"
  shows "mem_read a len m = Inr (load m (unat a) n)"
  using in_map_mapped [OF assms] block_mapped [OF assms(1,2)] assms(3)
  by (simp add: mem_read_def load_def)

lemma mem_write_mapped:
  assumes "block a (length bs) \<subseteq> mapped m" "bs \<noteq> []" "length bs < 2 ^ 64"
  shows "mem_write a bs m = Inr (store (unat a) bs m)"
proof -
  have "unat (of_nat (length bs) :: size_t) = length bs" using assms(3) by (intro unat_of_nat_lt) simp
  then have "in_map a (of_nat (length bs)) m" using assms(1,2) by (intro in_map_mapped) simp_all
  with block_mapped [OF assms(1)] assms(2) show ?thesis by (simp add: mem_write_def store_def)
qed

lemma load_store_same: "load (store x bs m) x (length bs) = bs"
  by (rule nth_equalityI) (simp_all add: load_def store_def peek_bytes_def poke_bytes_def)

lemma load_store_other:
  assumes "unat (iova_base m) \<le> x" "unat (iova_base m) \<le> y" "x + length bs \<le> y \<or> y + n \<le> x"
  shows "load (store x bs m) y n = load m y n"
  using assms by (auto simp: load_def store_def peek_bytes_def poke_bytes_def)

lemma load_same_mem: "same_mem m m' \<Longrightarrow> load m' x n = load m x n \<and> mapped m' = mapped m"
  by (simp add: same_mem_def load_def mapped_def)

end
