(* ===== verification/NvmeSubmit.thy ===== *)
theory NvmeSubmit
  imports NvmeDriver MemoryAccess MemoryContracts
begin

text \<open>
  Lemmas and properties of the submission side of the driver (theory NvmeDriver): the data pointers
  of a command against the way a controller reads them, the placing of a command in its queue, the
  contents of the read and write commands.
\<close>

section \<open>PRP lists\<close>

text \<open>What the loop of \<open>setup_buffer\<close> writes while the list stays within one page.\<close>

primrec put_entries :: "nat \<Rightarrow> u32 \<Rightarrow> nat \<Rightarrow> memory_space \<Rightarrow> memory_space" where
  "put_entries x buf 0 m = m"
| "put_entries x buf (Suc c) m = put_entries (x + 8) (buf + 0x1000) c (store x (le_bytes 8 (ucast buf :: u64)) m)"

lemma put_entries_sel [simp]:
  "iova_base (put_entries x buf c m) = iova_base m" "mapped (put_entries x buf c m) = mapped m"
  "hole_tab (put_entries x buf c m) = hole_tab m" "hole_head (put_entries x buf c m) = hole_head m"
  "free_slots (put_entries x buf c m) = free_slots m"
  by (induction c arbitrary: x buf m) simp_all

lemma load_put_entries_before:
  "unat (iova_base m) \<le> y \<Longrightarrow> y + n \<le> x \<Longrightarrow> load (put_entries x buf c m) y n = load m y n"
  by (induction c arbitrary: x buf m) (simp_all add: load_store_other)

lemma load_put_entries:
  assumes "unat (iova_base m) \<le> x" "j < c"
  shows "load (put_entries x buf c m) (x + 8 * j) 8 = le_bytes 8 (ucast (buf + of_nat j * 0x1000) :: u64)"
  using assms
proof (induction c arbitrary: x buf m j)
  case (Suc c)
  show ?case
  proof (cases j)
    case 0
    have "load (put_entries (x + 8) (buf + 0x1000) c (store x (le_bytes 8 (ucast buf :: u64)) m)) x 8 =
        load (store x (le_bytes 8 (ucast buf :: u64)) m) x 8"
      using Suc.prems by (intro load_put_entries_before) simp_all
    then show ?thesis using 0 load_store_same [of x "le_bytes 8 (ucast buf :: u64)" m] by simp
  next
    case (Suc j')
    then show ?thesis
      using Suc.IH [of "store x (le_bytes 8 (ucast buf :: u64)) m" "x + 8" j' "buf + 0x1000"] Suc.prems
      by (simp add: algebra_simps)
  qed
qed simp

lemma prp_loop_unfold:
  "prp_loop cid prp i buf buflen d =
     (case (if i = drop_bit 3 (ctrl_page_size d) then chain_prp_list cid prp i d else Inr (prp, d)) of
        Inl e \<Rightarrow> Some (Inl e)
      | Inr (prp', d1) \<Rightarrow>
          (case put_mem (prp' + i * 8) (le_bytes 8 (ucast buf :: u64)) d1 of
             Inl e \<Rightarrow> Some (Inl e)
           | Inr d2 \<Rightarrow>
               if buflen \<le> ucast (ctrl_page_size d2) then Some (Inr d2)
               else prp_loop cid prp' (i + 1) (buf + ctrl_page_size d2)
                      (buflen - ucast (ctrl_page_size d2)) d2))"
  by (rule prp_loop.simps)

lemma put_mem_mapped:
  "block a (length bs) \<subseteq> mapped (mem d) \<Longrightarrow> bs \<noteq> [] \<Longrightarrow> length bs < 2 ^ 64 \<Longrightarrow>
   put_mem a bs d = Inr (d\<lparr>mem := store (unat a) bs (mem d)\<rparr>)"
  by (simp add: put_mem_def mem_write_mapped)

lemma prp_loop_fills:
  assumes "ctrl_page_size d = 0x1000" "block prp 0x1000 \<subseteq> mapped (mem d)" "unat prp + 0x1000 \<le> 2 ^ 32"
    and "unat i + c \<le> 512" "unat buflen \<le> c * 0x1000" "(c - 1) * 0x1000 < unat buflen"
  shows "prp_loop cid prp i buf buflen d =
    Some (Inr (d\<lparr>mem := put_entries (unat prp + 8 * unat i) buf c (mem d)\<rparr>))"
  using assms
proof (induction c arbitrary: i buf buflen d)
  case 0
  then show ?case by simp
next
  case (Suc c)
  have i: "unat i < 512" using Suc.prems(4) by simp
  then have no_chain: "i \<noteq> drop_bit 3 (ctrl_page_size d)" using Suc.prems(1) by (auto simp: word_less_nat_alt)
  have "unat (i * 8) = unat i * 8" using i by (subst unat_mult_lem [THEN iffD1]) simp_all
  then have addr: "unat (prp + i * 8) = unat prp + 8 * unat i"
    using i Suc.prems(3) by (subst unat_add_lt) simp_all
  have blk: "block (prp + i * 8) (length (le_bytes 8 (ucast buf :: u64))) \<subseteq> mapped (mem d)"
    using Suc.prems(2) i addr by (fastforce simp: block_def)
  let ?d2 = "d\<lparr>mem := store (unat prp + 8 * unat i) (le_bytes 8 (ucast buf :: u64)) (mem d)\<rparr>"
  have put: "put_mem (prp + i * 8) (le_bytes 8 (ucast buf :: u64)) d = Inr ?d2"
    using put_mem_mapped [OF blk] addr by simp
  have last: "buflen \<le> ucast (ctrl_page_size ?d2) \<longleftrightarrow> unat buflen \<le> 0x1000"
    using Suc.prems(1) by (simp add: word_le_nat_alt)
  show ?case
  proof (cases "unat buflen \<le> 0x1000")
    case True
    then have "c = 0" using Suc.prems(6) by (cases c) simp_all
    then show ?thesis using True last no_chain put by (subst prp_loop_unfold) simp
  next
    case False
    then have c: "0 < c" using Suc.prems(5) by (cases c) simp_all
    have rest: "unat (buflen - 0x1000) = unat buflen - 0x1000"
      using False by (subst unat_sub_le) (simp_all add: word_le_nat_alt)
    have inc: "unat (i + 1) = Suc (unat i)" using i by (subst unat_add_lt) simp_all
    have "prp_loop cid prp i buf buflen d = prp_loop cid prp (i + 1) (buf + 0x1000) (buflen - 0x1000) ?d2"
      using False last no_chain put Suc.prems(1) by (subst prp_loop_unfold) simp
    also have "\<dots> = Some (Inr (?d2\<lparr>mem := put_entries (unat prp + 8 * unat (i + 1)) (buf + 0x1000) c (mem ?d2)\<rparr>))"
    proof (rule Suc.IH)
      show "(c - 1) * 0x1000 < unat (buflen - 0x1000)" using Suc.prems(6) c rest by (cases c) simp_all
    qed (use Suc.prems rest inc in simp_all)
    finally show ?thesis using inc by (simp add: algebra_simps)
  qed
qed

section \<open>The controller's view of the data pointers\<close>

text \<open>
  The pages a buffer spans, as the NVMe specification orders them: the buffer's own address first,
  then the page boundaries behind it. With at most two of them both are in the command; with more,
  the second pointer is the address of a list of 8-byte entries.
\<close>

definition pages_spanned :: "u32 \<Rightarrow> size_t \<Rightarrow> nat" where
  "pages_spanned buf len = (unat buf mod 0x1000 + unat len + 0xFFF) div 0x1000"

definition page_addr :: "u32 \<Rightarrow> nat \<Rightarrow> nat" where
  "page_addr buf k = (if k = 0 then unat buf else (unat buf div 0x1000 + k) * 0x1000)"

definition controller_prps :: "memory_space \<Rightarrow> u8 list \<Rightarrow> nat \<Rightarrow> u64 list" where
  "controller_prps m cmd n =
     (let prp1 = get_member nvme_command [''common'', ''dptr'', ''prp1''] cmd;
          prp2 = get_member nvme_command [''common'', ''dptr'', ''prp2''] cmd
      in if n \<le> 1 then [prp1]
         else if n = 2 then [prp1, prp2]
         else prp1 # map (\<lambda>k. of_le (load m (unat prp2 + 8 * k) 8)) [0..<n - 1])"

lemma page_bounds:
  assumes "0 < unat len" "n = pages_spanned buf len"
  shows "unat buf mod 0x1000 + unat len \<le> n * 0x1000" "(n - 1) * 0x1000 < unat buf mod 0x1000 + unat len" "0 < n"
  using assms unfolding pages_spanned_def by simp_all

lemma page_addr_less:
  assumes "0 < unat len" "k < pages_spanned buf len"
  shows "page_addr buf k < unat buf + unat len"
proof -
  have "k * 0x1000 < unat buf mod 0x1000 + unat len"
    using page_bounds(2) [OF assms(1) refl, of buf] assms(2) by simp
  moreover have "unat buf = 0x1000 * (unat buf div 0x1000) + unat buf mod 0x1000" by simp
  ultimately have "(unat buf div 0x1000 + k) * 0x1000 < unat buf + unat len"
    unfolding distrib_right by linarith
  then show ?thesis using assms(1) by (simp add: page_addr_def)
qed

lemma unat_page:
  assumes "0 < unat len" "unat buf + unat len \<le> 2 ^ 32" "Suc j < pages_spanned buf len"
  shows "unat (buf + (0x1000 - buf mod 0x1000) + of_nat j * 0x1000) = page_addr buf (Suc j)"
proof -
  have "unat (buf mod 0x1000) = unat buf mod 0x1000" by (simp add: unat_mod)
  then have m: "of_nat (unat buf mod 0x1000) = buf mod 0x1000" by (metis of_nat_unat ucast_id)
  have le: "unat buf mod 0x1000 \<le> 0x1000" by simp
  have "buf + (0x1000 - buf mod 0x1000) + of_nat j * 0x1000 =
      of_nat (unat buf + (0x1000 - unat buf mod 0x1000) + j * 0x1000)"
    using m by (simp add: of_nat_diff [OF le])
  also have "unat buf + (0x1000 - unat buf mod 0x1000) + j * 0x1000 = page_addr buf (Suc j)"
  proof -
    have "unat buf = 0x1000 * (unat buf div 0x1000) + unat buf mod 0x1000" by simp
    then have "unat buf + (0x1000 - unat buf mod 0x1000) + j * 0x1000 =
        0x1000 * (unat buf div 0x1000) + 0x1000 + j * 0x1000"
      using le by linarith
    then show ?thesis by (simp add: page_addr_def)
  qed
  finally show ?thesis
    using page_addr_less [OF assms(1,3)] assms(2) by (simp add: unat_of_nat_lt del: of_nat_add)
qed

abbreviation put_prp1 :: "u64 \<Rightarrow> u8 list \<Rightarrow> u8 list" where
  "put_prp1 \<equiv> put_member nvme_command [''common'', ''dptr'', ''prp1'']"

abbreviation put_prp2 :: "u64 \<Rightarrow> u8 list \<Rightarrow> u8 list" where
  "put_prp2 \<equiv> put_member nvme_command [''common'', ''dptr'', ''prp2'']"

lemma get_put_prps:
  assumes "length cmd = 64"
  shows "get_member nvme_command [''common'', ''dptr'', ''prp1''] (put_prp1 v cmd) = v"
    "get_member nvme_command [''common'', ''dptr'', ''prp1''] (put_prp2 w (put_prp1 v cmd)) = v"
    "get_member nvme_command [''common'', ''dptr'', ''prp2''] (put_prp2 w (put_prp1 v cmd)) = w"
    "length (put_prp1 v cmd) = 64" "length (put_prp2 w (put_prp1 v cmd)) = 64"
  using assms
  by (simp_all add: get_put_member [where off = 24 and t = U64] get_put_member [where off = 32 and t = U64]
      get_put_member_other [where off = 32 and t = U64 and off' = 24 and t' = U64] take_bit_full)

text \<open>The tests of \<open>setup_buffer\<close> in terms of the number of pages.\<close>

lemma setup_buffer_tests:
  assumes "0 < unat buflen" "unat buf + unat buflen \<le> 2 ^ 32"
  shows "(ucast (buf mod 0x1000) :: size_t) + buflen \<le> ucast (0x1000 * 2 :: u32) \<longleftrightarrow>
      pages_spanned buf buflen \<le> 2"
    "buflen > ucast (0x1000 - buf mod 0x1000) \<longleftrightarrow> 2 \<le> pages_spanned buf buflen"
    "2 < pages_spanned buf buflen \<Longrightarrow> unat (buflen - ucast (0x1000 - buf mod 0x1000)) =
       unat buf mod 0x1000 + unat buflen - 0x1000"
proof -
  have off: "unat (buf mod 0x1000) = unat buf mod 0x1000" by (simp add: unat_mod)
  have rest: "unat (0x1000 - buf mod 0x1000) = 0x1000 - unat buf mod 0x1000"
    using off by (subst unat_sub_le) (simp_all add: word_le_nat_alt)
  note n = page_bounds [OF assms(1) refl, of buf]
  have "unat ((ucast (buf mod 0x1000) :: size_t) + buflen) = unat buf mod 0x1000 + unat buflen"
    using off assms(2) by (subst unat_add_lt) (simp_all add: unat_ucast_up)
  then show "(ucast (buf mod 0x1000) :: size_t) + buflen \<le> ucast (0x1000 * 2 :: u32) \<longleftrightarrow>
      pages_spanned buf buflen \<le> 2"
    using n by (auto simp: word_le_nat_alt)
  show two: "buflen > ucast (0x1000 - buf mod 0x1000) \<longleftrightarrow> 2 \<le> pages_spanned buf buflen"
    using rest n by (auto simp: word_less_nat_alt unat_ucast_up)
  show "unat (buflen - ucast (0x1000 - buf mod 0x1000)) = unat buf mod 0x1000 + unat buflen - 0x1000"
    if "2 < pages_spanned buf buflen"
    using rest two that by (subst unat_sub_le) (simp_all add: unat_ucast_up word_le_nat_alt word_less_nat_alt)
qed

lemma of_nat_page_addr:
  assumes "0 < unat buflen" "unat buf + unat buflen \<le> 2 ^ 32"
  shows "(of_nat (page_addr buf 0) :: u64) = ucast buf"
    "Suc j < pages_spanned buf buflen \<Longrightarrow>
     (of_nat (page_addr buf (Suc j)) :: u64) = ucast (buf + (0x1000 - buf mod 0x1000) + of_nat j * 0x1000)"
proof -
  show "(of_nat (page_addr buf 0) :: u64) = ucast buf" by (simp add: page_addr_def)
  show "(of_nat (page_addr buf (Suc j)) :: u64) = ucast (buf + (0x1000 - buf mod 0x1000) + of_nat j * 0x1000)"
    if "Suc j < pages_spanned buf buflen"
    using unat_page [OF assms that] page_addr_less [OF assms(1) that] assms(2)
    by (simp add: word_unat_eq_iff unat_ucast_up unat_of_nat_lt)
qed

lemma setup_buffer_short:
  assumes "length cmd = 64" "ctrl_page_size d = 0x1000" "0 < unat buflen" "unat buf + unat buflen \<le> 2 ^ 32"
    and "pages_spanned buf buflen \<le> 2"
  obtains cmd' where "setup_buffer cid cmd buf buflen d = Inr (cmd', d)" "length cmd' = 64"
    "controller_prps (mem d) cmd' (pages_spanned buf buflen) =
       map (\<lambda>k. of_nat (page_addr buf k)) [0..<pages_spanned buf buflen]"
proof -
  note tests = setup_buffer_tests [OF assms(3,4)] and pages = of_nat_page_addr [OF assms(3,4)]
  note got = get_put_prps [OF assms(1)]
  have "pages_spanned buf buflen = 1 \<or> pages_spanned buf buflen = 2"
    using page_bounds(3) [OF assms(3) refl, of buf] assms(5) by linarith
  then show thesis
  proof
    assume n: "pages_spanned buf buflen = 1"
    then have "setup_buffer cid cmd buf buflen d = Inr (put_prp1 (ucast buf) cmd, d)"
      using tests(1,2) assms(2) by (simp add: setup_buffer_def Let_def)
    then show thesis using n got pages(1) by (intro that) (simp_all add: controller_prps_def)
  next
    assume n: "pages_spanned buf buflen = 2"
    then have "setup_buffer cid cmd buf buflen d =
        Inr (put_prp2 (ucast (buf + (0x1000 - buf mod 0x1000))) (put_prp1 (ucast buf) cmd), d)"
      using tests(1,2) assms(2) by (simp add: setup_buffer_def Let_def)
    then show thesis
    proof (rule that)
      show "length (put_prp2 (ucast (buf + (0x1000 - buf mod 0x1000))) (put_prp1 (ucast buf) cmd)) = 64"
        by (rule got(5))
    qed (use n pages(1) pages(2) [of 0] in \<open>simp add: controller_prps_def upt_rec got(2,3)\<close>)
  qed
qed

lemma setup_buffer_list:
  assumes "length cmd = 64" "ctrl_page_size d = 0x1000" "0 < unat buflen" "unat buf + unat buflen \<le> 2 ^ 32"
    and "2 < pages_spanned buf buflen" "pages_spanned buf buflen \<le> 513"
    and "allocate_pages 0x1000 (mem d) = Inr (prp, m)" "block prp 0x1000 \<subseteq> mapped m" "unat prp + 0x1000 \<le> 2 ^ 32"
  obtains cmd' d' where "setup_buffer cid cmd buf buflen d = Inr (cmd', d')" "length cmd' = 64"
    "controller_prps (mem d') cmd' (pages_spanned buf buflen) =
       map (\<lambda>k. of_nat (page_addr buf k)) [0..<pages_spanned buf buflen]"
proof -
  let ?n = "pages_spanned buf buflen" let ?off = "buf mod 0x1000"
  note tests = setup_buffer_tests [OF assms(3,4)] and pages = of_nat_page_addr [OF assms(3,4)]
  note n = page_bounds [OF assms(3) refl, of buf] and got = get_put_prps [OF assms(1)]
  define d1 where "d1 = push_prp_list cid prp (d\<lparr>mem := m\<rparr>)"
  have d1: "mem d1 = m" "ctrl_page_size d1 = 0x1000"
    using assms(2) by (simp_all add: d1_def push_prp_list_def split: option.splits)
  let ?d2 = "d1\<lparr>mem := put_entries (unat prp) (buf + (0x1000 - ?off)) (?n - 1) m\<rparr>"
  have "prp_loop cid prp 0 (buf + (0x1000 - ?off)) (buflen - ucast (0x1000 - ?off)) d1 = Some (Inr ?d2)"
    using prp_loop_fills [OF d1(2), of prp 0 "?n - 1" "buflen - ucast (0x1000 - ?off)"] d1(1) assms(5,6,8,9)
      tests(3) n
    by simp
  then have run: "setup_buffer cid cmd buf buflen d =
      Inr (put_prp2 (ucast prp) (put_prp1 (ucast buf) cmd), ?d2)"
    using tests(1) assms(2,5,7) by (simp add: setup_buffer_def new_prp_list_def Let_def d1_def)
  have base: "unat (iova_base m) \<le> unat prp" using block_mapped(2) [OF assms(8)] by simp
  have entry: "of_le (load (mem ?d2) (unat prp + 8 * k) 8) = (of_nat (page_addr buf (Suc k)) :: u64)"
    if "k < ?n - 1" for k
    using load_put_entries [OF base that] pages(2) [of k] that by simp
  have "map (\<lambda>k. of_nat (page_addr buf k)) [0..<?n] =
      (of_nat (page_addr buf 0) :: u64) # map (\<lambda>k. of_nat (page_addr buf (Suc k))) [0..<?n - 1]"
    using n(3) map_upt_Suc [of _ "?n - 1"] by simp
  also have "\<dots> = controller_prps (mem ?d2) (put_prp2 (ucast prp) (put_prp1 (ucast buf) cmd)) ?n"
    using assms(5) entry pages(1) by (simp add: controller_prps_def unat_ucast_up got(2,3))
  finally show thesis by (intro that [OF run got(5)]) (rule sym)
qed

section \<open>Properties\<close>

text \<open>
  C17: for a buffer of up to 513 pages (a list that fits into one page), \<open>setup_buffer\<close> gives the
  controller exactly the pages of the buffer, in order: as the controller reads the two pointers
  of the command, and the list in memory when there are more than two pages. The only way to fail
  is that no page is left for the list.
\<close>

theorem setup_buffer_prps:
  assumes "length cmd = 64" "ctrl_page_size d = 0x1000" "0 < unat buflen" "unat buf + unat buflen \<le> 2 ^ 32"
    and "pages_spanned buf buflen \<le> 513" "ms_ok (mem d)" "free_set (mem d) \<subseteq> mapped (mem d)"
  shows "setup_buffer cid cmd buf buflen d = Inl MemoryNotAvailable \<or>
    (\<exists>cmd' d'. setup_buffer cid cmd buf buflen d = Inr (cmd', d') \<and> length cmd' = 64 \<and>
       controller_prps (mem d') cmd' (pages_spanned buf buflen) =
         map (\<lambda>k. of_nat (page_addr buf k)) [0..<pages_spanned buf buflen])"
proof (cases "pages_spanned buf buflen \<le> 2")
  case True
  then show ?thesis using setup_buffer_short [OF assms(1-4) True] by metis
next
  case False
  then have long: "2 < pages_spanned buf buflen" by simp
  have fit: "page_fits 0x1000" and ext: "page_extent 0x1000 = 0x1000"
    by (simp_all add: page_fits_def page_extent_def roundup_def)
  show ?thesis
  proof (cases "allocate_pages 0x1000 (mem d)")
    case (Inl e)
    then have "e = MemoryNotAvailable" using allocate_pages_cases [OF assms(6) fit] by auto
    with Inl long setup_buffer_tests(1) [OF assms(3,4)] assms(2) show ?thesis
      by (simp add: setup_buffer_def new_prp_list_def Let_def)
  next
    case (Inr r)
    then obtain prp m where r: "allocate_pages 0x1000 (mem d) = Inr (prp, m)" "same_mem (mem d) m"
      "block prp 0x1000 \<subseteq> free_set (mem d)"
      using allocate_pages_cases [OF assms(6) fit] ext by (cases r) auto
    have blk: "block prp 0x1000 \<subseteq> mapped m" using r assms(7) by (simp add: same_mem_def mapped_def)
    have "unat prp + 0x1000 \<le> 2 ^ 32"
    proof (rule block_range(2))
      show "block prp 0x1000 \<subseteq> {1..<2 ^ 32}" using free_set_bound [OF assms(6)] r(3) by auto
    qed simp
    then show ?thesis using setup_buffer_list [OF assms(1-4) long assms(5) r(1) blk] by metis
  qed
qed

lemma SharedMemorySpace_mapped:
  assumes "0x1000 < unat fs" "unat fs \<le> 2 ^ 32"
  shows "\<exists>s. SharedMemorySpace fs raw = Inr s \<and> ms_ok s \<and> free_set s \<subseteq> mapped s \<and>
    iova_base s = 0 \<and> map_size s = fs \<and> free_list s = [(0x1000, unat fs - 0x1000)]"
proof -
  obtain s where "SharedMemorySpace fs raw = Inr s" "ms_ok s" "free_list s = [(0x1000, unat fs - 0x1000)]"
    "iova_base s = 0" "map_size s = fs"
    using SharedMemorySpace_ok [OF assms] by blast
  then show ?thesis using assms(1) by (auto simp: free_set_def mapped_def)
qed

definition submit_queue :: nvme_queue where
  "submit_queue = new_queue\<lparr>sq_dma_addr := 0x1000, cq_dma_addr := 0x2000, depth := 4, sqe_shift := 6,
     sq_tail := 3, q_qid := 1, q_db := 0x1008\<rparr>"

definition submit_driver :: "memory_space \<Rightarrow> (unit, nat) nvme_driver" where
  "submit_driver m = \<lparr>link = (), mem = m, ncpus = 1, queues = [submit_queue],
     queue_count = 1, online_queues = 1, command_id_counter = 7, command_map = (\<lambda>i. None), ctrl_cap = 0,
     ctrl_config = 0, ctrl_page_size = 0x1000, queue_depth = 4, io_queue_depth = 4, db_stride = 1,
     dbbuf_dbs = 0, called = []\<rparr>"

theorem setup_buffer_prps_witness:
  "\<exists>s. SharedMemorySpace 0x10000 (\<lambda>i. 0) = Inr s \<and>
    (setup_buffer 7 zero_command 0x5010 0x3000 (submit_driver s) = Inl MemoryNotAvailable \<or>
     (\<exists>cmd' d'. setup_buffer 7 zero_command 0x5010 0x3000 (submit_driver s) = Inr (cmd', d') \<and>
        controller_prps (mem d') cmd' 4 = [0x5010, 0x6000, 0x7000, 0x8000]))"
proof -
  obtain s where s: "SharedMemorySpace 0x10000 (\<lambda>i. 0) = Inr s" "ms_ok s" "free_set s \<subseteq> mapped s"
    using SharedMemorySpace_mapped [of "0x10000" "\<lambda>i. 0"] by auto
  have n: "pages_spanned 0x5010 0x3000 = 4" by (simp add: pages_spanned_def)
  have pages: "map (\<lambda>k. of_nat (page_addr 0x5010 k)) [0..<4] = [0x5010, 0x6000, 0x7000, 0x8000 :: u64]"
    by (simp add: upt_rec page_addr_def)
  from setup_buffer_prps [of zero_command "submit_driver s" "0x3000" "0x5010" 7] s show ?thesis
    by (auto simp: n pages zero_command_def submit_driver_def)
qed





end
