(* ===== verification/NvmeSync.thy ===== *)
theory NvmeSync
  imports NvmeCompletion NvmeSubmit
begin

text \<open>
  A command from its submission to its completion: what \<open>submit_sq_command\<close> leaves in the queue,
  how the interrupt handler matches the controller's entry with the command, and the
  synchronous command as a whole, against a controller that answers.
\<close>

section \<open>Placing a command in the submission queue\<close>

definition next_index :: "nat \<Rightarrow> nat \<Rightarrow> nat" where
  "next_index dep t = (if Suc t = dep then 0 else Suc t)"

lemma next_index_less: "t < dep \<Longrightarrow> next_index dep t < dep"
  by (simp add: next_index_def)

text \<open>A queue whose tail is \<open>t\<close>, its entries of \<open>n\<close> bytes at \<open>base\<close> all mapped.\<close>

definition ring_mapped :: "u32 \<Rightarrow> nat \<Rightarrow> nat \<Rightarrow> memory_space \<Rightarrow> bool" where
  "ring_mapped base n dep m \<longleftrightarrow> block base (n * dep) \<subseteq> mapped m \<and> unat base + n * dep \<le> 2 ^ 32"

lemma ring_slot:
  assumes "ring_mapped base n dep m" "t < dep" "n < 2 ^ 16"
  shows "unat (base + of_nat n * of_nat t) = unat base + n * t"
    "0 < n \<Longrightarrow> block (base + of_nat n * of_nat t) n \<subseteq> mapped m"
proof -
  have "n * Suc t \<le> n * dep" using assms(2) by (intro mult_le_mono) simp_all
  then have le: "n * t + n \<le> n * dep" by simp
  have all: "unat base + n * dep \<le> 2 ^ 32" "block base (n * dep) \<subseteq> mapped m"
    using assms(1) by (simp_all add: ring_mapped_def)
  have addr: "unat (base + of_nat n * of_nat t) = unat base + n * t" if "0 < n"
  proof -
    have lt: "unat base + n * t < 2 ^ 32" using all(1) le that by linarith
    then have "unat (of_nat (n * t) :: u32) = n * t" by (intro unat_of_nat_lt) simp
    then show ?thesis using lt by (subst unat_add_lt) simp_all
  qed
  then show "unat (base + of_nat n * of_nat t) = unat base + n * t" by (cases "n = 0") simp_all
  show "block (base + of_nat n * of_nat t) n \<subseteq> mapped m" if "0 < n"
    using addr [OF that] le all(2) by (fastforce simp: block_def)
qed

lemma tail_step:
  assumes "t < dep" "dep < 2 ^ 16"
  shows "(if (ucast ((of_nat t :: u16) + 1) :: u32) = of_nat dep then 0 else (of_nat t :: u16) + 1) =
    of_nat (next_index dep t)"
proof -
  have "(of_nat t :: u16) + 1 = of_nat (Suc t)" by simp
  moreover have "unat (of_nat (Suc t) :: u16) = Suc t" using assms by (intro unat_of_nat_lt) simp
  then have "unat (ucast (of_nat (Suc t) :: u16) :: u32) = Suc t" by (subst unat_ucast_up) simp_all
  moreover have "unat (of_nat dep :: u32) = dep" using assms(2) by (intro unat_of_nat_lt) simp
  ultimately have "(ucast ((of_nat t :: u16) + 1) :: u32) = of_nat dep \<longleftrightarrow> Suc t = dep"
    by (metis word_unat_eq_iff)
  then show ?thesis by (simp add: next_index_def)
qed

definition sq_ready :: "nat \<Rightarrow> nat \<Rightarrow> nvme_queue \<Rightarrow> memory_space \<Rightarrow> bool" where
  "sq_ready dep t q m \<longleftrightarrow> depth q = of_nat dep \<and> sq_tail q = of_nat t \<and> t < dep \<and> dep < 2 ^ 16 \<and>
     sqe_shift q = 6 \<and> dbbuf_sq_db q = 0 \<and> ring_mapped (sq_dma_addr q) 64 dep m"

lemma submit_sq_effect:
  assumes "qi < length (queues d)" "sq_ready dep t (queues d ! qi) (mem d)" "length cmd = 64"
    and "writel ops (ucast (q_db (queues d ! qi))) (of_nat (next_index dep t)) (link d) = Inr l'"
  shows "submit_sq_command ops qi cmd True d =
    Inr (d\<lparr>mem := store (unat (sq_dma_addr (queues d ! qi)) + 64 * t) cmd (mem d), link := l',
           queues := (queues d)[qi := (queues d ! qi)
             \<lparr>sq_tail := of_nat (next_index dep t), last_sq_tail := of_nat (next_index dep t)\<rparr>]\<rparr>)"
proof -
  let ?q = "queues d ! qi"
  have q: "depth ?q = of_nat dep" "sq_tail ?q = of_nat t" "t < dep" "dep < 2 ^ 16" "sqe_shift ?q = 6"
    "dbbuf_sq_db ?q = 0" "ring_mapped (sq_dma_addr ?q) 64 dep (mem d)"
    using assms(2) by (simp_all add: sq_ready_def)
  have t16: "unat (of_nat t :: u16) = t" using q(3,4) by (intro unat_of_nat_lt) simp
  then have "(ucast (of_nat t :: u16) :: u32) = of_nat t"
    using q(3,4) by (simp add: word_unat_eq_iff unat_ucast_up unat_of_nat_lt)
  then have addr: "sq_dma_addr ?q + push_bit (unat (sqe_shift ?q)) (ucast (sq_tail ?q)) =
      sq_dma_addr ?q + of_nat 64 * of_nat t"
    using q(2,5) by (simp add: push_bit_eq_mult)
  note slot = ring_slot [OF q(7,3), simplified]
  have put: "put_mem (sq_dma_addr ?q + push_bit (unat (sqe_shift ?q)) (ucast (sq_tail ?q))) cmd d =
      Inr (d\<lparr>mem := store (unat (sq_dma_addr ?q) + 64 * t) cmd (mem d)\<rparr>)"
  proof -
    have "cmd \<noteq> []" using assms(3) by auto
    then show ?thesis unfolding addr using put_mem_mapped [of _ cmd d] slot assms(3) by simp
  qed
  have nx: "unat (of_nat (next_index dep t) :: u16) = next_index dep t"
    using next_index_less [OF q(3)] q(4) by (intro unat_of_nat_lt) simp
  then have bell: "(ucast (of_nat (next_index dep t) :: u16) :: u32) = of_nat (next_index dep t)"
    using next_index_less [OF q(3)] q(4) by (simp add: word_unat_eq_iff unat_ucast_up unat_of_nat_lt)
  have tail: "(if (ucast (sq_tail ?q + 1) :: u32) = depth ?q then 0 else sq_tail ?q + 1) =
      of_nat (next_index dep t)"
    unfolding q(1,2) by (rule tail_step [OF q(3,4)])
  have "submit_sq_command ops qi cmd True d = write_sq_doorbell ops qi True
      (set_queue qi (?q\<lparr>sq_tail := of_nat (next_index dep t)\<rparr>)
         (d\<lparr>mem := store (unat (sq_dma_addr ?q) + 64 * t) cmd (mem d)\<rparr>))"
    using assms(1) by (simp add: submit_sq_command_def get_queue_def put Let_def tail)
  also have "\<dots> = Inr (d\<lparr>mem := store (unat (sq_dma_addr ?q) + 64 * t) cmd (mem d), link := l',
      queues := (queues d)[qi := ?q\<lparr>sq_tail := of_nat (next_index dep t),
        last_sq_tail := of_nat (next_index dep t)\<rparr>]\<rparr>)"
    using assms(1,4) q(6) bell
    by (simp add: write_sq_doorbell_def get_queue_def set_queue_def put_reg_def Let_def)
  finally show ?thesis .
qed

section \<open>A completion entry\<close>

text \<open>The entry a controller writes: result, command identifier, status and phase bit.\<close>

definition cqe_bytes :: "u16 \<Rightarrow> u16 \<Rightarrow> u64 \<Rightarrow> nat \<Rightarrow> u8 list" where
  "cqe_bytes cid st res ph =
     put_member nvme_completion [''status''] (ucast (push_bit 1 st OR of_nat ph))
      (put_member nvme_completion [''command_id''] (ucast cid)
        (put_member nvme_completion [''result'', ''u64''] res (replicate 16 0)))"

lemma length_cqe_bytes [simp]: "length (cqe_bytes cid st res ph) = 16"
  by (simp add: cqe_bytes_def)

lemma cqe_fields:
  assumes "ph < 2" "st < 0x8000"
  shows "(ucast (get_member nvme_completion [''command_id''] (cqe_bytes cid st res ph)) :: u16) = cid"
    "(ucast (drop_bit 1 (get_member nvme_completion [''status''] (cqe_bytes cid st res ph))) :: u32) = ucast st"
    "get_member nvme_completion [''result'', ''u64''] (cqe_bytes cid st res ph) = res"
proof -
  have st: "get_member nvme_completion [''status''] (cqe_bytes cid st res ph) =
      take_bit 16 (ucast (push_bit 1 st OR of_nat ph :: u16))"
    unfolding cqe_bytes_def by (subst get_put_member [where off = 14 and t = U16]) simp_all
  have cid: "get_member nvme_completion [''command_id''] (cqe_bytes cid st res ph) = take_bit 16 (ucast cid)"
    unfolding cqe_bytes_def
    by (subst get_put_member_other [where off = 14 and t = U16 and off' = 12 and t' = U16], simp_all,
        subst get_put_member [where off = 12 and t = U16], simp_all)
  have res: "get_member nvme_completion [''result'', ''u64''] (cqe_bytes cid st res ph) = take_bit 64 res"
    unfolding cqe_bytes_def
    by (subst get_put_member_other [where off = 14 and t = U16 and off' = 0 and t' = U64], simp_all,
        subst get_put_member_other [where off = 12 and t = U16 and off' = 0 and t' = U64], simp_all,
        subst get_put_member [where off = 0 and t = U64], simp_all)
  show "(ucast (get_member nvme_completion [''command_id''] (cqe_bytes cid st res ph)) :: u16) = cid"
    unfolding cid by (rule bit_word_eqI) (simp add: bit_simps)
  show "get_member nvme_completion [''result'', ''u64''] (cqe_bytes cid st res ph) = res"
    unfolding res by (simp add: take_bit_full)
  have small: "unat st < 0x8000" using assms(2) by (simp add: word_less_nat_alt)
  then have double: "unat (2 * st) = 2 * unat st" by (subst unat_mult_lem [THEN iffD1]) simp_all
  have ph: "ph = 0 \<or> ph = 1" using assms(1) by auto
  have "push_bit 1 st OR of_nat ph = 2 * st + of_nat ph"
    using ph by (auto simp: push_bit_eq_mult or_one_eq mult.commute)
  then have whole: "unat (push_bit 1 st OR of_nat ph) = 2 * unat st + ph"
    using ph double small by (auto simp: unat_add_lt)
  define w where "w = (push_bit 1 st OR of_nat ph :: u16)"
  have "unat w = 2 * unat st + ph" unfolding w_def by (rule whole)
  then have "unat (drop_bit 1 (take_bit 16 (ucast w) :: u64)) = unat st"
    using ph small unfolding unat_drop_bit_eq take_bit_eq_mod
    by (auto simp: unat_mod unat_ucast_up drop_bit_eq_div)
  then show "(ucast (drop_bit 1 (get_member nvme_completion [''status''] (cqe_bytes cid st res ph))) :: u32) = ucast st"
    unfolding st w_def using small by (simp add: word_unat_eq_iff unat_ucast_mod)
qed

lemma ucast_of_le:
  assumes "LENGTH('b::len) \<le> LENGTH('a::len)"
  shows "ucast (of_le bs :: 'a word) = (of_le bs :: 'b word)"
proof (induction bs)
  case (Cons b bs)
  have "ucast (push_bit 8 (of_le bs :: 'a word)) = (push_bit 8 (ucast (of_le bs :: 'a word)) :: 'b word)"
    using assms by (intro bit_word_eqI) (auto simp: bit_simps)
  moreover have "ucast (ucast b :: 'a word) = (ucast b :: 'b word)"
    using assms by (intro bit_word_eqI) (auto simp: bit_simps)
  ultimately show ?case using Cons by (simp add: unsigned_or_eq)
qed simp

text \<open>The phase bit of an entry, as \<open>cqe_pending\<close> reads it.\<close>

lemma cqe_phase:
  assumes "ph < 2" "st < 0x8000"
  shows "(of_le (slice 14 2 (cqe_bytes cid st res ph)) AND 1 :: u16) = of_nat ph"
proof -
  have "get_member nvme_completion [''status''] (cqe_bytes cid st res ph) =
      take_bit 16 (ucast (push_bit 1 st OR of_nat ph :: u16))"
    unfolding cqe_bytes_def by (subst get_put_member [where off = 14 and t = U16]) simp_all
  then have "(of_le (slice 14 2 (cqe_bytes cid st res ph)) :: u16) =
      ucast (take_bit 16 (ucast (push_bit 1 st OR of_nat ph :: u16)) :: u64)"
    using ucast_of_le [of "slice 14 2 (cqe_bytes cid st res ph)", where 'a = 64 and 'b = 16]
    by (simp add: get_member_def)
  also have "\<dots> = push_bit 1 st OR of_nat ph"
    by (rule bit_word_eqI) (simp add: bit_simps)
  also have "\<dots> = 2 * st OR of_nat ph" by (simp add: push_bit_eq_mult mult.commute)
  finally show ?thesis
    using assms(1) by (cases "ph = 0") (auto simp: and_one_eq mod_2_eq_odd even_or_iff less_2_cases_iff)
qed

section \<open>The interrupt for a waiting command\<close>

definition cq_ready :: "nat \<Rightarrow> nat \<Rightarrow> nvme_queue \<Rightarrow> memory_space \<Rightarrow> bool" where
  "cq_ready dep n q m \<longleftrightarrow> cq_at dep n q \<and> 0 < dep \<and> dep < 2 ^ 16 \<and> dbbuf_cq_db q = 0 \<and>
     ring_mapped (cq_dma_addr q) 16 dep m"

lemma cq_head_word:
  assumes "cq_at dep n q" "0 < dep" "dep < 2 ^ 16"
  shows "(ucast (cq_head q) :: u32) = of_nat (n mod dep)" "(of_nat (n mod dep) :: u32) < of_nat dep"
proof -
  have h: "n mod dep < dep" using assms(2) by simp
  show "(ucast (cq_head q) :: u32) = of_nat (n mod dep)"
    using assms h by (simp add: cq_at_def word_unat_eq_iff unat_ucast_up unat_of_nat_lt)
  show "(of_nat (n mod dep) :: u32) < of_nat dep"
    using assms h by (simp add: word_less_nat_alt unat_of_nat_lt)
qed

lemma cqe_pending_mapped:
  assumes "qi < length (queues d)" "cq_ready dep n (queues d ! qi) (mem d)"
  shows "cqe_pending qi d = Inr (new_entry (mem d) (cq_dma_addr (queues d ! qi)) dep n)"
proof -
  let ?q = "queues d ! qi"
  have q: "cq_at dep n ?q" "0 < dep" "dep < 2 ^ 16" "ring_mapped (cq_dma_addr ?q) 16 dep (mem d)"
    using assms(2) by (simp_all add: cq_ready_def)
  note h = cq_head_word [OF q(1-3)]
  have lt: "n mod dep < dep" using q(2) by simp
  let ?slot = "cq_dma_addr ?q + of_nat (n mod dep) * 16"
  have blk: "block ?slot 16 \<subseteq> mapped (mem d)" "unat ?slot + 16 \<le> 2 ^ 32"
    using ring_slot [OF q(4) lt] q(4) lt mult_le_mono2 [of "Suc (n mod dep)" dep 16]
    by (simp_all add: ring_mapped_def mult.commute Suc_le_eq)
  have "unat (?slot + 14) = unat ?slot + 14" using blk(2) by (subst unat_add_lt) simp_all
  then have "block (?slot + 14) 2 \<subseteq> mapped (mem d)" using blk(1) by (fastforce simp: block_def)
  then have "mem_read (?slot + 14) 2 (mem d) = Inr (load (mem d) (unat (?slot + 14)) 2)"
    by (rule mem_read_mapped) simp_all
  moreover have "depth ?q = of_nat dep" using q(1) by (simp add: cq_at_def)
  ultimately obtain p where "cqe_pending qi d = Inr p"
    using assms(1) h by (simp add: cqe_pending_def get_queue_def)
  with cqe_pending_at [OF assms(1) q(1-3) same_mem_refl this] show ?thesis by simp
qed

lemma handle_cqe_entry:
  assumes "qi < length (queues d)" "cq_ready dep n (queues d ! qi) (mem d)"
    and "load (mem d) (unat (cq_dma_addr (queues d ! qi)) + 16 * (n mod dep)) 16 = cqe_bytes cid st res ph"
    and "ph < 2" "st < 0x8000"
  shows "handle_cqe qi (cq_head (queues d ! qi)) d =
    (case command_map d cid of
       None \<Rightarrow> Inr d
     | Some c \<Rightarrow> (case ac_callback c of
         Some cb \<Rightarrow> remove_async_command cid (d\<lparr>called := called d @ [(cb, ucast st, res)]\<rparr>)
       | None \<Rightarrow> Inr (d\<lparr>command_map := (command_map d)(cid \<mapsto>
           c\<lparr>ac_status := ucast st, ac_result := res, ac_completed := True\<rparr>)\<rparr>)))"
proof -
  let ?q = "queues d ! qi"
  have q: "cq_at dep n ?q" "0 < dep" "dep < 2 ^ 16" "ring_mapped (cq_dma_addr ?q) 16 dep (mem d)"
    using assms(2) by (simp_all add: cq_ready_def)
  note h = cq_head_word [OF q(1-3)]
  have lt: "n mod dep < dep" using q(2) by simp
  note slot = ring_slot [OF q(4) lt, simplified]
  have "mem_read (cq_dma_addr ?q + 16 * of_nat (n mod dep)) 16 (mem d) = Inr (cqe_bytes cid st res ph)"
    using mem_read_mapped [OF slot(2)] slot(1) assms(3) by simp
  moreover have "depth ?q = of_nat dep" using q(1) by (simp add: cq_at_def)
  ultimately show ?thesis
    using assms(1) h cqe_fields [OF assms(4,5)]
    by (simp add: handle_cqe_def get_queue_def mult.commute Let_def split: option.split)
qed

lemma load_part:
  assumes "unat (iova_base m) \<le> x" "k + i \<le> n"
  shows "load m (x + k) i = slice k i (load m x n)"
  using assms by (intro nth_equalityI) (auto simp: load_def peek_bytes_def slice_def add.assoc)

lemma new_entry_cqe_bytes:
  assumes "ring_mapped cq 16 dep m" "0 < dep" "st < 0x8000"
    and "load m (unat cq + 16 * (n mod dep)) 16 = cqe_bytes cid st res (phase_at dep n)"
  shows "new_entry m cq dep n"
proof -
  have lt: "n mod dep < dep" using assms(2) by simp
  let ?slot = "cq + of_nat (n mod dep) * 16"
  note slot = ring_slot [OF assms(1) lt, simplified]
  have at: "unat ?slot = unat cq + 16 * (n mod dep)" "block ?slot 16 \<subseteq> mapped m"
    using slot by (simp_all add: mult.commute)
  have low: "unat (iova_base m) \<le> unat ?slot" using at(2) by (rule block_mapped) simp
  have "16 * (n mod dep) + 16 \<le> 16 * dep" using lt by (simp add: Suc_le_eq [symmetric])
  then have "unat ?slot + 16 \<le> 2 ^ 32" using at(1) assms(1) by (simp add: ring_mapped_def)
  then have up: "unat (?slot + 14) = unat ?slot + 14" by (subst unat_add_lt) simp_all
  then have "block (?slot + 14) 2 \<subseteq> mapped m" using at(2) by (fastforce simp: block_def)
  then have "mem_read (?slot + 14) 2 m = Inr (load m (unat ?slot + 14) 2)"
    using mem_read_mapped [of "?slot + 14" 2 m 2] up by simp
  also have "load m (unat ?slot + 14) 2 = slice 14 2 (cqe_bytes cid st res (phase_at dep n))"
    using load_part [OF low, of 14 2 16] assms(4) at(1) by simp
  finally show ?thesis
    using cqe_phase [OF _ assms(3), of "phase_at dep n" cid res]
    by (simp add: new_entry_def phase_at_def)
qed

text \<open>One interrupt that finds one completion, of a command whose caller waits.\<close>

lemma irq_one_completion:
  assumes "qi < length (queues d)" "qi < 2 ^ 16" "cq_ready dep n (queues d ! qi) (mem d)"
    and "load (mem d) (unat (cq_dma_addr (queues d ! qi)) + 16 * (n mod dep)) 16 =
      cqe_bytes cid st res (phase_at dep n)"
    and "\<not> new_entry (mem d) (cq_dma_addr (queues d ! qi)) dep (Suc n)"
    and "st < 0x8000" "command_map d cid = Some c" "ac_callback c = None"
    and "writel ops (ucast (q_db (queues d ! qi) + 4 * db_stride d)) (of_nat (Suc n mod dep)) (link d) = Inr l'"
  shows "irq_entry ops (of_nat qi) d = Inr (d\<lparr>link := l',
    queues := (queues d)[qi := update_cq_head (queues d ! qi)],
    command_map := (command_map d)(cid \<mapsto> c\<lparr>ac_status := ucast st, ac_result := res, ac_completed := True\<rparr>)\<rparr>)"
proof -
  let ?q = "queues d ! qi"
  have q: "cq_at dep n ?q" "0 < dep" "dep < 2 ^ 16" "ring_mapped (cq_dma_addr ?q) 16 dep (mem d)" "dbbuf_cq_db ?q = 0"
    using assms(3) by (simp_all add: cq_ready_def)
  have ph: "phase_at dep n < 2" by (simp add: phase_at_def)
  have pend: "cqe_pending qi d = Inr True"
    using cqe_pending_mapped [OF assms(1,3)] new_entry_cqe_bytes [OF q(4,2) assms(6,4)] by simp
  note done1 = handle_cqe_entry [OF assms(1,3,4) ph assms(6)]
  define d1 where "d1 = d\<lparr>command_map := (command_map d)(cid \<mapsto>
    c\<lparr>ac_status := ucast st, ac_result := res, ac_completed := True\<rparr>)\<rparr>"
  define d2 where "d2 = set_queue qi (update_cq_head ?q) d1"
  have d2: "queues d2 = (queues d)[qi := update_cq_head ?q]" "mem d2 = mem d" "link d2 = link d"
    "db_stride d2 = db_stride d" "qi < length (queues d2)" "queues d2 ! qi = update_cq_head ?q"
    using assms(1) by (simp_all add: d2_def d1_def set_queue_def)
  have next2: "cq_at dep (Suc n) (update_cq_head ?q)" by (rule update_cq_head_at [OF q(1-3)])
  have same: "dbbuf_cq_db (update_cq_head ?q) = 0" "q_db (update_cq_head ?q) = q_db ?q"
    using q(5) by (simp_all add: update_cq_head_def Let_def)
  have "cq_ready dep (Suc n) (queues d2 ! qi) (mem d2)"
    using d2 q same next2 by (simp add: cq_ready_def)
  then have "cqe_pending qi d2 = Inr False"
    using cqe_pending_mapped [OF d2(5)] assms(5) d2 by simp
  then have stop: "irq_loop qi 1 d2 = Some (Inr (1, d2))" by (subst irq_loop_unfold) simp
  have "irq_loop qi 0 d = Some (Inr (1, d2))"
    using pend done1 stop assms(7,8) by (subst irq_loop_unfold) (simp add: d1_def d2_def)
  moreover have "(ucast (cq_head (update_cq_head ?q)) :: u32) = of_nat (Suc n mod dep)"
    by (rule cq_head_word(1) [OF next2 q(2,3)])
  then have "ring_cq_doorbell ops qi d2 = Inr (d2\<lparr>link := l'\<rparr>)"
    using assms(9) d2 same by (simp add: ring_cq_doorbell_def get_queue_def put_reg_def)
  ultimately have "nvme_irq ops qi d = Inr (d2\<lparr>link := l'\<rparr>)" by (simp add: nvme_irq_def)
  moreover have "unat (of_nat qi :: u16) = qi" using assms(2) by (intro unat_of_nat_lt) simp
  ultimately show ?thesis
    using assms(1) by (simp add: irq_entry_def d2_def d1_def set_queue_def)
qed

section \<open>A synchronous command\<close>

text \<open>
  The steps of a synchronous command whose buffer, if there is one, needs no list of pages: \<open>sent\<close> is the
  command with identifier and data pointers.
\<close>

lemma sync_command_run:
  fixes d :: "('l, 'cb) nvme_driver"
  assumes qi: "qi < length (queues d)" "qi < 2 ^ 16"
    and sq: "sq_ready dep t (queues d ! qi) (mem d)" and cq: "cq_ready dep n (queues d ! qi) (mem d)"
    and free: "command_map d (command_id_counter d) = None"
    and bell: "writel ops (ucast (q_db (queues d ! qi))) (of_nat (next_index dep t)) (link d) = Inr l1"
    and data: "\<forall>d1 :: ('l, 'cb) nvme_driver. ctrl_page_size d1 = ctrl_page_size d \<longrightarrow> (if buflen \<noteq> 0
        then setup_buffer (command_id_counter d)
          (put_member nvme_command [''common'', ''command_id''] (ucast (command_id_counter d)) cmd) buf buflen d1
        else Inr (put_member nvme_command [''common'', ''command_id''] (ucast (command_id_counter d)) cmd, d1)) = Inr (sent, d1)"
      "length sent = 64"
    and dev: "dev (l1, store (unat (sq_dma_addr (queues d ! qi)) + 64 * t) sent (mem d)) = Some (l2, m2, of_nat qi)"
    and answer: "load m2 (unat (cq_dma_addr (queues d ! qi)) + 16 * (n mod dep)) 16 =
        cqe_bytes (command_id_counter d) st res (phase_at dep n)"
      "\<not> new_entry m2 (cq_dma_addr (queues d ! qi)) dep (Suc n)" "st < 0x8000" "mapped m2 = mapped (mem d)"
    and bell2: "writel ops (ucast (q_db (queues d ! qi) + 4 * db_stride d)) (of_nat (Suc n mod dep)) l2 = Inr l3"
  shows "submit_sync_command ops dev qi cmd buf buflen d =
    Inr (ucast st, res, d\<lparr>link := l3, mem := m2, command_id_counter := command_id_counter d + 1,
      queues := (queues d)[qi := update_cq_head ((queues d ! qi)
        \<lparr>sq_tail := of_nat (next_index dep t), last_sq_tail := of_nat (next_index dep t)\<rparr>)]\<rparr>)"
proof -
  let ?q = "queues d ! qi" and ?cid = "command_id_counter d"
  let ?q' = "?q\<lparr>sq_tail := of_nat (next_index dep t), last_sq_tail := of_nat (next_index dep t)\<rparr>"
  define d1 where "d1 = d\<lparr>command_id_counter := ?cid + 1, command_map := (command_map d)(?cid \<mapsto> new_command)\<rparr>"
  have new: "setup_async_command None d = (?cid, d1)"
    using free by (simp add: setup_async_command_def d1_def new_command_def Let_def)
  have d1: "queues d1 = queues d" "mem d1 = mem d" "link d1 = link d" "db_stride d1 = db_stride d"
    by (simp_all add: d1_def)
  define d3 where "d3 = d1\<lparr>mem := store (unat (sq_dma_addr ?q) + 64 * t) sent (mem d), link := l1,
    queues := (queues d)[qi := ?q']\<rparr>"
  have "submit_sq_command ops qi sent True d1 = Inr d3"
    using submit_sq_effect [of qi d1 dep t sent ops l1] qi(1) sq data(2) bell by (simp add: d1 d3_def)
  moreover have "ctrl_page_size d1 = ctrl_page_size d" by (simp add: d1_def)
  ultimately have sub: "submit_async_command ops qi cmd buf buflen None d = Inr (?cid, d3)"
    using new data(1) by (simp add: submit_async_command_def Let_def del: if_split)
  define d4 where "d4 = d3\<lparr>link := l2, mem := m2\<rparr>"
  have d4: "queues d4 = (queues d)[qi := ?q']" "mem d4 = m2" "link d4 = l2" "db_stride d4 = db_stride d"
    "command_map d4 = (command_map d)(?cid \<mapsto> new_command)" "qi < length (queues d4)" "queues d4 ! qi = ?q'"
    using qi(1) by (simp_all add: d4_def d3_def d1_def)
  have "cq_ready dep n (queues d4 ! qi) (mem d4)"
    using cq answer(4) qi(1) by (simp add: d4 cq_ready_def cq_at_def ring_mapped_def)
  then have irq: "irq_entry ops (of_nat qi) d4 = Inr (d4\<lparr>link := l3,
      queues := (queues d)[qi := update_cq_head ?q'],
      command_map := (command_map d)(?cid \<mapsto>
        new_command\<lparr>ac_status := ucast st, ac_result := res, ac_completed := True\<rparr>)\<rparr>)"
    using irq_one_completion [of qi d4 dep n ?cid st res new_command ops l3] qi answer bell2
    by (simp add: d4 new_command_def)
  have "sleep_until_completed ops dev ?cid d3 = Some (Inr
      (new_command\<lparr>ac_status := ucast st, ac_result := res, ac_completed := True\<rparr>, d4\<lparr>link := l3,
      queues := (queues d)[qi := update_cq_head ?q'],
      command_map := (command_map d)(?cid \<mapsto>
        new_command\<lparr>ac_status := ucast st, ac_result := res, ac_completed := True\<rparr>)\<rparr>))"
    using dev irq
    by (subst sleep_until_completed.simps, simp add: d3_def d1_def d4_def new_command_def,
        subst sleep_until_completed.simps, simp)
  then have "wait_command ops dev ?cid d3 = Inr (ucast st, res, d4\<lparr>link := l3,
      queues := (queues d)[qi := update_cq_head ?q'], command_map := (command_map d)(?cid := None)\<rparr>)"
    by (simp add: wait_command_def remove_async_command_def new_command_def)
  with sub free show ?thesis
    by (simp add: submit_sync_command_def d4_def d3_def d1_def fun_upd_idem)
qed

text \<open>
  C15: a synchronous command, from the caller's 64 bytes to the status it gets back. The command, with
  the identifier filled in, is stored in the slot at the tail of the submission queue and the
  doorbell rung with the next tail; when the device answers that identifier with one entry at the
  head of the completion queue, the caller gets the status and result of that entry, both queues
  have advanced by one entry, the completion doorbell is rung, and the command table is as before.
\<close>

theorem sync_command_roundtrip:
  fixes d :: "('l, 'cb) nvme_driver"
  assumes qi: "qi < length (queues d)" "qi < 2 ^ 16" and cmd: "length cmd = 64"
    and sq: "sq_ready dep t (queues d ! qi) (mem d)" and cq: "cq_ready dep n (queues d ! qi) (mem d)"
    and free: "command_map d (command_id_counter d) = None"
    and bell: "writel ops (ucast (q_db (queues d ! qi))) (of_nat (next_index dep t)) (link d) = Inr l1"
    and dev: "dev (l1, store (unat (sq_dma_addr (queues d ! qi)) + 64 * t)
        (put_member nvme_command [''common'', ''command_id''] (ucast (command_id_counter d)) cmd) (mem d)) =
      Some (l2, m2, of_nat qi)"
    and answer: "load m2 (unat (cq_dma_addr (queues d ! qi)) + 16 * (n mod dep)) 16 =
        cqe_bytes (command_id_counter d) st res (phase_at dep n)"
      "\<not> new_entry m2 (cq_dma_addr (queues d ! qi)) dep (Suc n)" "st < 0x8000" "mapped m2 = mapped (mem d)"
    and bell2: "writel ops (ucast (q_db (queues d ! qi) + 4 * db_stride d)) (of_nat (Suc n mod dep)) l2 = Inr l3"
  shows "submit_sync_command ops dev qi cmd 0 0 d =
    Inr (ucast st, res, d\<lparr>link := l3, mem := m2, command_id_counter := command_id_counter d + 1,
      queues := (queues d)[qi := update_cq_head ((queues d ! qi)
        \<lparr>sq_tail := of_nat (next_index dep t), last_sq_tail := of_nat (next_index dep t)\<rparr>)]\<rparr>)"
proof -
  let ?cmd = "put_member nvme_command [''common'', ''command_id''] (ucast (command_id_counter d)) cmd"
  show ?thesis
    by (rule sync_command_run) (use assms in simp_all)
qed

text \<open>A link that accepts every write, and a device that answers the first command at once.\<close>

definition quiet_ops :: "unit pcie_ops" where
  "quiet_ops = \<lparr>read_from_device = (\<lambda>a n l. Inr (replicate (unat n) 0, l)), write_to_device = (\<lambda>a bs l. Inr l)\<rparr>"

definition sync_driver :: "(unit, nat) nvme_driver" where
  "sync_driver = sample_driver\<lparr>queues := [sample_queue\<lparr>cq_head := 0\<rparr>]\<rparr>"

definition answer_device :: "unit device" where
  "answer_device = (\<lambda>(l, m). Some (l, store 0x2000 (cqe_bytes 0 5 77 1) m, 0))"

lemma sync_driver_facts:
  "queues sync_driver = [sample_queue\<lparr>cq_head := 0\<rparr>]" "command_id_counter sync_driver = 0"
  "command_map sync_driver = (\<lambda>i. None)" "db_stride sync_driver = 1" "called sync_driver = []"
  "iova_base (mem sync_driver) = 0" "mapped (mem sync_driver) = {0..<0x8000}"
  "ring_mapped 0x1000 64 4 (mem sync_driver)" "ring_mapped 0x2000 16 4 (mem sync_driver)"
  by (auto simp: sync_driver_def sample_driver_def ring_mapped_def block_def mapped_def MemorySpace_def)

lemma one_answer:
  assumes "iova_base m = 0" "mapped m = {0..<0x8000}" "load m 0x201E 2 = [0, 0]"
  shows "\<not> new_entry (store 0x2000 (cqe_bytes cid st res 1) m) 0x2000 4 (Suc 0)"
    "load (store 0x2000 (cqe_bytes cid st res 1) m) 0x2000 16 = cqe_bytes cid st res 1"
proof -
  let ?m = "store 0x2000 (cqe_bytes cid st res 1) m"
  have "load ?m 0x201E 2 = [0, 0]"
    using assms(1,3) by (subst load_store_other) simp_all
  moreover have "block 0x201E 2 \<subseteq> mapped ?m" using assms(2) by (auto simp: block_def)
  ultimately have "mem_read 0x201E 2 ?m = Inr [0, 0]"
    using mem_read_mapped [of "0x201E" 2 ?m 2] by simp
  then show "\<not> new_entry ?m 0x2000 4 (Suc 0)" by (simp add: new_entry_def phase_at_def)
  show "load ?m 0x2000 16 = cqe_bytes cid st res 1"
    using load_store_same [of "0x2000" "cqe_bytes cid st res 1" m] by simp
qed

lemma sync_driver_zeros: "load (mem sync_driver) 0x201E 2 = [0, 0]"
  by (simp add: load_def peek_bytes_def sync_driver_def sample_driver_def MemorySpace_def numeral_2_eq_2)

theorem sync_command_roundtrip_witness:
  "\<exists>d'. submit_sync_command quiet_ops answer_device 0 zero_command 0 0 sync_driver = Inr (5, 77, d')"
proof -
  let ?cmd = "put_member nvme_command [''common'', ''command_id''] (ucast (0 :: u16)) zero_command"
  let ?m = "store 0x1000 ?cmd (mem sync_driver)"
  have len: "length zero_command = 64" "length ?cmd = 64" by (simp_all add: zero_command_def)
  have "load ?m 0x201E 2 = [0, 0]"
    using len sync_driver_zeros by (subst load_store_other) (simp_all add: sync_driver_facts)
  note ans = one_answer [of ?m, OF _ _ this, of 0 5 77]
  have "sq_ready 4 0 (queues sync_driver ! 0) (mem sync_driver)"
    "cq_ready 4 0 (queues sync_driver ! 0) (mem sync_driver)"
    using sync_driver_facts(8,9)
    by (simp_all add: sync_driver_facts(1) sq_ready_def cq_ready_def cq_at_def phase_at_def sample_queue_def new_queue_def)
  then show ?thesis
    using sync_command_roundtrip [of 0 sync_driver zero_command 4 0 0 quiet_ops "()" answer_device "()"
        "store 0x2000 (cqe_bytes 0 5 77 1) ?m" 5 77 "()"] ans len(1)
    by (simp add: sync_driver_facts sample_queue_def new_queue_def quiet_ops_def writel_def
        answer_device_def phase_at_def)
qed

section \<open>A batch of completions with callbacks\<close>

text \<open>The entries \<open>es\<close> (identifier, status, result) from position \<open>n\<close> on, and nothing new behind them.\<close>

definition cq_holds :: "memory_space \<Rightarrow> u32 \<Rightarrow> nat \<Rightarrow> nat \<Rightarrow> (u16 \<times> u16 \<times> u64) list \<Rightarrow> bool" where
  "cq_holds m cq dep n es \<longleftrightarrow>
     (\<forall>i < length es. fst (snd (es ! i)) < 0x8000 \<and>
        load m (unat cq + 16 * ((n + i) mod dep)) 16 =
          cqe_bytes (fst (es ! i)) (fst (snd (es ! i))) (snd (snd (es ! i))) (phase_at dep (n + i))) \<and>
     \<not> new_entry m cq dep (n + length es)"

lemma cq_holds_Cons:
  "cq_holds m cq dep n ((cid, st, res) # es) \<longleftrightarrow>
     st < 0x8000 \<and> load m (unat cq + 16 * (n mod dep)) 16 = cqe_bytes cid st res (phase_at dep n) \<and>
     cq_holds m cq dep (Suc n) es"
  by (auto simp: cq_holds_def All_less_Suc2)

lemma cq_holds_same_mem: "same_mem m m' \<Longrightarrow> cq_holds m' cq dep n es = cq_holds m cq dep n es"
  by (simp add: cq_holds_def load_same_mem new_entry_def same_mem_read)

lemma cq_ready_same_mem: "same_mem m m' \<Longrightarrow> cq_ready dep n q m' = cq_ready dep n q m"
  by (simp add: cq_ready_def ring_mapped_def load_same_mem)

definition callback_of :: "('l, 'cb) nvme_driver \<Rightarrow> u16 \<Rightarrow> 'cb option" where
  "callback_of d cid = Option.bind (command_map d cid) ac_callback"

lemma irq_loop_callbacks:
  assumes "qi < length (queues d)" "cq_ready dep n (queues d ! qi) (mem d)"
    and "cq_holds (mem d) (cq_dma_addr (queues d ! qi)) dep n es"
    and "distinct (map fst es)" "\<forall>e \<in> set es. callback_of d (fst e) \<noteq> None"
    and "irq_loop qi found d = Some (Inr (f, d'))"
  shows "f = found + length es \<and> cq_at dep (n + length es) (queues d' ! qi) \<and>
    called d' = called d @ map (\<lambda>(cid, st, res). (the (callback_of d cid), ucast st, res)) es \<and>
    command_map d' = (\<lambda>cid. if cid \<in> fst ` set es then None else command_map d cid)"
  using assms
proof (induction es arbitrary: n found d)
  case Nil
  then have "cqe_pending qi d = Inr False"
    using cqe_pending_mapped [OF Nil.prems(1,2)] by (simp add: cq_holds_def)
  with Nil.prems(6) have "found = f" "d = d'" by (subst (asm) irq_loop_unfold; simp)+
  with Nil.prems(2) show ?case by (simp add: cq_ready_def)
next
  case (Cons e es)
  let ?q = "queues d ! qi"
  obtain cid st res where e: "e = (cid, st, res)" by (cases e)
  have q: "cq_at dep n ?q" "0 < dep" "dep < 2 ^ 16" "ring_mapped (cq_dma_addr ?q) 16 dep (mem d)" "dbbuf_cq_db ?q = 0"
    using Cons.prems(2) by (simp_all add: cq_ready_def)
  have here: "st < 0x8000" "load (mem d) (unat (cq_dma_addr ?q) + 16 * (n mod dep)) 16 =
      cqe_bytes cid st res (phase_at dep n)" "cq_holds (mem d) (cq_dma_addr ?q) dep (Suc n) es"
    using Cons.prems(3) by (simp_all add: e cq_holds_Cons)
  have pend: "cqe_pending qi d = Inr True"
    using cqe_pending_mapped [OF Cons.prems(1,2)] new_entry_cqe_bytes [OF q(4,2) here(1,2)] by simp
  obtain c cb where c: "command_map d cid = Some c" "ac_callback c = Some cb"
    using Cons.prems(5) by (auto simp: e callback_of_def bind_eq_None_conv split: Option.bind_splits)
  have "phase_at dep n < 2" by (simp add: phase_at_def)
  from handle_cqe_entry [OF Cons.prems(1,2) here(2) this here(1)] c
  have hd: "handle_cqe qi (cq_head ?q) d = remove_async_command cid (d\<lparr>called := called d @ [(cb, ucast st, res)]\<rparr>)"
    by simp
  obtain d1 where d1: "remove_async_command cid (d\<lparr>called := called d @ [(cb, ucast st, res)]\<rparr>) = Inr d1"
    and rec: "irq_loop qi (found + 1) (set_queue qi (update_cq_head (queues d1 ! qi)) d1) = Some (Inr (f, d'))"
    using Cons.prems(6) pend hd by (subst (asm) irq_loop_unfold) (auto split: sum.splits)
  note fr = remove_async_command_frame [OF d1, simplified]
  define d2 where "d2 = set_queue qi (update_cq_head (queues d1 ! qi)) d1"
  have d2: "qi < length (queues d2)" "queues d2 ! qi = update_cq_head ?q" "mem d2 = mem d1"
    "called d2 = called d @ [(cb, ucast st, res)]" "command_map d2 = (command_map d)(cid := None)"
    using Cons.prems(1) fr by (simp_all add: d2_def set_queue_def)
  have "cq_ready dep (Suc n) (queues d2 ! qi) (mem d)"
    using q update_cq_head_at [OF q(1-3)] d2 by (simp add: cq_ready_def) (simp add: update_cq_head_def Let_def)
  then have "cq_ready dep (Suc n) (queues d2 ! qi) (mem d2)"
    "cq_holds (mem d2) (cq_dma_addr (queues d2 ! qi)) dep (Suc n) es"
    using here(3) cq_ready_same_mem [OF fr(2)] cq_holds_same_mem [OF fr(2)] d2 by simp_all
  moreover have other: "callback_of d2 x = callback_of d x" if "x \<noteq> cid" for x
    using that d2 by (simp add: callback_of_def)
  have apart: "cid \<notin> fst ` set es" using Cons.prems(4) by (simp add: e)
  then have "\<forall>e \<in> set es. callback_of d2 (fst e) \<noteq> None"
    using Cons.prems(5) other by (metis image_eqI list.set_intros(2))
  ultimately have IH: "f = found + 1 + length es \<and> cq_at dep (Suc n + length es) (queues d' ! qi) \<and>
      called d' = called d2 @ map (\<lambda>(cid, st, res). (the (callback_of d2 cid), ucast st, res)) es \<and>
      command_map d' = (\<lambda>cid. if cid \<in> fst ` set es then None else command_map d2 cid)"
    using Cons.prems(4) d2(1) rec by (intro Cons.IH) (simp_all add: d2_def)
  have "map (\<lambda>(cid, st, res). (the (callback_of d2 cid), ucast st :: u32, res)) es =
      map (\<lambda>(cid, st, res). (the (callback_of d cid), ucast st, res)) es"
    using apart other by (intro map_cong) (auto simp: image_iff)
  moreover have "callback_of d cid = Some cb" using c by (simp add: callback_of_def)
  ultimately show ?case using IH d2 by (auto simp: e)
qed

text \<open>
  C16: the interrupt for a batch of completions whose commands have callbacks: every callback is called
  exactly once, in the order of the entries, with the status and result of its own entry, the
  commands leave the table, and no other command is touched.
\<close>

theorem irq_callbacks_in_order:
  assumes "qi < length (queues d)" "cq_ready dep n (queues d ! qi) (mem d)"
    and "cq_holds (mem d) (cq_dma_addr (queues d ! qi)) dep n es"
    and "distinct (map fst es)" "\<forall>e \<in> set es. callback_of d (fst e) \<noteq> None"
  shows "\<exists>r. irq_loop qi 0 d = Some r \<and> (\<forall>f d'. r = Inr (f, d') \<longrightarrow>
    f = length es \<and> cq_at dep (n + length es) (queues d' ! qi) \<and>
    called d' = called d @ map (\<lambda>(cid, st, res). (the (callback_of d cid), ucast st, res)) es \<and>
    command_map d' = (\<lambda>cid. if cid \<in> fst ` set es then None else command_map d cid))"
proof -
  have "cq_at dep n (queues d ! qi)" "0 < dep" "dep < 2 ^ 16"
    using assms(2) by (simp_all add: cq_ready_def)
  moreover have "\<not> new_entry (mem d) (cq_dma_addr (queues d ! qi)) dep (n + length es)"
    using assms(3) by (simp add: cq_holds_def)
  ultimately obtain r where "irq_loop qi 0 d = Some r"
    using irq_loop_returns [OF assms(1) _ _ _ same_mem_refl] by blast
  with irq_loop_callbacks [OF assms, of 0] show ?thesis by auto
qed

definition callback_driver :: "(unit, nat) nvme_driver" where
  "callback_driver = sync_driver\<lparr>mem := store 0x2000 (cqe_bytes 3 5 77 1) (mem sync_driver),
     command_map := [3 \<mapsto> new_command\<lparr>ac_callback := Some 9\<rparr>]\<rparr>"

theorem irq_callbacks_in_order_witness:
  "\<exists>r. irq_loop 0 0 callback_driver = Some r \<and> (\<forall>f d'. r = Inr (f, d') \<longrightarrow>
    f = 1 \<and> called d' = [(9, 5, 77)] \<and> command_map d' = (\<lambda>cid. None))"
proof -
  note ans = one_answer [OF sync_driver_facts(6,7) sync_driver_zeros, of 3 5 77]
  have q: "queues callback_driver = [sample_queue\<lparr>cq_head := 0\<rparr>]" "called callback_driver = []"
    "mem callback_driver = store 0x2000 (cqe_bytes 3 5 77 1) (mem sync_driver)"
    "command_map callback_driver = [3 \<mapsto> new_command\<lparr>ac_callback := Some 9\<rparr>]"
    by (simp_all add: callback_driver_def sync_driver_facts)
  have "ring_mapped 0x2000 16 4 (mem callback_driver)"
    using sync_driver_facts(9) by (simp add: q ring_mapped_def)
  then have "cq_ready 4 0 (queues callback_driver ! 0) (mem callback_driver)"
    by (simp add: q cq_ready_def cq_at_def phase_at_def sample_queue_def new_queue_def)
  moreover have "cq_holds (mem callback_driver) 0x2000 4 0 [(3, 5, 77)]"
    using ans by (simp add: q cq_holds_def phase_at_def)
  moreover have "cq_dma_addr (queues callback_driver ! 0) = 0x2000" by (simp add: q sample_queue_def)
  moreover have "callback_of callback_driver 3 = Some 9" by (simp add: callback_of_def q)
  moreover have "(\<lambda>cid. if cid \<in> {3} then None else command_map callback_driver cid) = (\<lambda>cid. None)"
    by (auto simp: q)
  ultimately show ?thesis
    using irq_callbacks_in_order [of 0 callback_driver 4 0 "[(3, 5, 77)]"] by (simp add: q) blast
qed

text \<open>The blocking \<open>write\<close> is the blocking \<open>read\<close>: both submit a read command.\<close>

lemma write_submits_read: "nvme_write ops dev tq nsid pos buf sz d = nvme_read ops dev tq nsid pos buf sz d"
  by (simp add: nvme_write_def nvme_read_def)

end
