(* ===== verification/NvmeCallbacks.thy ===== *)
theory NvmeCallbacks
  imports NvmeSync "HOL-Library.Multiset"
begin

text \<open>
  The callbacks of the driver as a resource: the multiset of those that wait for their completion,
  and the law that a submission adds exactly its own callback, an interrupt only moves callbacks
  from the waiting ones to the called ones, and nothing else touches them. The threads that issue
  requests (theory IoThread) rest on this law.
\<close>

section \<open>The waiting callbacks\<close>

definition pend :: "(u16 \<Rightarrow> 'cb option) \<Rightarrow> 'cb multiset" where
  "pend f = (\<Sum>cid\<in>UNIV. (case f cid of None \<Rightarrow> {#} | Some cb \<Rightarrow> {#cb#}))"

definition pending :: "('l, 'cb) nvme_driver \<Rightarrow> 'cb multiset" where
  "pending d = pend (callback_of d)"

text \<open>Waiting and called callbacks together.\<close>

definition account :: "('l, 'cb) nvme_driver \<Rightarrow> 'cb multiset" where
  "account d = pending d + mset (map fst (called d))"

lemma pend_Some: "pend (f(cid := Some cb)) = add_mset cb (pend (f(cid := None)))"
proof -
  have "pend (f(cid := v)) = (case v of None \<Rightarrow> {#} | Some cb \<Rightarrow> {#cb#}) +
      (\<Sum>x\<in>UNIV - {cid}. (case f x of None \<Rightarrow> {#} | Some cb \<Rightarrow> {#cb#}))" for v
    unfolding pend_def by (subst sum.remove [of _ cid]) (auto intro: sum.cong)
  from this [of "Some cb"] this [of None] show ?thesis by simp
qed

lemma pend_add: "f cid = None \<Longrightarrow> pend (f(cid := Some cb)) = add_mset cb (pend f)"
  by (simp add: pend_Some fun_upd_idem)

lemma pend_take: "f cid = Some cb \<Longrightarrow> pend f = add_mset cb (pend (f(cid := None)))"
  using pend_Some [of f cid cb] by (simp add: fun_upd_idem)

lemma pend_none: "(\<And>x. f x = None) \<Longrightarrow> pend f = {#}"
  by (simp add: pend_def)

text \<open>The callbacks of two states agree; most operations of the driver are of this kind.\<close>

definition same_callbacks :: "('l, 'cb) nvme_driver \<Rightarrow> ('l, 'cb) nvme_driver \<Rightarrow> bool" where
  "same_callbacks d d' \<longleftrightarrow> callback_of d' = callback_of d \<and> called d' = called d \<and>
     command_id_counter d' = command_id_counter d"

lemma same_callbacks_refl [simp]: "same_callbacks d d"
  by (simp add: same_callbacks_def)

lemma same_callbacks_trans: "same_callbacks d d' \<Longrightarrow> same_callbacks d' d'' \<Longrightarrow> same_callbacks d d''"
  by (simp add: same_callbacks_def)

lemma callback_of_upd [simp]:
  "callback_of (d\<lparr>mem := m\<rparr>) = callback_of d" "callback_of (d\<lparr>link := l\<rparr>) = callback_of d"
  "callback_of (d\<lparr>queues := qs\<rparr>) = callback_of d" "callback_of (d\<lparr>called := cs\<rparr>) = callback_of d"
  by (simp_all add: callback_of_def fun_eq_iff)

lemma same_callbacks_upd [simp]:
  "same_callbacks d (d'\<lparr>mem := m\<rparr>) = same_callbacks d d'"
  "same_callbacks d (d'\<lparr>link := l\<rparr>) = same_callbacks d d'"
  "same_callbacks d (set_queue qi q d') = same_callbacks d d'"
  "same_callbacks (set_queue qi q d) d' = same_callbacks d d'"
  by (simp_all add: same_callbacks_def set_queue_def)

lemma put_mem_callbacks: "put_mem a bs d = Inr d' \<Longrightarrow> same_callbacks d d'"
  by (auto simp: put_mem_def bindE_Inr_iff)

lemma put_reg_callbacks: "put_reg ops a v d = Inr d' \<Longrightarrow> same_callbacks d d'"
  by (auto simp: put_reg_def bindE_Inr_iff)

lemma push_prp_list_callbacks [simp]: "same_callbacks d (push_prp_list cid prp d') = same_callbacks d d'"
proof -
  have "callback_of (push_prp_list cid prp d') x = callback_of d' x" for x
    by (auto simp: push_prp_list_def callback_of_def split: option.split)
  moreover have "called (push_prp_list cid prp d') = called d'"
    "command_id_counter (push_prp_list cid prp d') = command_id_counter d'"
    by (simp_all add: push_prp_list_def split: option.split)
  ultimately show ?thesis by (simp add: same_callbacks_def fun_eq_iff)
qed

lemma new_prp_list_callbacks: "new_prp_list cid d = Inr (prp, d') \<Longrightarrow> same_callbacks d d'"
  by (auto simp: new_prp_list_def bindE_Inr_iff)

lemma chain_prp_list_callbacks: "chain_prp_list cid old i d = Inr (prp, d') \<Longrightarrow> same_callbacks d d'"
  unfolding chain_prp_list_def bindE_Inr_iff
  by (auto dest!: new_prp_list_callbacks put_mem_callbacks simp: bindE_Inr_iff same_callbacks_def)

lemma prp_loop_callbacks:
  assumes "prp_loop cid prp i buf buflen d = Some (Inr d')"
  shows "same_callbacks d d'"
proof -
  have "case r of Inl e \<Rightarrow> True | Inr d' \<Rightarrow> same_callbacks d d'"
    if "prp_loop cid prp i buf buflen d = Some r" for r
  proof (rule prp_loop.raw_induct [OF _ that], goal_cases)
    case (1 loop cid prp i buf buflen d r)
    let ?next = "if i = drop_bit 3 (ctrl_page_size d) then chain_prp_list cid prp i d else Inr (prp, d)"
    show ?case
    proof (cases ?next)
      case (Inl e)
      then show ?thesis using 1(2) by auto
    next
      case next1: (Inr p)
      obtain prp' d1 where p: "p = (prp', d1)" by (cases p)
      have s1: "same_callbacks d d1"
        using next1 p chain_prp_list_callbacks by (auto split: if_splits)
      show ?thesis
      proof (cases "put_mem (prp' + i * 8) (le_bytes 8 (ucast buf :: u64)) d1")
        case (Inl e)
        then show ?thesis using 1(2) next1 p by (cases r) auto
      next
        case put: (Inr d2)
        have s2: "same_callbacks d d2" using s1 put_mem_callbacks [OF put] by (rule same_callbacks_trans)
        show ?thesis
        proof (cases "buflen \<le> ucast (ctrl_page_size d2)")
          case True
          then show ?thesis using 1(2) next1 p put s2 by auto
        next
          case False
          then have "loop cid prp' (i + 1) (buf + ctrl_page_size d2) (buflen - ucast (ctrl_page_size d2)) d2 = Some r"
            using 1(2) next1 p put by simp
          from 1(1) [OF this] s2 show ?thesis by (auto split: sum.splits intro: same_callbacks_trans)
        qed
      qed
    qed
  qed
  from this [OF assms] show ?thesis by simp
qed

lemma setup_buffer_callbacks: "setup_buffer cid cmd buf buflen d = Inr (cmd', d') \<Longrightarrow> same_callbacks d d'"
  unfolding setup_buffer_def Let_def
  by (auto simp: bindE_Inr_iff split: if_splits option.splits
      dest!: new_prp_list_callbacks prp_loop_callbacks intro: same_callbacks_trans)

lemma write_sq_doorbell_callbacks: "write_sq_doorbell ops qi w d = Inr d' \<Longrightarrow> same_callbacks d d'"
  unfolding write_sq_doorbell_def Let_def
  by (auto simp: bindE_Inr_iff split: if_splits
      dest!: put_mem_callbacks put_reg_callbacks intro: same_callbacks_trans)

lemma submit_sq_command_callbacks: "submit_sq_command ops qi cmd w d = Inr d' \<Longrightarrow> same_callbacks d d'"
  unfolding submit_sq_command_def Let_def
  by (auto simp: bindE_Inr_iff dest!: put_mem_callbacks write_sq_doorbell_callbacks intro: same_callbacks_trans)

lemma ring_cq_doorbell_callbacks: "ring_cq_doorbell ops qi d = Inr d' \<Longrightarrow> same_callbacks d d'"
  unfolding ring_cq_doorbell_def Let_def
  by (auto simp: bindE_Inr_iff split: if_splits dest!: put_mem_callbacks put_reg_callbacks)

section \<open>Submission and completion\<close>

lemma submit_async_callbacks:
  assumes "submit_async_command ops qi cmd buf buflen cb d = Inr (cid, d')"
  shows "callback_of d' = (callback_of d)(command_id_counter d := cb)" "called d' = called d"
    "command_id_counter d' = command_id_counter d + 1"
proof -
  obtain d1 where d1: "setup_async_command cb d = (command_id_counter d, d1)"
    "callback_of d1 = (callback_of d)(command_id_counter d := cb)" "called d1 = called d"
    "command_id_counter d1 = command_id_counter d + 1"
    by (auto simp: setup_async_command_def Let_def callback_of_def fun_eq_iff split: option.split)
  obtain cmd2 d2 where
    "(if buflen \<noteq> 0 then setup_buffer (command_id_counter d)
       (put_member nvme_command [''common'', ''command_id''] (ucast (command_id_counter d)) cmd) buf buflen d1
      else Inr (put_member nvme_command [''common'', ''command_id''] (ucast (command_id_counter d)) cmd, d1)) =
     Inr (cmd2, d2)"
    "submit_sq_command ops qi cmd2 True d2 = Inr d'"
    using assms d1(1) by (auto simp: submit_async_command_def bindE_Inr_iff Let_def simp del: if_split)
  then have "same_callbacks d1 d'"
    by (auto split: if_splits dest!: setup_buffer_callbacks submit_sq_command_callbacks intro: same_callbacks_trans)
  with d1 show "callback_of d' = (callback_of d)(command_id_counter d := cb)" "called d' = called d"
    "command_id_counter d' = command_id_counter d + 1"
    by (simp_all add: same_callbacks_def)
qed

lemma submit_rw_callbacks:
  assumes "submit_rw_command ops tq w nsid pos buf sz cb d = Inr (cid, d')"
  shows "callback_of d' = (callback_of d)(command_id_counter d := cb)" "called d' = called d"
    "command_id_counter d' = command_id_counter d + 1"
  using assms by (auto simp: submit_rw_command_def submit_async_callbacks split: option.splits)

lemma handle_cqe_account:
  assumes "handle_cqe qi idx d = Inr d'"
  shows "account d' = account d" "\<exists>cs. called d' = called d @ cs"
proof -
  obtain cid st res where run: "(case command_map d cid of
       None \<Rightarrow> Inr d
     | Some c \<Rightarrow> (case ac_callback c of
         Some cb \<Rightarrow> remove_async_command cid (d\<lparr>called := called d @ [(cb, st, res)]\<rparr>)
       | None \<Rightarrow> Inr (d\<lparr>command_map := (command_map d)(cid \<mapsto>
           c\<lparr>ac_status := st, ac_result := res, ac_completed := True\<rparr>)\<rparr>))) = Inr d'"
    using assms by (auto simp: handle_cqe_def bindE_Inr_iff Let_def split: if_splits)
  have "account d' = account d \<and> (\<exists>cs. called d' = called d @ cs)"
  proof (cases "command_map d cid")
    case None
    with run show ?thesis by simp
  next
    case c: (Some c)
    show ?thesis
    proof (cases "ac_callback c")
      case None
      with run c have "callback_of d' = callback_of d" "called d' = called d"
        by (auto simp: callback_of_def fun_eq_iff)
      then show ?thesis by (simp add: account_def pending_def)
    next
      case (Some cb)
      with run c have rm: "remove_async_command cid (d\<lparr>called := called d @ [(cb, st, res)]\<rparr>) = Inr d'" by simp
      note fr = remove_async_command_frame [OF rm]
      have "callback_of d' = (callback_of d)(cid := None)" using fr(6) by (auto simp: callback_of_def fun_eq_iff)
      moreover have "callback_of d cid = Some cb" using c Some by (simp add: callback_of_def)
      ultimately show ?thesis using fr(4) by (simp add: account_def pending_def pend_take)
    qed
  qed
  then show "account d' = account d" "\<exists>cs. called d' = called d @ cs" by simp_all
qed

definition only_moves :: "('l, 'cb) nvme_driver \<Rightarrow> ('l, 'cb) nvme_driver \<Rightarrow> bool" where
  "only_moves d d' \<longleftrightarrow> account d' = account d \<and> (\<exists>cs. called d' = called d @ cs)"

lemma only_moves_refl [simp]: "only_moves d d"
  by (simp add: only_moves_def)

lemma only_moves_trans: "only_moves d d' \<Longrightarrow> only_moves d' d'' \<Longrightarrow> only_moves d d''"
  by (auto simp: only_moves_def)

lemma same_callbacks_moves: "same_callbacks d d' \<Longrightarrow> only_moves d d'"
  by (simp add: same_callbacks_def only_moves_def account_def pending_def)

lemma irq_loop_moves:
  assumes "irq_loop qi found d = Some (Inr (f, d'))"
  shows "only_moves d d'"
proof -
  have "case r of Inl e \<Rightarrow> True | Inr (f, d') \<Rightarrow> only_moves d d'"
    if "irq_loop qi found d = Some r" for r
  proof (rule irq_loop.raw_induct [OF _ that], goal_cases)
    case (1 loop qi found d r)
    show ?case
    proof (cases "cqe_pending qi d")
      case (Inl e)
      then show ?thesis using 1(2) by auto
    next
      case pend: (Inr p)
      show ?thesis
      proof (cases "p \<and> (\<exists>d1. handle_cqe qi (cq_head (queues d ! qi)) d = Inr d1)")
        case False
        then show ?thesis using 1(2) pend by (auto split: if_splits sum.splits)
      next
        case True
        then obtain d1 where d1: "handle_cqe qi (cq_head (queues d ! qi)) d = Inr d1" by blast
        have "only_moves d d1" using handle_cqe_account [OF d1] by (simp add: only_moves_def)
        then have here: "only_moves d (set_queue qi (update_cq_head (queues d1 ! qi)) d1)"
          by (rule only_moves_trans) (simp add: same_callbacks_moves)
        have "loop qi (found + 1) (set_queue qi (update_cq_head (queues d1 ! qi)) d1) = Some r"
          using 1(2) pend True d1 by simp
        from 1(1) [OF this] have "case r of Inl e \<Rightarrow> True
            | Inr (f, d') \<Rightarrow> only_moves (set_queue qi (update_cq_head (queues d1 ! qi)) d1) d'" .
        then show ?thesis by (auto split: sum.splits intro: only_moves_trans [OF here])
      qed
    qed
  qed
  from this [OF assms] show ?thesis by simp
qed

lemma irq_entry_moves:
  assumes "irq_entry ops vector d = Inr d'"
  shows "only_moves d d'"
proof -
  obtain f d1 where d1: "irq_loop (unat vector) 0 d = Some (Inr (f, d1))"
    and bell: "(if f \<noteq> 0 then ring_cq_doorbell ops (unat vector) d1 else Inr d1) = Inr d'"
    using assms by (auto simp: irq_entry_def nvme_irq_def bindE_Inr_iff split: if_split_asm option.split_asm)
  have "same_callbacks d1 d'"
    using bell ring_cq_doorbell_callbacks by (cases "f = 0") auto
  then show ?thesis
    by (rule only_moves_trans [OF irq_loop_moves [OF d1] same_callbacks_moves])
qed

section \<open>Properties\<close>

text \<open>
  C28: no callback is forgotten or invented. A submission adds its own callback to those that wait or
  have been called, except that the command, if any, that still holds its identifier loses its
  callback; an interrupt only moves callbacks from the waiting ones to the called ones, and never
  takes back a call.
\<close>

theorem callbacks_conserved:
  "(case submit_rw_command ops tq do_write nsid pos buf sz (Some cb) d of
      Inl e \<Rightarrow> True
    | Inr (cid, d1) \<Rightarrow> called d1 = called d \<and>
        account d1 + (case callback_of d (command_id_counter d) of None \<Rightarrow> {#} | Some old \<Rightarrow> {#old#}) =
          add_mset cb (account d)) \<and>
   (case irq_entry ops vector d of
      Inl e \<Rightarrow> True
    | Inr d2 \<Rightarrow> account d2 = account d \<and> take (length (called d)) (called d2) = called d)"
proof (intro conjI)
  show "case submit_rw_command ops tq do_write nsid pos buf sz (Some cb) d of
      Inl e \<Rightarrow> True
    | Inr (cid, d1) \<Rightarrow> called d1 = called d \<and>
        account d1 + (case callback_of d (command_id_counter d) of None \<Rightarrow> {#} | Some old \<Rightarrow> {#old#}) =
          add_mset cb (account d)"
  proof (cases "submit_rw_command ops tq do_write nsid pos buf sz (Some cb) d")
    case (Inr r)
    then obtain cid d1 where r: "submit_rw_command ops tq do_write nsid pos buf sz (Some cb) d = Inr (cid, d1)"
      by (cases r) simp
    note sub = submit_rw_callbacks [OF this]
    show ?thesis
    proof (cases "callback_of d (command_id_counter d)")
      case None
      with r sub show ?thesis by (simp add: account_def pending_def pend_add)
    next
      case (Some old)
      with r sub show ?thesis by (simp add: account_def pending_def pend_Some pend_take)
    qed
  qed simp
  show "case irq_entry ops vector d of
      Inl e \<Rightarrow> True
    | Inr d2 \<Rightarrow> account d2 = account d \<and> take (length (called d)) (called d2) = called d"
    using irq_entry_moves [of ops vector d] by (auto simp: only_moves_def split: sum.split)
qed

end
