(* ===== verification/NvmeStart.thy ===== *)
theory NvmeStart
  imports NvmeCallbacks
begin

text \<open>
  What the start of the driver leaves alone: administration commands are synchronous, so they leave
  no callback behind, and none of them changes the number of queues. The threads that issue requests
  begin from such a driver.
\<close>

section \<open>Keeping the driver idle\<close>

definition keeps_idle :: "('l, 'cb) nvme_driver \<Rightarrow> ('l, 'cb) nvme_driver \<Rightarrow> bool" where
  "keeps_idle d d' \<longleftrightarrow> length (queues d') = length (queues d) \<and> (pending d = {#} \<longrightarrow> pending d' = {#})"

named_theorems idle \<open>operations that keep the driver idle\<close>

lemma keeps_idle_refl [simp]: "keeps_idle d d"
  by (simp add: keeps_idle_def)

lemma keeps_idle_trans: "keeps_idle d d' \<Longrightarrow> keeps_idle d' d'' \<Longrightarrow> keeps_idle d d''"
  by (simp add: keeps_idle_def)

lemma keeps_idle_upd [simp]:
  "keeps_idle d (d'\<lparr>mem := m\<rparr>) = keeps_idle d d'" "keeps_idle d (d'\<lparr>link := l\<rparr>) = keeps_idle d d'"
  "keeps_idle (d\<lparr>mem := m\<rparr>) d' = keeps_idle d d'" "keeps_idle (d\<lparr>link := l\<rparr>) d' = keeps_idle d d'"
  "keeps_idle d (set_queue qi q d') = keeps_idle d d'"
  "keeps_idle (set_queue qi q d) d' = keeps_idle d d'"
  by (simp_all add: keeps_idle_def pending_def set_queue_def)

lemma callback_of_setup [simp]:
  "callback_of (d\<lparr>queue_count := n\<rparr>) = callback_of d" "callback_of (d\<lparr>online_queues := n\<rparr>) = callback_of d"
  "callback_of (d\<lparr>ctrl_config := c\<rparr>) = callback_of d" "callback_of (d\<lparr>ctrl_cap := cap\<rparr>) = callback_of d"
  "callback_of (d\<lparr>ctrl_page_size := p\<rparr>) = callback_of d" "callback_of (d\<lparr>queue_depth := n'\<rparr>) = callback_of d"
  "callback_of (d\<lparr>db_stride := n'\<rparr>) = callback_of d"
  by (simp_all add: callback_of_def fun_eq_iff)

lemma keeps_idle_setup [simp]:
  "keeps_idle d (d'\<lparr>queue_count := n\<rparr>) = keeps_idle d d'" "keeps_idle d (d'\<lparr>online_queues := n\<rparr>) = keeps_idle d d'"
  "keeps_idle (d\<lparr>ctrl_config := c\<rparr>) d' = keeps_idle d d'" "keeps_idle (d\<lparr>ctrl_cap := cap\<rparr>) d' = keeps_idle d d'"
  "keeps_idle (d\<lparr>ctrl_page_size := p\<rparr>) d' = keeps_idle d d'" "keeps_idle (d\<lparr>queue_depth := n'\<rparr>) d' = keeps_idle d d'"
  "keeps_idle (d\<lparr>db_stride := n'\<rparr>) d' = keeps_idle d d'"
  by (simp_all add: keeps_idle_def pending_def)

lemma pending_empty: "pending d = {#} \<longleftrightarrow> callback_of d = (\<lambda>c. None)"
proof
  assume *: "pending d = {#}"
  have "callback_of d c = None" for c
    using * pend_take [of "callback_of d" c] by (cases "callback_of d c") (simp_all add: pending_def)
  then show "callback_of d = (\<lambda>c. None)" by auto
qed (simp add: pending_def pend_none)

lemma idle_callbacks:
  "same_callbacks d d' \<Longrightarrow> length (queues d') = length (queues d) \<Longrightarrow> keeps_idle d d'"
  by (simp add: keeps_idle_def same_callbacks_def pending_def)

lemma idle_moves: "only_moves d d' \<Longrightarrow> length (queues d') = length (queues d) \<Longrightarrow> keeps_idle d d'"
  by (auto simp: keeps_idle_def only_moves_def account_def)

section \<open>The number of queues\<close>

lemma put_mem_queues: "put_mem a bs d = Inr d' \<Longrightarrow> queues d' = queues d"
  by (auto simp: put_mem_def bindE_Inr_iff)

lemma put_reg_queues: "put_reg ops a v d = Inr d' \<Longrightarrow> queues d' = queues d"
  by (auto simp: put_reg_def bindE_Inr_iff)

lemma new_prp_list_queues: "new_prp_list cid d = Inr (prp, d') \<Longrightarrow> queues d' = queues d"
  by (auto simp: new_prp_list_def bindE_Inr_iff push_prp_list_def split: option.splits)

lemma chain_prp_list_queues: "chain_prp_list cid old i d = Inr (prp, d') \<Longrightarrow> queues d' = queues d"
  unfolding chain_prp_list_def bindE_Inr_iff
  by (auto dest!: new_prp_list_queues put_mem_queues simp: bindE_Inr_iff)

lemma prp_loop_queues:
  assumes "prp_loop cid prp i buf buflen d = Some (Inr d')"
  shows "queues d' = queues d"
proof -
  have "case r of Inl e \<Rightarrow> True | Inr d' \<Rightarrow> queues d' = queues d"
    if "prp_loop cid prp i buf buflen d = Some r" for r
  proof (rule prp_loop.raw_induct [OF _ that], goal_cases)
    case (1 loop cid prp i buf buflen d r)
    then show ?case
      by (fastforce split: sum.splits if_splits dest: chain_prp_list_queues put_mem_queues)
  qed
  from this [OF assms] show ?thesis by simp
qed

lemma setup_buffer_queues: "setup_buffer cid cmd buf buflen d = Inr (cmd', d') \<Longrightarrow> queues d' = queues d"
  unfolding setup_buffer_def Let_def
  by (auto simp: bindE_Inr_iff split: if_splits option.splits dest!: new_prp_list_queues prp_loop_queues)

lemma write_sq_doorbell_queues: "write_sq_doorbell ops qi w d = Inr d' \<Longrightarrow> length (queues d') = length (queues d)"
  unfolding write_sq_doorbell_def Let_def
  by (auto simp: bindE_Inr_iff set_queue_def split: if_splits dest!: put_mem_queues put_reg_queues)

lemma submit_async_queues:
  "submit_async_command ops qi cmd buf buflen cb d = Inr (cid, d') \<Longrightarrow> length (queues d') = length (queues d)"
  unfolding submit_async_command_def submit_sq_command_def setup_async_command_def Let_def
  by (auto simp: bindE_Inr_iff set_queue_def split: if_splits
      dest!: put_mem_queues write_sq_doorbell_queues setup_buffer_queues)

lemma irq_loop_queues:
  assumes "irq_loop qi found d = Some (Inr (f, d'))"
  shows "length (queues d') = length (queues d)"
proof -
  have "case r of Inl e \<Rightarrow> True | Inr (f, d') \<Rightarrow> length (queues d') = length (queues d)"
    if "irq_loop qi found d = Some r" for r
  proof (rule irq_loop.raw_induct [OF _ that], goal_cases)
    case (1 loop qi found d r)
    then show ?case
      by (fastforce simp: set_queue_def split: sum.splits if_splits dest: handle_cqe_frame(1))
  qed
  from this [OF assms] show ?thesis by simp
qed

lemma irq_entry_queues: "irq_entry ops vector d = Inr d' \<Longrightarrow> length (queues d') = length (queues d)"
  unfolding irq_entry_def nvme_irq_def ring_cq_doorbell_def
  by (auto simp: bindE_Inr_iff Let_def split: if_splits option.splits
      dest!: irq_loop_queues put_mem_queues put_reg_queues)

section \<open>Synchronous commands\<close>

lemma idle_irq [idle]: "irq_entry ops vector d = Inr d' \<Longrightarrow> keeps_idle d d'"
  by (simp add: idle_moves irq_entry_moves irq_entry_queues)

lemma idle_sync_submission [idle]:
  assumes "submit_async_command ops qi cmd buf buflen None d = Inr (cid, d')"
  shows "keeps_idle d d'"
  using submit_async_callbacks [OF assms] submit_async_queues [OF assms]
  by (auto simp: keeps_idle_def pending_empty)

lemma idle_sleep [idle]:
  assumes "sleep_until_completed ops dev cid d = Some (Inr (c, d'))"
  shows "keeps_idle d d'"
proof -
  have "case r of Inl e \<Rightarrow> True | Inr (c, d') \<Rightarrow> keeps_idle d d'"
    if "sleep_until_completed ops dev cid d = Some r" for r
  proof (rule sleep_until_completed.raw_induct [OF _ that], goal_cases)
    case (1 sleep ops dev cid d r)
    show ?case
    proof (cases "\<exists>c l m vector d1. command_map d cid = Some c \<and> \<not> ac_completed c \<and>
        dev (link d, mem d) = Some (l, m, vector) \<and> irq_entry ops vector (d\<lparr>link := l, mem := m\<rparr>) = Inr d1")
      case True
      then obtain c l m vector d1 where step: "command_map d cid = Some c" "\<not> ac_completed c"
        "dev (link d, mem d) = Some (l, m, vector)" "irq_entry ops vector (d\<lparr>link := l, mem := m\<rparr>) = Inr d1"
        by blast
      have first: "keeps_idle d d1" using idle_irq [OF step(4)] by simp
      from step 1(2) have "sleep ops dev cid d1 = Some r" by simp
      from 1(1) [OF this] show ?thesis by (auto split: sum.splits intro: keeps_idle_trans [OF first])
    next
      case False
      then show ?thesis using 1(2) by (fastforce split: option.splits if_splits sum.splits)
    qed
  qed
  from this [OF assms] show ?thesis by simp
qed

lemma idle_remove [idle]:
  assumes "remove_async_command cid d = Inr d'"
  shows "keeps_idle d d'"
proof -
  note fr = remove_async_command_frame [OF assms]
  have "callback_of d' = (callback_of d)(cid := None)" using fr(6) by (auto simp: callback_of_def fun_eq_iff)
  then show ?thesis using fr(1) by (auto simp: keeps_idle_def pending_empty)
qed

lemma idle_sync_command [idle]:
  "submit_sync_command ops dev qi cmd buf buflen d = Inr (st, res, d') \<Longrightarrow> keeps_idle d d'"
  unfolding submit_sync_command_def wait_command_def
  by (auto simp: bindE_Inr_iff split: option.splits dest!: idle) (simp_all add: keeps_idle_def)

section \<open>Administration and start\<close>

lemma idle_set_queue_count [idle]: "set_queue_count ops dev n d = Inr (nr, d') \<Longrightarrow> keeps_idle d d'"
  unfolding set_queue_count_def nvme_set_features_def Let_def
  by (auto simp: bindE_Inr_iff split: if_splits dest!: idle)

lemma idle_dbbuf_config [idle]: "dbbuf_config ops dev d = Inr d' \<Longrightarrow> keeps_idle d d'"
  unfolding dbbuf_config_def Let_def by (auto simp: bindE_Inr_iff split: if_splits dest!: idle)

lemma idle_allocate_queue [idle]: "allocate_queue qid dep d = Inr d' \<Longrightarrow> keeps_idle d d'"
  unfolding allocate_queue_def Let_def by (auto simp: bindE_Inr_iff)

lemma idle_init_queue [idle]: "init_queue qid d = Inr d' \<Longrightarrow> keeps_idle d d'"
  unfolding init_queue_def Let_def by (auto simp: bindE_Inr_iff)

lemma idle_create_queue [idle]: "create_queue ops dev qid d = Inr (st, d') \<Longrightarrow> keeps_idle d d'"
  unfolding create_queue_def
  by (auto simp: bindE_Inr_iff split: if_splits dest!: idle intro: keeps_idle_trans)

lemma idle_create_queues [idle]: "create_queues ops dev qs d = Inr d' \<Longrightarrow> keeps_idle d d'"
  by (induction qs arbitrary: d)
    (auto simp: bindE_Inr_iff split: if_splits dest!: idle_create_queue intro: keeps_idle_trans)

lemma idle_allocate_queues [idle]:
  "foldE (\<lambda>i. allocate_queue (of_nat i) dep) qs d = Inr d' \<Longrightarrow> keeps_idle d d'"
  by (induction qs arbitrary: d) (auto simp: bindE_Inr_iff dest!: idle_allocate_queue intro: keeps_idle_trans)

lemma idle_setup_io_queues [idle]: "setup_io_queues ops dev d = Inr d' \<Longrightarrow> keeps_idle d d'"
  unfolding setup_io_queues_def Let_def
  by (auto simp: bindE_Inr_iff split: if_splits dest!: idle intro: keeps_idle_trans)

lemma idle_put_reg [idle]: "put_reg ops a v d = Inr d' \<Longrightarrow> keeps_idle d d'"
  by (simp add: idle_callbacks put_reg_callbacks put_reg_queues)

lemma idle_wait_ready [idle]: "wait_ready ops enabled d = Inr d' \<Longrightarrow> keeps_idle d d'"
  by (auto simp: wait_ready_def bindE_Inr_iff split: option.splits)

lemma idle_setup_admin_queue [idle]: "setup_admin_queue ops d = Inr d' \<Longrightarrow> keeps_idle d d'"
  unfolding setup_admin_queue_def disable_controller_def enable_controller_def Let_def
  by (auto simp: bindE_Inr_iff split: if_splits dest!: idle) (simp_all add: keeps_idle_def)

lemma idle_identify_controller [idle]: "identify_controller ops dev d = Inr (st, d') \<Longrightarrow> keeps_idle d d'"
  unfolding identify_controller_def Let_def by (auto simp: bindE_Inr_iff dest!: idle)

lemma idle_reset [idle]: "reset ops dev d = Inr d' \<Longrightarrow> keeps_idle d d'"
  unfolding reset_def Let_def
  by (auto simp: bindE_Inr_iff split: if_splits dest!: idle) (simp_all add: keeps_idle_def)

lemma new_driver_idle:
  assumes "NVMeDriver cpus io_depth l m use_dbbuf raw_config raw_counter = Inr d"
  shows "pending d = {#} \<and> queues d = [] \<and> ncpus d = cpus"
  using assms by (auto simp: NVMeDriver_def bindE_Inr_iff pending_empty callback_of_def fun_eq_iff)

lemma start_idle:
  assumes "start ops dev send_cfg await d = Inr d'" "pending d = {#}"
  shows "pending d' = {#} \<and> length (queues d') = length (queues d) + unat (ncpus d + 1)"
proof -
  obtain l1 l2 where reset: "reset ops dev (d\<lparr>link := l2, queues := queues d @ replicate (unat (ncpus d + 1)) new_queue\<rparr>) = Inr d'"
    using assms(1) by (auto simp: start_def bindE_Inr_iff)
  from idle_reset [OF this] assms(2) show ?thesis by (simp add: keeps_idle_def pending_def)
qed

end
