(* ===== verification/ConfigReader.thy ===== *)
theory ConfigReader
  imports Prelude "HOL-Library.Multiset"
begin

text \<open>
  \<^verbatim>\<open>config_reader.h\<close> and \<^verbatim>\<open>config_reader.cpp\<close>: the
  configurations of the simulated device and of the host, read from two YAML files. The messages
  follow \<^verbatim>\<open>proto/ssd_config.proto\<close>; a message starts with zeros and empty lists.
  Parameters: the YAML library, as the operations of a record over its nodes \<open>'n\<close>, and the type \<open>'r\<close>
  of \<open>double\<close> with the three constants the code names.
\<close>

section \<open>The YAML library\<close>

text \<open>
  \<open>operator[]\<close> by key and by index, \<open>size\<close>, \<open>as\<close> with a fallback, and \<open>as\<close> without one, which
  throws; \<open>int\<close> is a 32-bit word. \<open>yaml_file\<close> is \<open>LoadFile\<close>: \<open>None\<close> stands for the exception \<open>BadFile\<close>.
\<close>

record ('n, 'r) yaml =
  yaml_file :: "string \<Rightarrow> 'n option"
  at_key :: "'n \<Rightarrow> string \<Rightarrow> 'n"
  at_index :: "'n \<Rightarrow> nat \<Rightarrow> 'n"
  node_size :: "'n \<Rightarrow> nat"
  as_u32 :: "'n \<Rightarrow> fault + u32"
  u32_or :: "'n \<Rightarrow> u32 \<Rightarrow> u32"
  int_or :: "'n \<Rightarrow> u32 \<Rightarrow> u32"
  u64_or :: "'n \<Rightarrow> u64 \<Rightarrow> u64"
  double_or :: "'n \<Rightarrow> 'r \<Rightarrow> 'r"
  string_or :: "'n \<Rightarrow> string \<Rightarrow> string"

text \<open>Constants of type \<open>double\<close>.\<close>

record 'r doubles =
  d_zero :: 'r
  d_half :: 'r
  d_one :: 'r

section \<open>The device's configuration\<close>

datatype flash_technology = FT_SLC | FT_MLC | FT_TLC

datatype cache_mode = CM_NO_CACHE | CM_WRITE_CACHE

datatype block_selection_policy = BSP_GREEDY

datatype plane_allocate_scheme =
    PAS_CWDP | PAS_CWPD | PAS_CDWP | PAS_CDPW | PAS_CPWD | PAS_CPDW
  | PAS_WCDP | PAS_WCPD | PAS_WDCP | PAS_WDPC | PAS_WPCD | PAS_WPDC
  | PAS_DCWP | PAS_DCPW | PAS_DWCP | PAS_DWPC | PAS_DPCW | PAS_DPWC
  | PAS_PCWD | PAS_PCDW | PAS_PWCD | PAS_PWDC | PAS_PDCW | PAS_PDWC

record flash_config =
  technology :: flash_technology
  page_read_latency_lsb :: u64
  page_read_latency_csb :: u64
  page_read_latency_msb :: u64
  page_program_latency_lsb :: u64
  page_program_latency_csb :: u64
  page_program_latency_msb :: u64
  block_erase_latency :: u64
  nr_dies_per_chip :: u32
  nr_planes_per_die :: u32
  nr_blocks_per_plane :: u32
  nr_pages_per_block :: u32
  page_capacity :: u32

record ns_config =
  channel_ids :: "u32 list"
  chip_ids :: "u32 list"
  die_ids :: "u32 list"
  plane_ids :: "u32 list"
  ns_scheme :: plane_allocate_scheme

record ssd_config =
  ssd_flash :: flash_config
  ssd_seed :: u32
  ssd_cache_mode :: cache_mode
  mapping_table_capacity :: u32
  data_cache_capacity :: u32
  gc_threshold :: u32
  gc_hard_threshold :: u32
  ssd_block_selection :: block_selection_policy
  channel_count :: u32
  nr_chips_per_channel :: u32
  channel_transfer_rate :: u32
  channel_width :: u32
  ssd_namespaces :: "ns_config list"

definition new_ns_config :: ns_config where
  "new_ns_config = \<lparr>channel_ids = [], chip_ids = [], die_ids = [], plane_ids = [], ns_scheme = PAS_CWDP\<rparr>"

definition new_ssd_config :: ssd_config where
  "new_ssd_config = \<lparr>ssd_flash = \<lparr>technology = FT_SLC, page_read_latency_lsb = 0, page_read_latency_csb = 0,
       page_read_latency_msb = 0, page_program_latency_lsb = 0, page_program_latency_csb = 0,
       page_program_latency_msb = 0, block_erase_latency = 0, nr_dies_per_chip = 0, nr_planes_per_die = 0,
       nr_blocks_per_plane = 0, nr_pages_per_block = 0, page_capacity = 0\<rparr>,
     ssd_seed = 0, ssd_cache_mode = CM_NO_CACHE, mapping_table_capacity = 0, data_cache_capacity = 0,
     gc_threshold = 0, gc_hard_threshold = 0, ssd_block_selection = BSP_GREEDY, channel_count = 0,
     nr_chips_per_channel = 0, channel_transfer_rate = 0, channel_width = 0, ssd_namespaces = []\<rparr>"

definition get_plane_allocate_scheme :: "string \<Rightarrow> plane_allocate_scheme" where
  "get_plane_allocate_scheme scheme =
     (if scheme = ''CWDP'' then PAS_CWDP
      else if scheme = ''CWPD'' then PAS_CWPD
      else if scheme = ''CDWP'' then PAS_CDWP
      else if scheme = ''CDPW'' then PAS_CDPW
      else if scheme = ''CPWD'' then PAS_CPWD
      else if scheme = ''CPDW'' then PAS_CPDW
      else if scheme = ''WCDP'' then PAS_WCDP
      else if scheme = ''WCPD'' then PAS_WCPD
      else if scheme = ''WDCP'' then PAS_WDCP
      else if scheme = ''WDPC'' then PAS_WDPC
      else if scheme = ''WPCD'' then PAS_WPCD
      else if scheme = ''WPDC'' then PAS_WPDC
      else if scheme = ''DCWP'' then PAS_DCWP
      else if scheme = ''DCPW'' then PAS_DCPW
      else if scheme = ''DWCP'' then PAS_DWCP
      else if scheme = ''DWPC'' then PAS_DWPC
      else if scheme = ''DPCW'' then PAS_DPCW
      else if scheme = ''DPWC'' then PAS_DPWC
      else if scheme = ''PCWD'' then PAS_PCWD
      else if scheme = ''PCDW'' then PAS_PCDW
      else if scheme = ''PWCD'' then PAS_PWCD
      else if scheme = ''PWDC'' then PAS_PWDC
      else if scheme = ''PDCW'' then PAS_PDCW
      else if scheme = ''PDWC'' then PAS_PDWC
      else PAS_CWDP)"

text \<open>One of the four lists of a namespace: every element is converted, or the exception ends the run.\<close>

definition read_ids :: "('n, 'r) yaml \<Rightarrow> 'n \<Rightarrow> fault + u32 list" where
  "read_ids y node =
     foldE (\<lambda>j acc. bindE (as_u32 y (at_index y node j)) (\<lambda>v. Inr (acc @ [v]))) [0..<node_size y node] []"

definition load_ssd_namespace :: "('n, 'r) yaml \<Rightarrow> 'n \<Rightarrow> fault + ns_config" where
  "load_ssd_namespace y ns =
     bindE (read_ids y (at_key y ns ''channels'')) (\<lambda>cs.
     bindE (read_ids y (at_key y ns ''chips'')) (\<lambda>ps.
     bindE (read_ids y (at_key y ns ''dies'')) (\<lambda>ds.
     bindE (read_ids y (at_key y ns ''planes'')) (\<lambda>ls.
       Inr (new_ns_config\<lparr>channel_ids := cs, chip_ids := ps, die_ids := ds, plane_ids := ls,
         ns_scheme := get_plane_allocate_scheme (string_or y (at_key y ns ''plane_allocate_scheme'') ''CWDP'')\<rparr>)))))"

definition load_ssd_namespaces :: "('n, 'r) yaml \<Rightarrow> 'n \<Rightarrow> ssd_config \<Rightarrow> fault + ssd_config" where
  "load_ssd_namespaces y nodes c =
     foldE (\<lambda>i c. bindE (load_ssd_namespace y (at_index y nodes i))
         (\<lambda>ns. Inr (c\<lparr>ssd_namespaces := ssd_namespaces c @ [ns]\<rparr>)))
       [0..<node_size y nodes] c"

definition load_flash_config :: "('n, 'r) yaml \<Rightarrow> 'n \<Rightarrow> flash_config \<Rightarrow> flash_config" where
  "load_flash_config y flash_node f =
     (let tech = string_or y (at_key y flash_node ''technology'') ''mlc'';
          rd = at_key y flash_node ''page_read_latency'';
          pr = at_key y flash_node ''page_program_latency''
      in f\<lparr>technology := (if tech = ''slc'' then FT_SLC else if tech = ''mlc'' then FT_MLC
                          else if tech = ''tlc'' then FT_TLC else technology f),
           page_read_latency_lsb := u64_or y (at_key y rd ''lsb'') 75000,
           page_read_latency_csb := u64_or y (at_key y rd ''csb'') 75000,
           page_read_latency_msb := u64_or y (at_key y rd ''msb'') 75000,
           page_program_latency_lsb := u64_or y (at_key y pr ''lsb'') 750000,
           page_program_latency_csb := u64_or y (at_key y pr ''csb'') 750000,
           page_program_latency_msb := u64_or y (at_key y pr ''msb'') 750000,
           block_erase_latency := u64_or y (at_key y flash_node ''block_erase_latency'') 3800000,
           nr_dies_per_chip := u32_or y (at_key y flash_node ''dies_per_chip'') 2,
           nr_planes_per_die := u32_or y (at_key y flash_node ''planes_per_die'') 2,
           nr_blocks_per_plane := u32_or y (at_key y flash_node ''blocks_per_plane'') 2048,
           nr_pages_per_block := u32_or y (at_key y flash_node ''pages_per_block'') 256,
           page_capacity := u32_or y (at_key y flash_node ''page_capacity'') 8192\<rparr>)"

text \<open>The result is the function's result and the configuration; \<open>2 << 20\<close> and \<open>512 << 20\<close> are defaults.\<close>

definition load_ssd_config ::
    "('n, 'r) yaml \<Rightarrow> string \<Rightarrow> ssd_config \<Rightarrow> fault + (bool \<times> ssd_config)" where
  "load_ssd_config y filename c =
     (case yaml_file y filename of
        None \<Rightarrow> Inr (False, c)
      | Some root \<Rightarrow>
          let mode = string_or y (at_key y root ''cache_mode'') ''no'';
              gc = at_key y root ''gc_threshold'';
              policy = string_or y (at_key y root ''block_selection_policy'') ''greedy'';
              ch = at_key y root ''channel'';
              c1 = c\<lparr>ssd_seed := u32_or y (at_key y root ''seed'') 123,
                ssd_cache_mode := (if mode = ''no'' then CM_NO_CACHE
                                   else if mode = ''write'' then CM_WRITE_CACHE else ssd_cache_mode c),
                mapping_table_capacity := u32_or y (at_key y root ''mapping_table_capacity'') (push_bit 20 2),
                data_cache_capacity := u32_or y (at_key y root ''data_cache_capacity'') (push_bit 20 512),
                gc_threshold := u32_or y (at_key y gc ''normal'') 20,
                gc_hard_threshold := u32_or y (at_key y gc ''hard'') 200,
                ssd_block_selection := (if policy = ''greedy'' then BSP_GREEDY else ssd_block_selection c),
                channel_count := u32_or y (at_key y root ''channel_count'') 8,
                nr_chips_per_channel := u32_or y (at_key y ch ''chips_per_channel'') 4,
                channel_transfer_rate := u32_or y (at_key y ch ''transfer_rate'') 300,
                channel_width := u32_or y (at_key y ch ''width'') 1,
                ssd_flash := load_flash_config y (at_key y root ''flash'') (ssd_flash c)\<rparr>
          in bindE (load_ssd_namespaces y (at_key y root ''namespaces'') c1) (\<lambda>c2. Inr (True, c2)))"

section \<open>The host's configuration\<close>

datatype flow_type = SYNTHETIC

datatype request_size_distribution = CONSTANT | NORMAL

datatype address_distribution = UNIFORM | ZIPFIAN

text \<open>The union of the flow definition has one member, \<open>synthetic\<close>; its fields are flattened here.\<close>

record 'r flow_definition =
  flow_name :: string
  flow_kind :: flow_type
  flow_nsid :: u32
  flow_seed :: u32
  flow_request_count :: size_t
  flow_read_ratio :: 'r
  flow_size_distribution :: request_size_distribution
  flow_size_mean :: u32
  flow_size_variance :: u32
  flow_address_distribution :: address_distribution
  flow_zipfian_alpha :: 'r
  flow_address_alignment :: u32
  flow_average_enqueued :: u32

record 'r host_config =
  hc_io_queue_depth :: u32
  hc_sector_size :: size_t
  hc_namespaces :: "u32 \<Rightarrow> size_t option"
  hc_flows :: "'r flow_definition list"

text \<open>\<open>push_back({})\<close> adds a definition of zeros. An unknown name of a distribution leaves the zero.\<close>

definition new_flow :: "'r doubles \<Rightarrow> 'r flow_definition" where
  "new_flow D = \<lparr>flow_name = [], flow_kind = SYNTHETIC, flow_nsid = 0, flow_seed = 0, flow_request_count = 0,
     flow_read_ratio = d_zero D, flow_size_distribution = CONSTANT, flow_size_mean = 0, flow_size_variance = 0,
     flow_address_distribution = UNIFORM, flow_zipfian_alpha = d_zero D, flow_address_alignment = 0,
     flow_average_enqueued = 0\<rparr>"

definition load_workload_flow ::
    "('n, 'r) yaml \<Rightarrow> 'r doubles \<Rightarrow> 'n \<Rightarrow> 'r host_config \<Rightarrow> 'r host_config" where
  "load_workload_flow y D node c =
     (let f = (new_flow D)\<lparr>flow_nsid := u32_or y (at_key y node ''namespace'') 0\<rparr>;
          sd = string_or y (at_key y node ''request_size_distribution'') ''constant'';
          ad = string_or y (at_key y node ''address_distribution'') ''uniform'';
          f1 = f\<lparr>flow_kind := SYNTHETIC,
                 flow_seed := u32_or y (at_key y node ''seed'') 123,
                 flow_request_count := u64_or y (at_key y node ''request_count'') 10000,
                 flow_read_ratio := double_or y (at_key y node ''read_ratio'') (d_half D),
                 flow_size_mean := int_or y (at_key y node ''request_size_mean'') 8\<rparr>;
          f2 = (if sd = ''constant'' then f1\<lparr>flow_size_distribution := CONSTANT\<rparr>
                else if sd = ''normal''
                then f1\<lparr>flow_size_distribution := NORMAL,
                        flow_size_variance := int_or y (at_key y node ''request_size_variance'') 0\<rparr>
                else f1);
          f3 = (if ad = ''uniform'' then f2\<lparr>flow_address_distribution := UNIFORM\<rparr>
                else if ad = ''zipfian''
                then f2\<lparr>flow_address_distribution := ZIPFIAN,
                        flow_zipfian_alpha := double_or y (at_key y node ''zipfian_alpha'') (d_one D)\<rparr>
                else f2);
          f4 = f3\<lparr>flow_address_alignment := u32_or y (at_key y node ''address_alignment'') 0,
                  flow_average_enqueued := u32_or y (at_key y node ''average_enqueued_requests'') 1\<rparr>
      in c\<lparr>hc_flows := hc_flows c @ [if string_or y (at_key y node ''type'') ''synthetic'' = ''synthetic'' then f4 else f]\<rparr>)"

text \<open>The product is taken in 32 bits; the number of pages per block is a factor twice.\<close>

definition chip_capacity_sects :: "flash_config \<Rightarrow> size_t \<Rightarrow> size_t" where
  "chip_capacity_sects f sector =
     ucast (nr_dies_per_chip f * nr_planes_per_die f * nr_blocks_per_plane f * nr_pages_per_block f *
            nr_pages_per_block f) div sector"

text \<open>\<open>emplace\<close> keeps an entry that is there.\<close>

definition add_namespace :: "flash_config \<Rightarrow> ns_config list \<Rightarrow> nat \<Rightarrow> 'r host_config \<Rightarrow> 'r host_config" where
  "add_namespace f nss i c =
     (let ns = nss ! i; nsid = of_nat (i + 1) :: u32;
          cap = chip_capacity_sects f (hc_sector_size c) * of_nat (length (channel_ids ns)) * of_nat (length (chip_ids ns))
      in c\<lparr>hc_namespaces := (case hc_namespaces c nsid of
             None \<Rightarrow> (hc_namespaces c)(nsid \<mapsto> cap) | Some n \<Rightarrow> hc_namespaces c)\<rparr>)"

definition load_host_config ::
    "('n, 'r) yaml \<Rightarrow> 'r doubles \<Rightarrow> string \<Rightarrow> ssd_config \<Rightarrow> 'r host_config \<Rightarrow> bool \<times> 'r host_config" where
  "load_host_config y D filename ssd c =
     (case yaml_file y filename of
        None \<Rightarrow> (False, c)
      | Some root \<Rightarrow>
          let c1 = c\<lparr>hc_sector_size := 512, hc_io_queue_depth := u32_or y (at_key y root ''io_queue_depth'') 1024\<rparr>;
              nss = ssd_namespaces ssd;
              c2 = fold (add_namespace (ssd_flash ssd) nss) [0..<length nss] c1;
              flows = at_key y root ''flows''
          in (True, fold (\<lambda>i. load_workload_flow y D (at_index y flows i)) [0..<node_size y flows] c2))"

text \<open>The configuration \<open>main\<close> starts with; the two integers hold what the memory held.\<close>

definition new_host_config :: "u32 \<Rightarrow> size_t \<Rightarrow> 'r host_config" where
  "new_host_config raw_depth raw_size = \<lparr>hc_io_queue_depth = raw_depth, hc_sector_size = raw_size,
     hc_namespaces = (\<lambda>i. None), hc_flows = []\<rparr>"

section \<open>Properties\<close>

text \<open>The name of a scheme: the order in which channels, ways, dies and planes are used.\<close>

primrec scheme_name :: "plane_allocate_scheme \<Rightarrow> string" where
  "scheme_name PAS_CWDP = ''CWDP''"
| "scheme_name PAS_CWPD = ''CWPD''"
| "scheme_name PAS_CDWP = ''CDWP''"
| "scheme_name PAS_CDPW = ''CDPW''"
| "scheme_name PAS_CPWD = ''CPWD''"
| "scheme_name PAS_CPDW = ''CPDW''"
| "scheme_name PAS_WCDP = ''WCDP''"
| "scheme_name PAS_WCPD = ''WCPD''"
| "scheme_name PAS_WDCP = ''WDCP''"
| "scheme_name PAS_WDPC = ''WDPC''"
| "scheme_name PAS_WPCD = ''WPCD''"
| "scheme_name PAS_WPDC = ''WPDC''"
| "scheme_name PAS_DCWP = ''DCWP''"
| "scheme_name PAS_DCPW = ''DCPW''"
| "scheme_name PAS_DWCP = ''DWCP''"
| "scheme_name PAS_DWPC = ''DWPC''"
| "scheme_name PAS_DPCW = ''DPCW''"
| "scheme_name PAS_DPWC = ''DPWC''"
| "scheme_name PAS_PCWD = ''PCWD''"
| "scheme_name PAS_PCDW = ''PCDW''"
| "scheme_name PAS_PWCD = ''PWCD''"
| "scheme_name PAS_PWDC = ''PWDC''"
| "scheme_name PAS_PDCW = ''PDCW''"
| "scheme_name PAS_PDWC = ''PDWC''"

text \<open>
  Every allocation scheme has exactly the name the reader accepts for it: the 24 names are the
  orders of the four letters, each is read as its own scheme, and any other string as the default.
\<close>

theorem plane_scheme_roundtrip:
  "get_plane_allocate_scheme (scheme_name s) = s \<and> mset (scheme_name s) = mset ''CWDP'' \<and>
   get_plane_allocate_scheme t = (if t \<in> range scheme_name then inv scheme_name t else PAS_CWDP)"
proof -
  have get_name: "get_plane_allocate_scheme (scheme_name s) = s" for s
    by (cases s) (simp_all add: get_plane_allocate_scheme_def)
  then have "inj scheme_name" by (metis injI)
  moreover have "mset (scheme_name s) = mset ''CWDP''" by (cases s) simp_all
  moreover have "scheme_name (get_plane_allocate_scheme t) = t" if "get_plane_allocate_scheme t \<noteq> PAS_CWDP"
    using that by (auto simp: get_plane_allocate_scheme_def split: if_split_asm)
  then have "get_plane_allocate_scheme t = PAS_CWDP" if "t \<notin> range scheme_name"
    using that by (metis rangeI)
  ultimately show ?thesis using get_name by (auto simp: inv_f_f)
qed

lemma load_workload_flow_fields:
  "hc_namespaces (load_workload_flow y D node c) = hc_namespaces c"
  "length (hc_flows (load_workload_flow y D node c)) = Suc (length (hc_flows c))"
  "hc_sector_size (load_workload_flow y D node c) = hc_sector_size c"
  "hc_io_queue_depth (load_workload_flow y D node c) = hc_io_queue_depth c"
  by (simp_all add: load_workload_flow_def Let_def)

lemma load_flows_fields:
  "hc_namespaces (fold (\<lambda>i. load_workload_flow y D (nd i)) is c) = hc_namespaces c \<and>
   length (hc_flows (fold (\<lambda>i. load_workload_flow y D (nd i)) is c)) = length (hc_flows c) + length is \<and>
   hc_sector_size (fold (\<lambda>i. load_workload_flow y D (nd i)) is c) = hc_sector_size c \<and>
   hc_io_queue_depth (fold (\<lambda>i. load_workload_flow y D (nd i)) is c) = hc_io_queue_depth c"
  by (induction "is" arbitrary: c) (simp_all add: load_workload_flow_fields)

lemma add_namespace_same [simp]:
  "hc_flows (add_namespace f nss i c) = hc_flows c" "hc_sector_size (add_namespace f nss i c) = hc_sector_size c"
  "hc_io_queue_depth (add_namespace f nss i c) = hc_io_queue_depth c"
  by (simp_all add: add_namespace_def Let_def)

text \<open>The capacity of the namespace with index \<open>i\<close>, in sectors of \<open>sector\<close> bytes.\<close>

definition ns_capacity :: "flash_config \<Rightarrow> ns_config list \<Rightarrow> size_t \<Rightarrow> nat \<Rightarrow> size_t" where
  "ns_capacity f nss sector i =
     chip_capacity_sects f sector * of_nat (length (channel_ids (nss ! i))) * of_nat (length (chip_ids (nss ! i)))"

lemma add_namespaces:
  assumes "n < 2 ^ 32" "hc_namespaces c = (\<lambda>i. None)"
  shows "hc_namespaces (fold (add_namespace f nss) [0..<n] c) = (\<lambda>nsid. if 1 \<le> unat nsid \<and> unat nsid \<le> n
      then Some (ns_capacity f nss (hc_sector_size c) (unat nsid - 1)) else None) \<and>
    hc_flows (fold (add_namespace f nss) [0..<n] c) = hc_flows c \<and>
    hc_sector_size (fold (add_namespace f nss) [0..<n] c) = hc_sector_size c \<and>
    hc_io_queue_depth (fold (add_namespace f nss) [0..<n] c) = hc_io_queue_depth c"
  using assms(1)
proof (induction n)
  case 0
  then show ?case using assms(2) by (auto simp: fun_eq_iff)
next
  case (Suc n)
  have id: "unat (of_nat (Suc n) :: u32) = Suc n" using Suc.prems by (intro unat_of_nat_lt) simp
  have at: "nsid = of_nat (Suc n) \<longleftrightarrow> unat nsid = Suc n" for nsid :: u32
    using id by (metis word_unat_eq_iff)
  from Suc show ?case
    by (auto simp: add_namespace_def ns_capacity_def Let_def fun_eq_iff id at le_Suc_eq simp del: of_nat_Suc)
qed


text \<open>A library whose only file has one kind of node: every list has two elements, every value is the fallback.\<close>

definition sample_yaml :: "(unit, nat) yaml" where
  "sample_yaml = \<lparr>yaml_file = (\<lambda>f. if f = ''workload.yaml'' then Some () else None), at_key = (\<lambda>n k. ()),
     at_index = (\<lambda>n i. ()), node_size = (\<lambda>n. 2), as_u32 = (\<lambda>n. Inr 0), u32_or = (\<lambda>n d. d),
     int_or = (\<lambda>n d. d), u64_or = (\<lambda>n d. d), double_or = (\<lambda>n d. d), string_or = (\<lambda>n d. d)\<rparr>"

definition sample_ssd :: ssd_config where
  "sample_ssd = new_ssd_config\<lparr>ssd_flash := (ssd_flash new_ssd_config)\<lparr>nr_dies_per_chip := 2,
       nr_planes_per_die := 2, nr_blocks_per_plane := 2048, nr_pages_per_block := 256, page_capacity := 8192\<rparr>,
     ssd_namespaces := [new_ns_config\<lparr>channel_ids := [0, 1, 2], chip_ids := [0]\<rparr>]\<rparr>"


lemma add_namespace_page_capacity: "add_namespace (f\<lparr>page_capacity := p\<rparr>) nss = add_namespace f nss"
  by (simp add: fun_eq_iff add_namespace_def chip_capacity_sects_def)

text \<open>
  C37: the capacity of the namespaces does not depend on the capacity of a page. With the reader's own
  defaults (2 dies, 2 planes, 2048 blocks, 256 pages of 8192 bytes) a chip counts as 2^20 sectors,
  where it has 2^25.
\<close>

theorem capacity_ignores_page_size:
  "load_host_config y D filename (ssd\<lparr>ssd_flash := (ssd_flash ssd)\<lparr>page_capacity := p\<rparr>\<rparr>) c =
     load_host_config y D filename ssd c \<and>
   chip_capacity_sects ((ssd_flash new_ssd_config)\<lparr>nr_dies_per_chip := 2, nr_planes_per_die := 2,
     nr_blocks_per_plane := 2048, nr_pages_per_block := 256, page_capacity := 8192\<rparr>) 512 = 2 ^ 20 \<and>
   (2 * 2 * 2048 * 256 * 8192 :: nat) div 512 = 2 ^ 25"
  by (simp add: load_host_config_def chip_capacity_sects_def new_ssd_config_def Let_def
      add_namespace_page_capacity split: option.split)

end
