(* ===== verification/Zipf.thy ===== *)
theory Zipf
  imports Prelude
begin

text \<open>
  \<^verbatim>\<open>zipf_distribution.h\<close>: rejection sampling of Zipf-distributed integers. The
  machine's floating-point numbers are a parameter: a type \<open>'r\<close> with the operations of \<open>double\<close> and of
  the mathematical library that the code calls; so is the uniform distribution of the standard
  library over the state \<open>'g\<close> of the random engine. What is proved holds for all of them.
\<close>

record 'r floats =
  f_add :: "'r \<Rightarrow> 'r \<Rightarrow> 'r"
  f_sub :: "'r \<Rightarrow> 'r \<Rightarrow> 'r"
  f_mul :: "'r \<Rightarrow> 'r \<Rightarrow> 'r"
  f_div :: "'r \<Rightarrow> 'r \<Rightarrow> 'r"
  f_neg :: "'r \<Rightarrow> 'r"
  f_abs :: "'r \<Rightarrow> 'r"
  f_greater :: "'r \<Rightarrow> 'r \<Rightarrow> bool"
  f_ge :: "'r \<Rightarrow> 'r \<Rightarrow> bool"
  f_max :: "'r \<Rightarrow> 'r \<Rightarrow> 'r"
  f_exp :: "'r \<Rightarrow> 'r"
  f_log :: "'r \<Rightarrow> 'r"
  f_expm1 :: "'r \<Rightarrow> 'r"
  f_log1p :: "'r \<Rightarrow> 'r"
  f_round :: "'r \<Rightarrow> 'r"
  f_of_u64 :: "u64 \<Rightarrow> 'r"
  f_to_u64 :: "'r \<Rightarrow> u64"
  f_half :: 'r
  f_epsilon :: 'r

text \<open>Small whole constants are the converted integers.\<close>

definition f_num :: "'r floats \<Rightarrow> nat \<Rightarrow> 'r" where
  "f_num F k = f_of_u64 F (of_nat k)"

record 'r zipf_distribution =
  z_n :: u64
  z_q :: 'r
  z_H_x1 :: 'r
  z_H_n :: 'r

definition clamp :: "u64 \<Rightarrow> u64 \<Rightarrow> u64 \<Rightarrow> u64" where
  "clamp x lo hi = max lo (min hi x)"

definition expm1bx :: "'r floats \<Rightarrow> 'r \<Rightarrow> 'r" where
  "expm1bx F x =
     (if f_greater F (f_abs F x) (f_epsilon F) then f_div F (f_expm1 F x) x
      else f_add F (f_num F 1) (f_mul F (f_div F x (f_num F 2))
        (f_add F (f_num F 1) (f_mul F (f_div F x (f_num F 3))
          (f_add F (f_num F 1) (f_div F x (f_num F 4)))))))"

definition zipf_H :: "'r floats \<Rightarrow> 'r \<Rightarrow> 'r \<Rightarrow> 'r" where
  "zipf_H F q x =
     (let log_x = f_log F x in f_mul F (expm1bx F (f_mul F (f_sub F (f_num F 1) q) log_x)) log_x)"

definition log1pxbx :: "'r floats \<Rightarrow> 'r \<Rightarrow> 'r" where
  "log1pxbx F x =
     (if f_greater F (f_abs F x) (f_epsilon F) then f_div F (f_log1p F x) x
      else f_sub F (f_num F 1) (f_mul F x
        (f_sub F (f_div F (f_num F 1) (f_num F 2)) (f_mul F x
          (f_sub F (f_div F (f_num F 1) (f_num F 3)) (f_mul F x (f_div F (f_num F 1) (f_num F 4))))))))"

definition zipf_H_inv :: "'r floats \<Rightarrow> 'r \<Rightarrow> 'r \<Rightarrow> 'r" where
  "zipf_H_inv F q x =
     (let t = f_max F (f_neg F (f_num F 1)) (f_mul F x (f_sub F (f_num F 1) q))
      in f_exp F (f_mul F (log1pxbx F t) x))"

definition zipf_h :: "'r floats \<Rightarrow> 'r \<Rightarrow> 'r \<Rightarrow> 'r" where
  "zipf_h F q x = f_exp F (f_mul F (f_neg F q) (f_log F x))"

definition new_zipf :: "'r floats \<Rightarrow> u64 \<Rightarrow> 'r \<Rightarrow> 'r zipf_distribution" where
  "new_zipf F n q = \<lparr>z_n = n, z_q = q,
     z_H_x1 = f_sub F (zipf_H F q (f_add F (f_num F 1) (f_half F))) (f_num F 1),
     z_H_n = zipf_H F q (f_add F (f_of_u64 F n) (f_half F))\<rparr>"

text \<open>\<open>operator()\<close>. It may reject for ever; \<open>uniform\<close> is \<open>uniform_real_distribution\<close>.\<close>

partial_function (option) zipf_sample ::
    "'r floats \<Rightarrow> ('r \<Rightarrow> 'r \<Rightarrow> 'g \<Rightarrow> 'r \<times> 'g) \<Rightarrow> 'r zipf_distribution \<Rightarrow> 'g \<Rightarrow> (u64 \<times> 'g) option" where
  "zipf_sample F uniform z g =
     (let (u, g') = uniform (z_H_x1 z) (z_H_n z) g;
          x = zipf_H_inv F (z_q z) u;
          k = clamp (f_to_u64 F (f_round F x)) 1 (z_n z)
      in if f_ge F u (f_sub F (zipf_H F (z_q z) (f_add F (f_of_u64 F k) (f_half F))) (zipf_h F (z_q z) (f_of_u64 F k)))
         then Some (k, g') else zipf_sample F uniform z g')"

declare zipf_sample.simps [code]

lemma clamp_bounds: "lo \<le> hi \<Longrightarrow> lo \<le> clamp x lo hi \<and> clamp x lo hi \<le> hi"
  by (simp add: clamp_def)

lemma zipf_sample_bounds:
  assumes "zipf_sample F uniform z g = Some (k, g')" "1 \<le> z_n z"
  shows "1 \<le> k \<and> k \<le> z_n z"
proof -
  have "1 \<le> z_n z \<longrightarrow> 1 \<le> fst r \<and> fst r \<le> z_n z" if "zipf_sample F uniform z g = Some r" for r
  proof (rule zipf_sample.raw_induct [OF _ that], goal_cases)
    case (1 sample F uniform z g r)
    then show ?case
      by (auto simp: Let_def clamp_bounds split: prod.splits if_splits)
  qed
  from this [OF assms(1)] assms(2) show ?thesis by simp
qed

end
