(* ===== verification/IoThread.thy ===== *)
theory IoThread
  imports NvmeCallbacks ConfigReader Zipf
begin

text \<open>
  \<^verbatim>\<open>io_thread.h\<close>, \<^verbatim>\<open>io_thread.cpp\<close> and
  \<^verbatim>\<open>io_thread_synthetic.cpp\<close>: the threads that issue requests. A thread works on its
  own record and on the driver, whose memory space is the program's; a callback is the pair of what
  the closure captures, the thread (by its number) and the request. The clock is a parameter, the
  sequence of its readings by a thread in microseconds and nanoseconds of the code's clock; a
  histogram is the list of the values recorded in it.
\<close>

section \<open>Requests and threads\<close>

record io_request =
  rq_do_write :: bool
  rq_nsid :: u32
  rq_pos :: u64
  rq_buf :: u32
  rq_size :: size_t
  arrival_time :: int
  enqueued_time :: int

type_synonym completion = "u32 \<times> io_request"

record io_thread =
  request_count :: size_t
  nr_submitted_requests :: size_t
  nr_completed_requests :: size_t
  nr_completed_read_requests :: size_t
  nr_completed_write_requests :: size_t
  transferred_bytes_total :: size_t
  transferred_bytes_read :: size_t
  transferred_bytes_write :: size_t
  device_response_time_hist :: "int list"
  e2e_latency_hist :: "int list"
  thread_id :: u32
  thread_io_queue :: "nat option"
  thread_queue_depth :: u32
  inflight_requests :: u32
  waiting_requests :: "io_request list"
  completed_requests :: "io_request list"
  clock_readings :: nat

text \<open>The generator's state \<open>'g\<close> is the random engine.\<close>

record ('r, 'g) synthetic = io_thread +
  syn_nsid :: u32
  sector_size :: u32
  max_lsa :: size_t
  read_ratio :: 'r
  generator :: 'g
  size_distribution :: request_size_distribution
  size_mean :: u32
  size_variance :: u32
  addr_distribution :: address_distribution
  zipfian_alpha :: 'r
  addr_alignment :: u32
  average_enqueued_requests :: u32

definition new_io_thread :: "u32 \<Rightarrow> u32 \<Rightarrow> size_t \<Rightarrow> io_thread" where
  "new_io_thread tid qdepth nreq = \<lparr>request_count = nreq, nr_submitted_requests = 0, nr_completed_requests = 0,
     nr_completed_read_requests = 0, nr_completed_write_requests = 0, transferred_bytes_total = 0,
     transferred_bytes_read = 0, transferred_bytes_write = 0, device_response_time_hist = [],
     e2e_latency_hist = [], thread_id = tid, thread_io_queue = None, thread_queue_depth = qdepth,
     inflight_requests = 0, waiting_requests = [], completed_requests = [], clock_readings = 0\<rparr>"

text \<open>\<open>create_thread\<close>; \<open>seed\<close> makes the random engine. The sector size is an \<open>unsigned int\<close> there.\<close>

definition create_thread ::
    "(u32 \<Rightarrow> 'g) \<Rightarrow> u32 \<Rightarrow> u32 \<Rightarrow> size_t \<Rightarrow> size_t \<Rightarrow> 'r flow_definition \<Rightarrow> ('r, 'g) synthetic option" where
  "create_thread seed tid qdepth sector lsa def =
     (case flow_kind def of
        SYNTHETIC \<Rightarrow> Some (io_thread.extend (new_io_thread tid qdepth (flow_request_count def))
          \<lparr>syn_nsid = flow_nsid def, sector_size = ucast sector, max_lsa = lsa, read_ratio = flow_read_ratio def,
           generator = seed (flow_seed def), size_distribution = flow_size_distribution def,
           size_mean = flow_size_mean def, size_variance = flow_size_variance def,
           addr_distribution = flow_address_distribution def, zipfian_alpha = flow_zipfian_alpha def,
           addr_alignment = flow_address_alignment def, average_enqueued_requests = flow_average_enqueued def\<rparr>))"

section \<open>Submission and completion\<close>

type_synonym clock = "nat \<Rightarrow> int"

definition now :: "clock \<Rightarrow> 'z io_thread_scheme \<Rightarrow> int \<times> 'z io_thread_scheme" where
  "now clk t = (clk (clock_readings t), t\<lparr>clock_readings := clock_readings t + 1\<rparr>)"

text \<open>\<open>duration_cast\<close> to microseconds cuts towards zero.\<close>

definition microseconds :: "int \<Rightarrow> int" where
  "microseconds ns = (if ns < 0 then - (- ns div 1000) else ns div 1000)"

definition submit_to_device ::
    "'l pcie_ops \<Rightarrow> clock \<Rightarrow> io_request \<Rightarrow> 'z io_thread_scheme \<times> ('l, completion) nvme_driver \<Rightarrow>
     fault + ('z io_thread_scheme \<times> ('l, completion) nvme_driver)" where
  "submit_to_device ops clk req = (\<lambda>(t, d).
     let (time, t1) = now clk (t\<lparr>inflight_requests := inflight_requests t + 1\<rparr>);
         req1 = req\<lparr>enqueued_time := time\<rparr>;
         cb = (thread_id t, req1)
     in bindE (if rq_do_write req
               then write_async ops (thread_io_queue t) (rq_nsid req) (rq_pos req) (rq_buf req) (rq_size req) cb d
               else read_async ops (thread_io_queue t) (rq_nsid req) (rq_pos req) (rq_buf req) (rq_size req) cb d)
          (\<lambda>d1. Inr (t1, d1)))"

definition submit_io_request ::
    "'l pcie_ops \<Rightarrow> clock \<Rightarrow> bool \<Rightarrow> u32 \<Rightarrow> u64 \<Rightarrow> size_t \<Rightarrow>
     'z io_thread_scheme \<times> ('l, completion) nvme_driver \<Rightarrow>
     fault + ('z io_thread_scheme \<times> ('l, completion) nvme_driver)" where
  "submit_io_request ops clk do_write nsid pos sz = (\<lambda>(t, d).
     bindE (allocate_pages sz (mem d)) (\<lambda>(buf, m).
       let (time, t1) = now clk (t\<lparr>nr_submitted_requests := nr_submitted_requests t + 1\<rparr>);
           req = \<lparr>rq_do_write = do_write, rq_nsid = nsid, rq_pos = pos, rq_buf = buf, rq_size = sz,
                  arrival_time = time, enqueued_time = 0\<rparr>
       in if inflight_requests t1 \<ge> thread_queue_depth t1
          then Inr (t1\<lparr>waiting_requests := waiting_requests t1 @ [req]\<rparr>, d\<lparr>mem := m\<rparr>)
          else submit_to_device ops clk req (t1, d\<lparr>mem := m\<rparr>)))"

text \<open>Called by the driver, in the thread of the link, with the completion mutex held.\<close>

definition notify_request_completion :: "clock \<Rightarrow> io_request \<Rightarrow> 'z io_thread_scheme \<Rightarrow> 'z io_thread_scheme" where
  "notify_request_completion clk req t =
     (let (time, t1) = now clk t
      in t1\<lparr>completed_requests := completed_requests t1 @ [req],
            device_response_time_hist := device_response_time_hist t1 @ [microseconds (time - enqueued_time req)],
            e2e_latency_hist := e2e_latency_hist t1 @ [microseconds (time - arrival_time req)]\<rparr>)"

text \<open>The loop over the waiting requests.\<close>

primrec submit_waiting ::
    "'l pcie_ops \<Rightarrow> clock \<Rightarrow> io_request list \<Rightarrow> 'z io_thread_scheme \<times> ('l, completion) nvme_driver \<Rightarrow>
     fault + ('z io_thread_scheme \<times> ('l, completion) nvme_driver)" where
  "submit_waiting ops clk [] td = Inr td"
| "submit_waiting ops clk (req # reqs) td =
     (if inflight_requests (fst td) < thread_queue_depth (fst td)
      then bindE (submit_to_device ops clk req ((fst td)\<lparr>waiting_requests := reqs\<rparr>, snd td))
             (submit_waiting ops clk reqs)
      else Inr td)"

text \<open>
  \<open>process_completed_request\<close>; \<open>on_completed\<close> is the virtual \<open>on_request_completed\<close>. The buffer is
  given back with \<open>free\<close>, which does not round its size up to pages.
\<close>

definition process_completed_request ::
    "'l pcie_ops \<Rightarrow> clock \<Rightarrow>
     ('z io_thread_scheme \<times> ('l, completion) nvme_driver \<Rightarrow> fault + ('z io_thread_scheme \<times> ('l, completion) nvme_driver)) \<Rightarrow>
     io_request \<Rightarrow> 'z io_thread_scheme \<times> ('l, completion) nvme_driver \<Rightarrow>
     fault + ('z io_thread_scheme \<times> ('l, completion) nvme_driver)" where
  "process_completed_request ops clk on_completed req = (\<lambda>(t, d).
     let t1 = t\<lparr>inflight_requests := inflight_requests t - 1,
                nr_completed_requests := nr_completed_requests t + 1,
                transferred_bytes_total := transferred_bytes_total t + rq_size req\<rparr>
     in bindE (free_mem (rq_buf req) (rq_size req) (mem d)) (\<lambda>m.
          let t2 = (if rq_do_write req
                    then t1\<lparr>nr_completed_write_requests := nr_completed_write_requests t1 + 1,
                            transferred_bytes_write := transferred_bytes_write t1 + rq_size req\<rparr>
                    else t1\<lparr>nr_completed_read_requests := nr_completed_read_requests t1 + 1,
                            transferred_bytes_read := transferred_bytes_read t1 + rq_size req\<rparr>)
          in bindE (submit_waiting ops clk (waiting_requests t2) (t2, d\<lparr>mem := m\<rparr>)) on_completed))"

section \<open>The synthetic workload\<close>

text \<open>
  The distributions of the standard library over the engine's state: \<open>bernoulli\<close>, the normal
  distribution rounded to an \<open>int\<close>, the uniform integers up to a bound, and the uniform reals that
  the Zipf distribution uses.
\<close>

record ('r, 'g) random_lib =
  bernoulli :: "'r \<Rightarrow> 'g \<Rightarrow> bool \<times> 'g"
  rounded_normal :: "u32 \<Rightarrow> u32 \<Rightarrow> 'g \<Rightarrow> u32 \<times> 'g"
  uniform_upto :: "u64 \<Rightarrow> 'g \<Rightarrow> u64 \<times> 'g"
  uniform_real :: "'r \<Rightarrow> 'r \<Rightarrow> 'g \<Rightarrow> 'r \<times> 'g"

definition request_sectors :: "('r, 'g) random_lib \<Rightarrow> ('r, 'g) synthetic \<Rightarrow> 'g \<Rightarrow> u32 \<times> 'g" where
  "request_sectors R t g =
     (case size_distribution t of
        CONSTANT \<Rightarrow> (size_mean t, g)
      | NORMAL \<Rightarrow>
          let (n, g') = rounded_normal R (size_mean t) (size_variance t) g
          in (if sint n \<le> 0 then 1 else n, g'))"

definition request_position ::
    "'r floats \<Rightarrow> ('r, 'g) random_lib \<Rightarrow> ('r, 'g) synthetic \<Rightarrow> 'g \<Rightarrow> fault + (u64 \<times> 'g)" where
  "request_position F R t g =
     (case addr_distribution t of
        UNIFORM \<Rightarrow> Inr (uniform_upto R (max_lsa t - 1) g)
      | ZIPFIAN \<Rightarrow>
          (case zipf_sample F (uniform_real R) (new_zipf F (max_lsa t) (zipfian_alpha t)) g of
             None \<Rightarrow> Inl Diverges
           | Some (k, g') \<Rightarrow> Inr (k - 1, g')))"

definition generate_request ::
    "'r floats \<Rightarrow> ('r, 'g) random_lib \<Rightarrow> ('r, 'g) synthetic \<Rightarrow>
     fault + ((bool \<times> u64 \<times> size_t) \<times> ('r, 'g) synthetic)" where
  "generate_request F R t =
     (let (is_read, g1) = bernoulli R (read_ratio t) (generator t);
          (sectors, g2) = request_sectors R t g1
      in bindE (request_position F R t g2) (\<lambda>(pos0, g3).
           let pos_sector = (if addr_alignment t \<noteq> 0 then pos0 - pos0 mod ucast (addr_alignment t) else pos0)
           in Inr ((\<not> is_read, pos_sector * ucast (sector_size t), scast sectors * ucast (sector_size t)),
                   t\<lparr>generator := g3\<rparr>)))"

text \<open>One generated request, submitted: the body of the loop of \<open>run_impl\<close> and of \<open>on_request_completed\<close>.\<close>

definition issue_request ::
    "'l pcie_ops \<Rightarrow> clock \<Rightarrow> 'r floats \<Rightarrow> ('r, 'g) random_lib \<Rightarrow>
     ('r, 'g) synthetic \<times> ('l, completion) nvme_driver \<Rightarrow>
     fault + (('r, 'g) synthetic \<times> ('l, completion) nvme_driver)" where
  "issue_request ops clk F R = (\<lambda>(t, d).
     bindE (generate_request F R t) (\<lambda>((do_write, pos, sz), t1).
       submit_io_request ops clk do_write (syn_nsid t1) pos sz (t1, d)))"

definition on_request_completed ::
    "'l pcie_ops \<Rightarrow> clock \<Rightarrow> 'r floats \<Rightarrow> ('r, 'g) random_lib \<Rightarrow>
     ('r, 'g) synthetic \<times> ('l, completion) nvme_driver \<Rightarrow>
     fault + (('r, 'g) synthetic \<times> ('l, completion) nvme_driver)" where
  "on_request_completed ops clk F R td =
     (if nr_submitted_requests (fst td) < request_count (fst td) then issue_request ops clk F R td else Inr td)"

section \<open>The run of a thread\<close>

text \<open>
  The program of a thread between the points where another thread can interfere: the loop that
  fills the queue (\<open>i\<close> requests submitted), the test of the outer loop, the completed requests taken
  out of the queue and not yet processed, the end, and an exception, which ends the program.
\<close>

datatype io_pc =
    Filling nat
  | Waiting
  | Handling "io_request list"
  | Finished
  | Failed fault

text \<open>
  One step of a thread; \<open>None\<close> if it sleeps on the condition variable. Taking the completed requests
  out of the queue is one step, as it is done with the mutex held.
\<close>

definition thread_step ::
    "'l pcie_ops \<Rightarrow> clock \<Rightarrow> 'r floats \<Rightarrow> ('r, 'g) random_lib \<Rightarrow>
     io_pc \<times> ('r, 'g) synthetic \<times> ('l, completion) nvme_driver \<Rightarrow>
     (io_pc \<times> ('r, 'g) synthetic \<times> ('l, completion) nvme_driver) option" where
  "thread_step ops clk F R = (\<lambda>(p, t, d).
     let guard = (\<lambda>p' r. case r of Inl e \<Rightarrow> Some (Failed e, t, d) | Inr (t', d') \<Rightarrow> Some (p', t', d'))
     in case p of
          Filling i \<Rightarrow>
            if (of_nat i :: u32) < average_enqueued_requests t
            then guard (Filling (i + 1)) (issue_request ops clk F R (t, d))
            else Some (Waiting, t, d)
        | Waiting \<Rightarrow>
            if \<not> nr_completed_requests t < request_count t then Some (Finished, t, d)
            else if completed_requests t = [] then None
            else Some (Handling (completed_requests t), t\<lparr>completed_requests := []\<rparr>, d)
        | Handling [] \<Rightarrow> Some (Waiting, t, d)
        | Handling (req # reqs) \<Rightarrow>
            guard (Handling reqs)
              (process_completed_request ops clk (on_request_completed ops clk F R) req (t, d))
        | Finished \<Rightarrow> None
        | Failed e \<Rightarrow> None)"

text \<open>The thread starts by taking its queue of the driver.\<close>

definition thread_start ::
    "('r, 'g) synthetic \<Rightarrow> ('l, completion) nvme_driver \<Rightarrow> fault + (io_pc \<times> ('r, 'g) synthetic)" where
  "thread_start t d =
     bindE (set_thread_id (thread_id t) d) (\<lambda>qi. Inr (Filling 0, t\<lparr>thread_io_queue := Some qi\<rparr>))"

text \<open>
  What \<open>run\<close> records at the end; \<open>rate\<close> divides a count by the duration of the run.
\<close>

record 'r io_stats =
  st_thread_id :: u32
  st_request_count :: size_t
  st_read_request_count :: size_t
  st_write_request_count :: size_t
  iops_total :: 'r
  iops_read :: 'r
  iops_write :: 'r
  bandwidth_total :: 'r
  bandwidth_read :: 'r
  bandwidth_write :: 'r
  st_device_response_time_hist :: "int list"
  st_e2e_latency_hist :: "int list"

definition collect_stats :: "(size_t \<Rightarrow> 'r) \<Rightarrow> 'z io_thread_scheme \<Rightarrow> 'r io_stats" where
  "collect_stats rate t = \<lparr>st_thread_id = thread_id t, st_request_count = nr_completed_requests t,
     st_read_request_count = nr_completed_read_requests t, st_write_request_count = nr_completed_write_requests t,
     iops_total = rate (nr_completed_requests t), iops_read = rate (nr_completed_read_requests t),
     iops_write = rate (nr_completed_write_requests t), bandwidth_total = rate (transferred_bytes_total t),
     bandwidth_read = rate (transferred_bytes_read t), bandwidth_write = rate (transferred_bytes_write t),
     st_device_response_time_hist = device_response_time_hist t, st_e2e_latency_hist = e2e_latency_hist t\<rparr>"

text \<open>
  The callbacks of an interrupt reach the threads that own them, in the order of the calls.
\<close>

definition deliver :: "clock \<Rightarrow> completion list \<Rightarrow> 'z io_thread_scheme \<Rightarrow> 'z io_thread_scheme" where
  "deliver clk cbs t =
     fold (\<lambda>cb. notify_request_completion clk (snd cb)) (filter (\<lambda>cb. fst cb = thread_id t) cbs) t"

section \<open>All threads together\<close>

text \<open>
  The state of the program while the threads run: each thread with its place in its program, and the
  driver. A step is one step of one thread, or one interrupt: the device has changed the link and
  the bytes of the shared memory, the link's thread runs the driver's handler, and the callbacks go
  to the threads. The identifier a submission takes must be free; the counter wraps after 65536
  submissions, and a command that is still at the device then loses its callback.
\<close>

record ('l, 'r, 'g) program =
  threads :: "(io_pc \<times> ('r, 'g) synthetic) list"
  driver :: "('l, completion) nvme_driver"

definition ids_free :: "('l, 'cb) nvme_driver \<Rightarrow> bool" where
  "ids_free d \<longleftrightarrow> callback_of d (command_id_counter d) = None \<and> callback_of d (command_id_counter d + 1) = None"

definition running :: "('l, 'r, 'g) program \<Rightarrow> bool" where
  "running w \<longleftrightarrow> (\<forall>(p, t) \<in> set (threads w). case p of Failed e \<Rightarrow> False | _ \<Rightarrow> True)"

inductive prog_step ::
    "'l pcie_ops \<Rightarrow> clock \<Rightarrow> 'r floats \<Rightarrow> ('r, 'g) random_lib \<Rightarrow>
     ('l, 'r, 'g) program \<Rightarrow> nat option \<Rightarrow> ('l, 'r, 'g) program \<Rightarrow> bool"
  for ops clk F R where
  a_thread: "running w \<Longrightarrow> i < length (threads w) \<Longrightarrow> threads w ! i = (p, t) \<Longrightarrow> ids_free (driver w) \<Longrightarrow>
     thread_step ops clk F R (p, t, driver w) = Some (p', t', d') \<Longrightarrow>
     prog_step ops clk F R w (Some i) (w\<lparr>threads := (threads w)[i := (p', t')], driver := d'\<rparr>)"
| interrupt: "running w \<Longrightarrow>
     irq_entry ops vector ((driver w)\<lparr>link := l, mem := (mem (driver w))\<lparr>bytes := b\<rparr>\<rparr>) = Inr d' \<Longrightarrow>
     prog_step ops clk F R w None (w\<lparr>driver := d',
       threads := map (apsnd (deliver clk (map fst (drop (length (called (driver w))) (called d'))))) (threads w)\<rparr>)"

inductive_cases prog_stepE [consumes 1, case_names a_thread interrupt]: "prog_step ops clk F R w who w'"

text \<open>The states a run reaches, with the number of steps that threads have made.\<close>

inductive prog_run ::
    "'l pcie_ops \<Rightarrow> clock \<Rightarrow> 'r floats \<Rightarrow> ('r, 'g) random_lib \<Rightarrow>
     ('l, 'r, 'g) program \<Rightarrow> nat \<Rightarrow> ('l, 'r, 'g) program \<Rightarrow> bool"
  for ops clk F R w0 where
  start: "prog_run ops clk F R w0 0 w0"
| step: "prog_run ops clk F R w0 n w \<Longrightarrow> prog_step ops clk F R w who w' \<Longrightarrow>
     prog_run ops clk F R w0 (case who of Some i \<Rightarrow> Suc n | None \<Rightarrow> n) w'"

end
