(* ===== verification/IoRuns.thy ===== *)
theory IoRuns
  imports IoThread
begin

text \<open>
  Lemmas and properties of the request threads (theory IoThread): what each operation does to the
  counters of its thread and to the callbacks of the driver, the invariant of all threads together,
  and what follows from it about deadlock and about the end of a run.
\<close>

section \<open>The operations\<close>

text \<open>The callbacks of the thread \<open>x\<close> among those that wait.\<close>

definition owned :: "u32 \<Rightarrow> ('l, completion) nvme_driver \<Rightarrow> completion multiset" where
  "owned x d = filter_mset (\<lambda>cb. fst cb = x) (pending d)"

definition id_free :: "('l, 'cb) nvme_driver \<Rightarrow> bool" where
  "id_free d \<longleftrightarrow> callback_of d (command_id_counter d) = None"

lemma pending_mem [simp]: "pending (d\<lparr>mem := m\<rparr>) = pending d" "owned x (d\<lparr>mem := m\<rparr>) = owned x d"
  by (simp_all add: pending_def owned_def)

text \<open>What a submission adds.\<close>

definition one_more :: "u32 \<Rightarrow> ('l, completion) nvme_driver \<Rightarrow> ('l, completion) nvme_driver \<Rightarrow> bool" where
  "one_more x d d' \<longleftrightarrow> (\<exists>cb. fst cb = x \<and> pending d' = add_mset cb (pending d)) \<and> called d' = called d \<and>
     command_id_counter d' = command_id_counter d + 1 \<and>
     (\<forall>c. c \<noteq> command_id_counter d \<longrightarrow> callback_of d' c = callback_of d c)"

lemma one_more_owned:
  assumes "one_more x d d'"
  shows "size (owned x d') = Suc (size (owned x d))" "y \<noteq> x \<Longrightarrow> owned y d' = owned y d" "called d' = called d"
  using assms by (auto simp: one_more_def owned_def)

lemma ids_free_simps: "ids_free d \<Longrightarrow> id_free d" "ids_free d \<Longrightarrow> one_more x d d' \<Longrightarrow> id_free d'"
  by (simp_all add: ids_free_def id_free_def one_more_def)

lemma submit_to_device_effect:
  assumes "submit_to_device ops clk req (t, d) = Inr (t', d')" "id_free d"
  shows "t' = t\<lparr>inflight_requests := inflight_requests t + 1, clock_readings := clock_readings t + 1\<rparr>"
    "one_more (thread_id t) d d'"
proof -
  obtain w cb cid where cb: "fst cb = thread_id t" and
    run: "submit_rw_command ops (thread_io_queue t) w (rq_nsid req) (rq_pos req) (rq_buf req) (rq_size req) (Some cb) d =
      Inr (cid, d')" and
    t': "t' = t\<lparr>inflight_requests := inflight_requests t + 1, clock_readings := clock_readings t + 1\<rparr>"
    using assms(1)
    by (auto simp: submit_to_device_def now_def Let_def bindE_Inr_iff write_async_def read_async_def map_sum_Inr_iff
        split: if_split_asm)
  show "t' = t\<lparr>inflight_requests := inflight_requests t + 1, clock_readings := clock_readings t + 1\<rparr>" by (rule t')
  have "pending d' = add_mset cb (pending d)"
    using submit_rw_callbacks [OF run] assms(2) by (simp add: pending_def pend_add id_free_def)
  then show "one_more (thread_id t) d d'"
    using cb submit_rw_callbacks [OF run] unfolding one_more_def by (intro conjI exI [of _ cb]) simp_all
qed

lemma submit_io_request_effect:
  assumes "submit_io_request ops clk w nsid pos sz (t, d) = Inr (t', d')" "id_free d"
  obtains (queued) req m where "thread_queue_depth t \<le> inflight_requests t"
      "t' = t\<lparr>nr_submitted_requests := nr_submitted_requests t + 1, clock_readings := clock_readings t + 1,
              waiting_requests := waiting_requests t @ [req]\<rparr>" "d' = d\<lparr>mem := m\<rparr>"
    | (sent) "inflight_requests t < thread_queue_depth t"
      "t' = t\<lparr>nr_submitted_requests := nr_submitted_requests t + 1, clock_readings := clock_readings t + 2,
              inflight_requests := inflight_requests t + 1\<rparr>" "one_more (thread_id t) d d'"
proof (cases "thread_queue_depth t \<le> inflight_requests t")
  case True
  with assms(1) queued show ?thesis
    by (auto simp: submit_io_request_def bindE_Inr_iff now_def Let_def)
next
  case False
  then obtain req m where "submit_to_device ops clk req
      (t\<lparr>nr_submitted_requests := nr_submitted_requests t + 1, clock_readings := clock_readings t + 1\<rparr>, d\<lparr>mem := m\<rparr>) =
      Inr (t', d')"
    using assms(1) by (auto simp: submit_io_request_def bindE_Inr_iff now_def Let_def)
  moreover have "id_free (d\<lparr>mem := m\<rparr>)" using assms(2) by (simp add: id_free_def)
  ultimately have "t' = t\<lparr>nr_submitted_requests := nr_submitted_requests t + 1, clock_readings := clock_readings t + 2,
      inflight_requests := inflight_requests t + 1\<rparr>" "one_more (thread_id t) (d\<lparr>mem := m\<rparr>) d'"
    using submit_to_device_effect by fastforce+
  with False show ?thesis by (intro sent) (auto simp: one_more_def)
qed

section \<open>The invariant of a thread\<close>

text \<open>
  \<open>r\<close> is the number of completed requests that the thread has taken out of its queue and not yet
  processed; \<open>k\<close> requests may be sent before the device is fully used, and none wait unless exactly
  \<open>k\<close> may be.
\<close>

definition counts :: "nat \<Rightarrow> nat \<Rightarrow> 'z io_thread_scheme \<Rightarrow> ('l, completion) nvme_driver \<Rightarrow> bool" where
  "counts k r t d \<longleftrightarrow>
     unat (inflight_requests t) = size (owned (thread_id t) d) + length (completed_requests t) + r \<and>
     unat (inflight_requests t) + k \<le> unat (thread_queue_depth t) \<and>
     (waiting_requests t \<noteq> [] \<longrightarrow> unat (inflight_requests t) + k = unat (thread_queue_depth t)) \<and>
     unat (nr_submitted_requests t) =
       length (waiting_requests t) + unat (inflight_requests t) + unat (nr_completed_requests t) \<and>
     nr_completed_requests t = nr_completed_read_requests t + nr_completed_write_requests t \<and>
     transferred_bytes_total t = transferred_bytes_read t + transferred_bytes_write t"

text \<open>What submitting requests does not change.\<close>

definition kept :: "'z io_thread_scheme \<Rightarrow> 'z io_thread_scheme \<Rightarrow> bool" where
  "kept t t' \<longleftrightarrow> thread_id t' = thread_id t \<and> thread_queue_depth t' = thread_queue_depth t \<and>
     request_count t' = request_count t \<and> nr_completed_requests t' = nr_completed_requests t \<and>
     completed_requests t' = completed_requests t \<and> io_thread.more t' = io_thread.more t"

text \<open>What it does not change for the other threads.\<close>

definition others_kept :: "u32 \<Rightarrow> ('l, completion) nvme_driver \<Rightarrow> ('l, completion) nvme_driver \<Rightarrow> bool" where
  "others_kept x d d' \<longleftrightarrow> called d' = called d \<and> (\<forall>y. y \<noteq> x \<longrightarrow> owned y d' = owned y d)"

lemma others_kept_simps [simp]: "others_kept x d d" "others_kept x (d\<lparr>mem := m\<rparr>) d' = others_kept x d d'"
  "others_kept x d (d'\<lparr>mem := m\<rparr>) = others_kept x d d'"
  by (simp_all add: others_kept_def)

lemma others_kept_trans: "others_kept x d d' \<Longrightarrow> others_kept x d' d'' \<Longrightarrow> others_kept x d d''"
  by (simp add: others_kept_def)

lemma one_more_others: "one_more x d d' \<Longrightarrow> others_kept x d d'"
  by (simp add: others_kept_def one_more_owned)

lemma unat_Suc_below: "unat x < unat y \<Longrightarrow> unat (x + 1) = Suc (unat x)" for x y :: "'a::len word"
proof -
  assume "unat x < unat y"
  then have "Suc (unat x) < 2 ^ LENGTH('a)" by (intro le_less_trans [OF _ unat_lt_exp [of y]]) simp
  then show "unat (x + 1) = Suc (unat x)" by (subst unat_add_lt) simp_all
qed

lemma send_waiting_counts:
  assumes "counts (Suc k) r t d" "one_more (thread_id t) d d'" "waiting_requests t = req # reqs"
    and "t' = t\<lparr>waiting_requests := reqs, inflight_requests := inflight_requests t + 1, clock_readings := n\<rparr>"
  shows "counts k r t' d'"
  using assms unat_Suc_below [of "inflight_requests t" "thread_queue_depth t"]
  by (simp add: counts_def one_more_owned)

lemma submit_io_request_counts:
  assumes run: "submit_io_request ops clk w nsid pos sz (t, d) = Inr (t', d')" "id_free d" and c: "counts 0 r t d"
    and n: "nr_submitted_requests t < top"
  shows "counts 0 r t' d' \<and> kept t t' \<and> others_kept (thread_id t) d d' \<and>
    unat (nr_submitted_requests t') = Suc (unat (nr_submitted_requests t)) \<and>
    (0 < thread_queue_depth t \<longrightarrow> 0 < inflight_requests t')"
  using run
proof (cases rule: submit_io_request_effect)
  case (queued req m)
  have "\<not> unat (inflight_requests t) < unat (thread_queue_depth t)" using queued(1) by (simp add: word_le_nat_alt)
  moreover have "unat (nr_submitted_requests t + 1) = Suc (unat (nr_submitted_requests t))"
    using n by (simp add: unat_Suc_below word_less_nat_alt)
  ultimately show ?thesis using queued c by (auto simp: counts_def kept_def word_less_nat_alt)
next
  case sent
  have lt: "unat (inflight_requests t) < unat (thread_queue_depth t)" using sent(1) by (simp add: word_less_nat_alt)
  have n1: "unat (nr_submitted_requests t + 1) = Suc (unat (nr_submitted_requests t))"
    using n by (simp add: unat_Suc_below word_less_nat_alt)
  have "waiting_requests t = []" using c lt by (auto simp: counts_def)
  then have "counts 0 r t' d'" using c sent lt n1 unat_Suc_below [OF lt] by (simp add: counts_def one_more_owned)
  then show ?thesis
    using sent n1 unat_Suc_below [OF lt] by (simp add: kept_def one_more_others word_less_nat_alt)
qed

lemma submit_waiting_counts:
  assumes run: "submit_waiting ops clk (waiting_requests t) (t, d) = Inr (t', d')" "id_free d" and c: "counts 1 r t d"
  shows "counts 0 r t' d' \<and> kept t t' \<and> others_kept (thread_id t) d d' \<and>
    nr_submitted_requests t' = nr_submitted_requests t \<and> (d' = d \<or> one_more (thread_id t) d d')"
proof (cases "waiting_requests t")
  case Nil
  with run c show ?thesis by (auto simp: counts_def kept_def)
next
  case (Cons req reqs)
  have lt: "unat (inflight_requests t) < unat (thread_queue_depth t)"
    and full: "Suc (unat (inflight_requests t)) = unat (thread_queue_depth t)"
    using c Cons by (auto simp: counts_def)
  from run(1) Cons lt obtain t1 d1 where
    sent: "submit_to_device ops clk req (t\<lparr>waiting_requests := reqs\<rparr>, d) = Inr (t1, d1)" and
    rest: "submit_waiting ops clk reqs (t1, d1) = Inr (t', d')"
    by (auto simp: bindE_Inr_iff word_less_nat_alt)
  note e = submit_to_device_effect [OF sent run(2), simplified]
  have "\<not> inflight_requests t1 < thread_queue_depth t1"
    using e(1) full unat_Suc_below [OF lt] by (simp add: word_less_nat_alt)
  then have "t' = t1" "d' = d1" using rest by (cases reqs; simp)+
  then show ?thesis
    using send_waiting_counts [of 0 r t d d' req reqs] c Cons e by (simp add: kept_def one_more_others)
qed

text \<open>The thread of the synthetic workload: generating a request changes the engine only.\<close>

lemma generate_request_effect:
  "generate_request F R t = Inr (q, t') \<Longrightarrow> \<exists>g. t' = t\<lparr>generator := g\<rparr>"
  by (auto simp: generate_request_def bindE_Inr_iff split: prod.splits)


text \<open>What the operations of the synthetic workload keep, its parameters among them.\<close>

definition syn_kept :: "('r, 'g) synthetic \<Rightarrow> ('r, 'g) synthetic \<Rightarrow> bool" where
  "syn_kept t t' \<longleftrightarrow> thread_id t' = thread_id t \<and> thread_queue_depth t' = thread_queue_depth t \<and>
     request_count t' = request_count t \<and> completed_requests t' = completed_requests t \<and>
     average_enqueued_requests t' = average_enqueued_requests t"

lemma kept_syn: "kept t t' \<Longrightarrow> syn_kept t t'"
  by (cases t, cases t') (simp add: kept_def syn_kept_def io_thread.defs)

lemma issue_request_counts:
  assumes run: "issue_request ops clk F R (t, d) = Inr (t', d')" "id_free d" and c: "counts 0 r t d"
    and n: "nr_submitted_requests t < top"
  shows "counts 0 r t' d' \<and> syn_kept t t' \<and> others_kept (thread_id t) d d' \<and>
    nr_completed_requests t' = nr_completed_requests t \<and>
    unat (nr_submitted_requests t') = Suc (unat (nr_submitted_requests t)) \<and>
    (0 < thread_queue_depth t \<longrightarrow> 0 < inflight_requests t')"
proof -
  obtain w pos sz t1 where gen: "generate_request F R t = Inr ((w, pos, sz), t1)"
    and sub: "submit_io_request ops clk w (syn_nsid t1) pos sz (t1, d) = Inr (t', d')"
    using run(1) by (auto simp: issue_request_def bindE_Inr_iff)
  obtain g where t1: "t1 = t\<lparr>generator := g\<rparr>" using generate_request_effect [OF gen] by blast
  have "counts 0 r t1 d" using c by (auto simp: counts_def t1)
  from submit_io_request_counts [OF sub run(2) this] n
  have e: "counts 0 r t' d'" "kept t1 t'" "others_kept (thread_id t) d d'"
    "unat (nr_submitted_requests t') = Suc (unat (nr_submitted_requests t))"
    "0 < thread_queue_depth t \<longrightarrow> 0 < inflight_requests t'"
    by (simp_all add: t1)
  with kept_syn [OF e(2)] show ?thesis by (simp add: syn_kept_def kept_def t1)
qed

lemma process_counts:
  assumes run: "process_completed_request ops clk (on_request_completed ops clk F R) req (t, d) = Inr (t', d')"
    and free: "ids_free d" and c: "counts 0 (Suc r) t d"
  shows "counts 0 r t' d' \<and> syn_kept t t' \<and> others_kept (thread_id t) d d' \<and>
    unat (nr_completed_requests t') = Suc (unat (nr_completed_requests t)) \<and>
    (if nr_submitted_requests t < request_count t
     then unat (nr_submitted_requests t') = Suc (unat (nr_submitted_requests t)) \<and>
       (0 < thread_queue_depth t \<longrightarrow> 0 < inflight_requests t')
     else nr_submitted_requests t' = nr_submitted_requests t)"
proof -
  define t1 where "t1 = t\<lparr>inflight_requests := inflight_requests t - 1,
    nr_completed_requests := nr_completed_requests t + 1,
    transferred_bytes_total := transferred_bytes_total t + rq_size req\<rparr>"
  define t2 where "t2 = (if rq_do_write req
    then t1\<lparr>nr_completed_write_requests := nr_completed_write_requests t1 + 1,
            transferred_bytes_write := transferred_bytes_write t1 + rq_size req\<rparr>
    else t1\<lparr>nr_completed_read_requests := nr_completed_read_requests t1 + 1,
            transferred_bytes_read := transferred_bytes_read t1 + rq_size req\<rparr>)"
  obtain m t3 d3 where
    sub: "submit_waiting ops clk (waiting_requests t2) (t2, d\<lparr>mem := m\<rparr>) = Inr (t3, d3)" and
    next3: "on_request_completed ops clk F R (t3, d3) = Inr (t', d')"
    using run
    unfolding process_completed_request_def prod.case Let_def t1_def [symmetric] t2_def [symmetric] bindE_Inr_iff
    by auto
  have t2: "thread_id t2 = thread_id t" "thread_queue_depth t2 = thread_queue_depth t"
    "request_count t2 = request_count t" "completed_requests t2 = completed_requests t"
    "average_enqueued_requests t2 = average_enqueued_requests t"
    "nr_submitted_requests t2 = nr_submitted_requests t" "nr_completed_requests t2 = nr_completed_requests t + 1"
    by (simp_all add: t2_def t1_def)
  have pos: "unat (inflight_requests t - 1) = unat (inflight_requests t) - 1"
    using c by (subst unat_sub_le) (simp_all add: counts_def word_le_nat_alt)
  have "unat (nr_completed_requests t) < unat (nr_submitted_requests t)" using c by (simp add: counts_def)
  note less = this unat_Suc_below [OF this]
  have "counts 1 r t2 d" using c pos less by (auto simp: counts_def t2_def t1_def)
  then have c2: "counts 1 r t2 (d\<lparr>mem := m\<rparr>)" by (auto simp: counts_def)
  have "id_free (d\<lparr>mem := m\<rparr>)" using free by (simp add: ids_free_def id_free_def)
  from submit_waiting_counts [OF sub this c2]
  have e3: "counts 0 r t3 d3" "kept t2 t3" "others_kept (thread_id t) d d3"
    "nr_submitted_requests t3 = nr_submitted_requests t" "d3 = d\<lparr>mem := m\<rparr> \<or> one_more (thread_id t) (d\<lparr>mem := m\<rparr>) d3"
    by (auto simp: t2)
  have k3: "syn_kept t t3" "nr_completed_requests t3 = nr_completed_requests t + 1"
    using kept_syn [OF e3(2)] e3(2) by (auto simp: syn_kept_def kept_def t2)
  have free3: "id_free d3"
    using free e3(5) ids_free_simps(2) [of "d\<lparr>mem := m\<rparr>" "thread_id t" d3]
    by (auto simp: ids_free_def id_free_def)
  show ?thesis
  proof (cases "nr_submitted_requests t < request_count t")
    case True
    then have "nr_submitted_requests t3 < top" using e3(4) by (auto intro: less_le_trans)
    moreover have "issue_request ops clk F R (t3, d3) = Inr (t', d')"
      using next3 True e3(4) k3 by (simp add: on_request_completed_def syn_kept_def)
    ultimately show ?thesis
      using issue_request_counts [OF _ free3 e3(1)] True e3 k3 less by (auto simp: syn_kept_def others_kept_def)
  next
    case False
    then have "t' = t3" "d' = d3" using next3 e3(4) k3 by (simp_all add: on_request_completed_def syn_kept_def)
    with False e3 k3 less show ?thesis by simp
  qed
qed

section \<open>Interrupts\<close>

lemma deliver_effect:
  "\<exists>hd hl n. deliver clk cbs t = t\<lparr>completed_requests := completed_requests t @
       map snd (filter (\<lambda>cb. fst cb = thread_id t) cbs),
     device_response_time_hist := hd, e2e_latency_hist := hl, clock_readings := n\<rparr>"
proof -
  have "\<exists>hd hl n. fold (\<lambda>cb. notify_request_completion clk (snd cb)) own t = t\<lparr>completed_requests :=
      completed_requests t @ map snd own, device_response_time_hist := hd, e2e_latency_hist := hl, clock_readings := n\<rparr>"
    for own :: "completion list"
  proof (induction own arbitrary: t)
    case Nil
    show ?case by (rule exI [of _ "device_response_time_hist t"], rule exI [of _ "e2e_latency_hist t"],
        rule exI [of _ "clock_readings t"]) simp
  next
    case (Cons cb own)
    from Cons.IH [of "notify_request_completion clk (snd cb) t"] show ?case
      by (auto simp: notify_request_completion_def now_def)
  qed
  then show ?thesis by (simp add: deliver_def)
qed

lemma interrupt_counts:
  assumes "only_moves d d'" "called d' = called d @ cs" "counts k r t d"
  shows "counts k r (deliver clk (map fst cs) t) d'"
proof -
  have "pending d = pending d' + mset (map fst cs)" using assms(1,2) by (simp add: only_moves_def account_def)
  then have "owned (thread_id t) d = owned (thread_id t) d' + mset (filter (\<lambda>cb. fst cb = thread_id t) (map fst cs))"
    by (simp add: owned_def)
  then have "size (owned (thread_id t) d) =
      size (owned (thread_id t) d') + length (filter (\<lambda>cb. fst cb = thread_id t) (map fst cs))"
    by (simp only: size_union size_mset)
  moreover obtain hd hl n where "deliver clk (map fst cs) t = t\<lparr>completed_requests := completed_requests t @
       map snd (filter (\<lambda>cb. fst cb = thread_id t) (map fst cs)),
     device_response_time_hist := hd, e2e_latency_hist := hl, clock_readings := n\<rparr>"
    using deliver_effect by blast
  ultimately show ?thesis using assms(3) by (auto simp: counts_def)
qed

section \<open>Steps of a thread\<close>

definition pc_taken :: "io_pc \<Rightarrow> nat" where
  "pc_taken p = (case p of Handling reqs \<Rightarrow> length reqs | _ \<Rightarrow> 0)"

text \<open>The most requests a thread ever submits.\<close>

definition total_requests :: "('r, 'g) synthetic \<Rightarrow> nat" where
  "total_requests t = max (unat (average_enqueued_requests t)) (unat (request_count t))"

definition thread_inv :: "io_pc \<Rightarrow> ('r, 'g) synthetic \<Rightarrow> ('l, completion) nvme_driver \<Rightarrow> bool" where
  "thread_inv p t d \<longleftrightarrow> counts 0 (pc_taken p) t d \<and> unat (nr_submitted_requests t) \<le> total_requests t \<and>
     (\<forall>i. p = Filling i \<longrightarrow> unat (nr_submitted_requests t) = i \<and> i \<le> unat (average_enqueued_requests t)) \<and>
     (0 < average_enqueued_requests t \<and> 0 < thread_queue_depth t \<and> p \<noteq> Filling 0 \<longrightarrow>
        request_count t \<le> nr_submitted_requests t \<or> 0 < inflight_requests t) \<and>
     (p = Finished \<longrightarrow> request_count t \<le> nr_completed_requests t)"

definition failed :: "io_pc \<Rightarrow> bool" where
  "failed p = (case p of Failed e \<Rightarrow> True | _ \<Rightarrow> False)"

lemma failed_simps [simp]: "failed (Failed e)" "\<not> failed (Filling i)" "\<not> failed Waiting"
  "\<not> failed (Handling rs)" "\<not> failed Finished"
  by (simp_all add: failed_def)

text \<open>An upper bound of the steps that a thread still makes.\<close>

fun work :: "io_pc \<Rightarrow> ('r, 'g) synthetic \<Rightarrow> nat" where
  "work (Filling i) t = 3 * (total_requests t - unat (nr_completed_requests t)) + 2 +
     (unat (average_enqueued_requests t) - i)"
| "work Waiting t = 3 * (total_requests t - unat (nr_completed_requests t)) + 1"
| "work (Handling []) t = 3 * (total_requests t - unat (nr_completed_requests t)) + 2"
| "work (Handling (req # reqs)) t = 3 * (total_requests t - unat (nr_completed_requests t))"
| "work Finished t = 3 * (total_requests t - unat (nr_completed_requests t))"
| "work (Failed e) t = 0"

definition good_step ::
    "io_pc \<Rightarrow> ('r, 'g) synthetic \<Rightarrow> ('l, completion) nvme_driver \<Rightarrow>
     io_pc \<Rightarrow> ('r, 'g) synthetic \<Rightarrow> ('l, completion) nvme_driver \<Rightarrow> bool" where
  "good_step p t d p' t' d' \<longleftrightarrow> (failed p' \<or> thread_inv p' t' d') \<and> others_kept (thread_id t) d d' \<and>
     thread_id t' = thread_id t \<and> total_requests t' = total_requests t \<and>
     request_count t' = request_count t \<and> average_enqueued_requests t' = average_enqueued_requests t \<and>
     thread_queue_depth t' = thread_queue_depth t \<and> work p' t' < work p t"

lemma below_top: "unat x < unat y \<Longrightarrow> x < top" for x y :: "'a::len word"
  by (metis less_le_trans top_greatest word_less_nat_alt)

lemma filling_step:
  assumes "thread_inv (Filling i) t d" "ids_free d" "thread_step ops clk F R (Filling i, t, d) = Some (p', t', d')"
  shows "good_step (Filling i) t d p' t' d'"
proof (cases "(of_nat i :: u32) < average_enqueued_requests t")
  case True
  have inv: "counts 0 0 t d" "unat (nr_submitted_requests t) = i" "i \<le> unat (average_enqueued_requests t)"
    using assms(1) by (simp_all add: thread_inv_def pc_taken_def)
  have "unat (of_nat i :: u32) = i" using inv(3) by (rule unat_of_nat_le)
  then have lt: "i < unat (average_enqueued_requests t)" using True by (simp add: word_less_nat_alt)
  show ?thesis
  proof (cases "issue_request ops clk F R (t, d)")
    case (Inl e)
    then show ?thesis using assms(3) True by (auto simp: thread_step_def good_step_def)
  next
    case (Inr r)
    then have run: "issue_request ops clk F R (t, d) = Inr (t', d')" and p': "p' = Filling (Suc i)"
      using assms(3) True by (auto simp: thread_step_def split: prod.splits)
    have "unat (nr_submitted_requests t) < unat (ucast (average_enqueued_requests t) :: size_t)"
      using lt inv(2) by (simp add: unat_ucast_up)
    from issue_request_counts [OF run ids_free_simps(1) [OF assms(2)] inv(1) below_top [OF this]]
    show ?thesis
      using lt inv(2) by (auto simp: good_step_def thread_inv_def pc_taken_def total_requests_def syn_kept_def p' word_less_nat_alt)
  qed
next
  case False
  have inv: "unat (nr_submitted_requests t) = i" "i \<le> unat (average_enqueued_requests t)"
    using assms(1) by (simp_all add: thread_inv_def)
  have "unat (of_nat i :: u32) = i" using inv(2) by (rule unat_of_nat_le)
  then have "i = unat (average_enqueued_requests t)" using False inv(2) by (simp add: word_less_nat_alt)
  then show ?thesis
    using False assms inv by (auto simp: thread_step_def good_step_def thread_inv_def pc_taken_def word_less_nat_alt)
qed

lemma waiting_step:
  assumes "thread_inv Waiting t d" "thread_step ops clk F R (Waiting, t, d) = Some (p', t', d')"
  shows "good_step Waiting t d p' t' d'"
proof (cases "nr_completed_requests t < request_count t")
  case True
  then have "p' = Handling (completed_requests t)" "t' = t\<lparr>completed_requests := []\<rparr>" "d' = d" "completed_requests t \<noteq> []"
    using assms(2) by (auto simp: thread_step_def split: if_split_asm)
  moreover obtain req reqs where "completed_requests t = req # reqs"
    using calculation(4) by (cases "completed_requests t") auto
  ultimately show ?thesis
    using assms(1) by (auto simp: good_step_def thread_inv_def pc_taken_def total_requests_def counts_def)
next
  case False
  then show ?thesis
    using assms by (auto simp: thread_step_def good_step_def thread_inv_def pc_taken_def)
qed

lemma handling_step:
  assumes "thread_inv (Handling rs) t d" "ids_free d" "thread_step ops clk F R (Handling rs, t, d) = Some (p', t', d')"
  shows "good_step (Handling rs) t d p' t' d'"
proof (cases rs)
  case Nil
  then show ?thesis
    using assms by (auto simp: thread_step_def good_step_def thread_inv_def pc_taken_def)
next
  case (Cons req reqs)
  let ?on = "on_request_completed ops clk F R"
  have inv: "counts 0 (Suc (length reqs)) t d" "unat (nr_submitted_requests t) \<le> total_requests t"
    using assms(1) Cons by (simp_all add: thread_inv_def pc_taken_def)
  then have lt: "unat (nr_completed_requests t) < total_requests t" by (simp add: counts_def)
  show ?thesis
  proof (cases "process_completed_request ops clk ?on req (t, d)")
    case (Inl e)
    then show ?thesis using assms(3) Cons lt by (auto simp: thread_step_def good_step_def)
  next
    case (Inr r)
    then have run: "process_completed_request ops clk ?on req (t, d) = Inr (t', d')" and p': "p' = Handling reqs"
      using assms(3) Cons by (auto simp: thread_step_def split: prod.splits)
    note e = process_counts [OF run assms(2) inv(1)]
    have same: "total_requests t' = total_requests t" using e by (simp add: total_requests_def syn_kept_def)
    have "work (Handling reqs) t' < work (Handling rs) t"
      using e lt Cons same by (cases reqs) simp_all
    moreover have "unat (nr_submitted_requests t') \<le> total_requests t"
      using e inv(2) by (auto simp: total_requests_def word_less_nat_alt split: if_split_asm)
    ultimately show ?thesis
      using e same by (auto simp: good_step_def thread_inv_def pc_taken_def syn_kept_def p' split: if_split_asm)
  qed
qed

lemma thread_step_good:
  assumes "thread_inv p t d" "ids_free d" "thread_step ops clk F R (p, t, d) = Some (p', t', d')"
  shows "good_step p t d p' t' d'"
proof (cases p)
  case (Filling i)
  with assms show ?thesis using filling_step by blast
next
  case Waiting
  with assms show ?thesis using waiting_step by blast
next
  case (Handling rs)
  with assms show ?thesis using handling_step by blast
qed (use assms(3) in \<open>simp_all add: thread_step_def\<close>)

section \<open>All threads together\<close>

definition prog_inv :: "('l, 'r, 'g) program \<Rightarrow> bool" where
  "prog_inv w \<longleftrightarrow> distinct (map (\<lambda>x. thread_id (snd x)) (threads w)) \<and>
     (\<forall>i < length (threads w). failed (fst (threads w ! i)) \<or>
        thread_inv (fst (threads w ! i)) (snd (threads w ! i)) (driver w))"

text \<open>A thread as \<open>create_thread\<close> and \<open>thread_start\<close> leave it.\<close>

definition fresh_thread :: "io_pc \<times> ('r, 'g) synthetic \<Rightarrow> bool" where
  "fresh_thread = (\<lambda>(p, t). p = Filling 0 \<and> io_thread.truncate t =
     (new_io_thread (thread_id t) (thread_queue_depth t) (request_count t))\<lparr>thread_io_queue := thread_io_queue t\<rparr>)"

definition prog_init :: "('l, 'r, 'g) program \<Rightarrow> bool" where
  "prog_init w \<longleftrightarrow> distinct (map (\<lambda>x. thread_id (snd x)) (threads w)) \<and>
     (\<forall>x \<in> set (threads w). fresh_thread x) \<and> pending (driver w) = {#}"

definition total_work :: "('l, 'r, 'g) program \<Rightarrow> nat" where
  "total_work w = (\<Sum>x\<leftarrow>threads w. work (fst x) (snd x))"

lemma created_thread_fresh:
  assumes "create_thread seed tid qdepth sector lsa flow = Some t" "thread_start t d = Inr (p, t')"
  shows "fresh_thread (p, t')"
  using assms
  by (auto simp: create_thread_def thread_start_def fresh_thread_def bindE_Inr_iff new_io_thread_def
      io_thread.defs split: flow_type.split_asm)

lemma fresh_thread_inv:
  assumes "fresh_thread (p, t)" "pending d = {#}"
  shows "thread_inv p t d" "p = Filling 0" "nr_completed_requests t = 0"
proof -
  have "nr_submitted_requests t = 0 \<and> nr_completed_requests t = 0 \<and> nr_completed_read_requests t = 0 \<and>
      nr_completed_write_requests t = 0 \<and> transferred_bytes_total t = 0 \<and> transferred_bytes_read t = 0 \<and>
      transferred_bytes_write t = 0 \<and> inflight_requests t = 0 \<and> waiting_requests t = [] \<and> completed_requests t = []"
    using assms(1) by (cases t) (simp add: fresh_thread_def new_io_thread_def io_thread.defs)
  then show "thread_inv p t d" "p = Filling 0" "nr_completed_requests t = 0"
    using assms by (auto simp: thread_inv_def counts_def pc_taken_def owned_def fresh_thread_def)
qed

lemma prog_init_inv: "prog_init w \<Longrightarrow> prog_inv w"
  using fresh_thread_inv(1) by (force simp: prog_init_def prog_inv_def)

lemma thread_inv_other: "owned (thread_id t) d' = owned (thread_id t) d \<Longrightarrow> thread_inv p t d' = thread_inv p t d"
  by (simp add: thread_inv_def counts_def)

lemma deliver_id [simp]: "thread_id (deliver clk cbs t) = thread_id t"
  using deliver_effect [of clk cbs t] by auto

lemma deliver_work [simp]: "work p (deliver clk cbs t) = work p t"
proof -
  obtain c hd hl n where "deliver clk cbs t = t\<lparr>completed_requests := c,
     device_response_time_hist := hd, e2e_latency_hist := hl, clock_readings := n\<rparr>"
    using deliver_effect by blast
  then show ?thesis by (cases "(p, t)" rule: work.cases) (simp_all add: total_requests_def)
qed

lemma thread_inv_interrupt:
  assumes "only_moves d d'" "called d' = called d @ cs" "thread_inv p t d"
  shows "thread_inv p (deliver clk (map fst cs) t) d'"
proof -
  obtain c hd hl n where t': "deliver clk (map fst cs) t = t\<lparr>completed_requests := c,
     device_response_time_hist := hd, e2e_latency_hist := hl, clock_readings := n\<rparr>"
    using deliver_effect by blast
  from interrupt_counts [OF assms(1,2), of 0 "pc_taken p" t clk] assms(3) show ?thesis
    by (simp add: thread_inv_def t' total_requests_def)
qed

lemma interrupt_moves:
  assumes "irq_entry ops vector (d\<lparr>link := l, mem := m\<rparr>) = Inr d'"
  obtains cs where "only_moves d d'" "called d' = called d @ cs"
  using irq_entry_moves [OF assms] by (auto simp: only_moves_def account_def pending_def)

lemma sum_list_replace:
  fixes xs :: "nat list"
  assumes "i < length xs"
  shows "y < xs ! i \<Longrightarrow> sum_list (xs[i := y]) < sum_list xs"
  using assms by (induction xs arbitrary: i) (auto simp: nth_Cons split: nat.splits)

lemma prog_step_inv:
  assumes "prog_step ops clk F R w who w'" "prog_inv w"
  shows "prog_inv w' \<and> (case who of Some i \<Rightarrow> total_work w' < total_work w | None \<Rightarrow> total_work w' = total_work w)"
  using assms(1)
proof (cases rule: prog_stepE)
  case (a_thread i p t p' t' d')
  have here: "failed p \<or> thread_inv p t (driver w)" "distinct (map (\<lambda>x. thread_id (snd x)) (threads w))"
    using assms(2) a_thread(4,5) by (auto simp: prog_inv_def)
  have "(p, t) \<in> set (threads w)" using a_thread(4,5) by (metis nth_mem)
  then have "\<not> failed p" using a_thread(3) by (auto simp: running_def failed_def split: io_pc.splits)
  then have good: "good_step p t (driver w) p' t' d'"
    using here(1) a_thread(6,7) thread_step_good by blast
  have other: "thread_inv q u d' = thread_inv q u (driver w)" if "j < length (threads w)" "j \<noteq> i" "threads w ! j = (q, u)" for j q u
  proof -
    have "thread_id u \<noteq> thread_id t"
      using nth_eq_iff_index_eq [OF here(2), of j i] that a_thread(4,5) by auto
    then show ?thesis using good by (intro thread_inv_other) (simp add: good_step_def others_kept_def)
  qed
  have "map (\<lambda>x. thread_id (snd x)) ((threads w)[i := (p', t')]) = map (\<lambda>x. thread_id (snd x)) (threads w)"
    using good a_thread(4,5) by (simp add: good_step_def map_update list_update_same_conv)
  then have "prog_inv w'"
    using assms(2) good a_thread(2,4) other unfolding prog_inv_def
    by (auto simp: nth_list_update good_step_def)
  moreover have "total_work w' < total_work w"
    using sum_list_replace [of i "map (\<lambda>x. work (fst x) (snd x)) (threads w)" "work p' t'"] good a_thread(2,4,5)
    by (simp add: total_work_def map_update good_step_def)
  ultimately show ?thesis using a_thread(1) by simp
next
  case (interrupt vector l b d')
  obtain cs where cs: "only_moves (driver w) d'" "called d' = called (driver w) @ cs"
    by (rule interrupt_moves [OF interrupt(4)])
  have w': "driver w' = d'" "threads w' = map (apsnd (deliver clk (map fst cs))) (threads w)"
    using interrupt(2) cs(2) by simp_all
  have "prog_inv w'"
    using assms(2) thread_inv_interrupt [OF cs] by (auto simp: prog_inv_def w' comp_def)
  moreover have "total_work w' = total_work w" by (simp add: total_work_def w' comp_def)
  ultimately show ?thesis using interrupt(1) by simp
qed

lemma prog_run_inv:
  assumes "prog_run ops clk F R w0 n w" "prog_init w0"
  shows "prog_inv w \<and> n + total_work w \<le> total_work w0"
  using assms
proof (induction rule: prog_run.induct)
  case start
  then show ?case by (simp add: prog_init_inv)
next
  case (step n w who w')
  then have "prog_inv w" "n + total_work w \<le> total_work w0" by simp_all
  with prog_step_inv [OF step(2)] show ?case by (auto split: option.splits)
qed

lemma prog_run_thread:
  assumes "prog_run ops clk F R w0 n w" "prog_init w0" "(p, t) \<in> set (threads w)" "\<not> failed p"
  shows "thread_inv p t (driver w)"
  using prog_run_inv [OF assms(1,2)] assms(3,4) by (fastforce simp: prog_inv_def in_set_conv_nth)

section \<open>Properties\<close>


text \<open>
  C30: the threads end, whatever the device and the interrupts do: a run makes at most as many steps of
  threads as the work that its threads start with, three for every request, one for every request
  of the first batch, and two.
\<close>

theorem threads_terminate:
  assumes "prog_run ops clk F R w0 n w" "prog_init w0"
  shows "n \<le> (\<Sum>(p, t)\<leftarrow>threads w0. 3 * max (unat (average_enqueued_requests t)) (unat (request_count t)) + 2 +
    unat (average_enqueued_requests t))"
proof -
  have "work (fst x) (snd x) = (case x of (p, t) \<Rightarrow> 3 * max (unat (average_enqueued_requests t)) (unat (request_count t)) +
      2 + unat (average_enqueued_requests t))" if "x \<in> set (threads w0)" for x
  proof (cases x)
    case (Pair p t)
    then have "fresh_thread (p, t)" "pending (driver w0) = {#}" using that assms(2) by (auto simp: prog_init_def)
    from fresh_thread_inv [OF this] Pair show ?thesis by (simp add: total_requests_def)
  qed
  then have "total_work w0 = (\<Sum>(p, t)\<leftarrow>threads w0. 3 * max (unat (average_enqueued_requests t)) (unat (request_count t)) +
      2 + unat (average_enqueued_requests t))"
    unfolding total_work_def by (intro arg_cong [where f = sum_list] map_cong) simp_all
  with prog_run_inv [OF assms] show ?thesis by simp
qed


text \<open>A thread that submits nothing at the start, and what stays true of it.\<close>

definition idle :: "('r, 'g) synthetic \<Rightarrow> io_pc \<times> ('r, 'g) synthetic \<Rightarrow> bool" where
  "idle t0 = (\<lambda>(p, t). (p = Filling 0 \<or> p = Waiting) \<and> nr_submitted_requests t = 0 \<and>
     thread_id t = thread_id t0 \<and> average_enqueued_requests t = 0 \<and> 0 < request_count t)"

lemma idle_blocked:
  assumes "idle t0 (p, t)" "thread_inv p t d"
  shows "completed_requests t = []" "nr_completed_requests t = 0" "owned (thread_id t) d = {#}"
proof -
  have c: "counts 0 (pc_taken p) t d" and z: "unat (nr_submitted_requests t) = 0"
    using assms by (simp_all add: idle_def thread_inv_def)
  then have n: "unat (nr_completed_requests t) = 0" and "unat (inflight_requests t) = 0"
    unfolding counts_def by linarith+
  with c show "completed_requests t = []" "owned (thread_id t) d = {#}" by (auto simp: counts_def)
  show "nr_completed_requests t = 0" by (rule word_unat_eq_iff [THEN iffD2]) (simp add: n)
qed

lemma idle_step:
  assumes "idle t0 (p, t)" "thread_inv p t d" "thread_step ops clk F R (p, t, d) = Some (p', t', d')"
  shows "idle t0 (p', t')"
  using assms(1,3) idle_blocked [OF assms(1,2)] by (auto simp: idle_def thread_step_def split: if_split_asm)

lemma idle_deliver: "idle t0 x \<Longrightarrow> idle t0 (apsnd (deliver clk cbs) x)"
  using deliver_effect [of clk cbs "snd x"] by (cases x) (auto simp: idle_def)

lemma idle_run:
  assumes "prog_run ops clk F R w0 n w" "prog_init w0" "i < length (threads w0)" "idle t0 (threads w0 ! i)"
  shows "length (threads w) = length (threads w0) \<and> idle t0 (threads w ! i)"
  using assms
proof (induction rule: prog_run.induct)
  case (step n w who w')
  then have w: "length (threads w) = length (threads w0)" "idle t0 (threads w ! i)" "i < length (threads w0)"
    by simp_all
  have inv: "thread_inv (fst (threads w ! i)) (snd (threads w ! i)) (driver w)"
    using prog_run_inv [OF step(1,4)] w by (cases "threads w ! i") (auto simp: prog_inv_def idle_def failed_def)
  from step(2) show ?case
  proof (cases rule: prog_stepE)
    case (a_thread j p t p' t' d')
    show ?thesis
    proof (cases "j = i")
      case True
      then have "idle t0 (p, t)" "thread_inv p t (driver w)" using w(2) a_thread(5) inv by simp_all
      from idle_step [OF this a_thread(7)] have "idle t0 (p', t')" .
      with True a_thread w show ?thesis by simp
    qed (use a_thread w in simp)
  next
    case (interrupt vector l b d')
    with w show ?thesis by (simp add: idle_deliver)
  qed
qed simp

text \<open>
  C32: a flow with \<open>average_enqueued_requests\<close> zero and something to do hangs: its thread submits
  nothing at the start, and since further requests are only submitted when one completes, it never
  has a command at the device and never finishes.
\<close>

theorem zero_enqueued_never_finishes:
  assumes "prog_run ops clk F R w0 n w" "prog_init w0" "i < length (threads w0)"
    and "average_enqueued_requests (snd (threads w0 ! i)) = 0" "0 < request_count (snd (threads w0 ! i))"
  shows "fst (threads w ! i) \<noteq> Finished \<and> nr_submitted_requests (snd (threads w ! i)) = 0 \<and>
    owned (thread_id (snd (threads w ! i))) (driver w) = {#}"
proof -
  obtain p t where pt: "threads w0 ! i = (p, t)" by (cases "threads w0 ! i")
  then have "fresh_thread (p, t)" "pending (driver w0) = {#}"
    using assms(2,3) by (auto simp: prog_init_def) (metis nth_mem)
  note fresh = fresh_thread_inv [OF this]
  have "nr_submitted_requests t = 0" using fresh by (simp add: thread_inv_def word_unat_eq_iff)
  then have "idle t (threads w0 ! i)" using assms(4,5) fresh(2) pt by (simp add: idle_def)
  from idle_run [OF assms(1-3) this] have id: "idle t (threads w ! i)" "i < length (threads w)"
    using assms(3) by simp_all
  have "thread_inv (fst (threads w ! i)) (snd (threads w ! i)) (driver w)"
    using prog_run_inv [OF assms(1,2)] id by (cases "threads w ! i") (auto simp: prog_inv_def idle_def failed_def)
  then show ?thesis
    using id(1) idle_blocked [of t "fst (threads w ! i)" "snd (threads w ! i)"]
    by (cases "threads w ! i") (auto simp: idle_def)
qed

lemma request_position_bound:
  assumes "request_position F R t g = Inr (pos, g')" "0 < max_lsa t" "\<And>hi g. fst (uniform_upto R hi g) \<le> hi"
  shows "unat pos < unat (max_lsa t)"
proof (cases "addr_distribution t")
  case UNIFORM
  have "unat (max_lsa t - 1) = unat (max_lsa t) - 1"
    using assms(2) by (subst unat_sub_le) (simp_all add: word_le_nat_alt word_less_nat_alt)
  moreover have "pos \<le> max_lsa t - 1"
    using UNIFORM assms(1) assms(3) [of "max_lsa t - 1" g] by (auto simp: request_position_def)
  ultimately show ?thesis using assms(2) by (simp add: word_le_nat_alt word_less_nat_alt)
next
  case ZIPFIAN
  then obtain k where k: "zipf_sample F (uniform_real R) (new_zipf F (max_lsa t) (zipfian_alpha t)) g = Some (k, g')"
    "pos = k - 1" using assms(1) by (auto simp: request_position_def split: option.splits)
  have "1 \<le> k \<and> k \<le> max_lsa t"
    using zipf_sample_bounds [OF k(1)] assms(2) by (simp add: new_zipf_def word_le_nat_alt word_less_nat_alt)
  moreover have "unat (k - 1) = unat k - 1" using calculation by (subst unat_sub_le) simp_all
  moreover have "1 \<le> unat k" "unat k \<le> unat (max_lsa t)" using calculation(1) by (simp_all add: word_le_nat_alt)
  ultimately show ?thesis unfolding k(2) by simp
qed

lemma request_sectors_bound:
  assumes "request_sectors R t g = (sectors, g')" "size_distribution t = NORMAL \<or> 0 < sint (size_mean t)"
  shows "\<exists>n. unat (scast sectors :: size_t) = n \<and> 1 \<le> n \<and> n < 2 ^ 31"
proof -
  have pos: "0 < sint sectors"
    using assms by (auto simp: request_sectors_def split: request_size_distribution.splits prod.splits if_splits)
  have up: "sint sectors < 2 ^ 31" using sint_lt [of sectors] by simp
  have "uint (scast sectors :: size_t) = sint sectors"
    unfolding scast_eq uint_word_of_int using pos up by (intro mod_pos_pos_trivial) simp_all
  then have "unat (scast sectors :: size_t) = nat (sint sectors)" by (simp add: unat_eq_nat_uint)
  moreover have "nat (sint sectors) < 2 ^ 31" "1 \<le> nat (sint sectors)" using pos up by simp_all
  ultimately show ?thesis by blast
qed

lemma unat_align_down:
  fixes x :: u64 and a :: u32
  defines "y \<equiv> if a \<noteq> 0 then x - x mod ucast a else x"
  shows "unat y \<le> unat x" "a = 0 \<or> unat a dvd unat y"
proof -
  have "unat (x mod ucast a) = unat x mod unat a" by (simp add: unat_mod unat_ucast_up)
  then have "unat (x - x mod ucast a) = unat x - unat x mod unat a"
    by (subst unat_sub_le) (simp_all add: word_le_nat_alt)
  then show "unat y \<le> unat x" "a = 0 \<or> unat a dvd unat y" by (simp_all add: y_def dvd_minus_mod)
qed

text \<open>
  C33: a generated request starts inside the namespace, on a boundary of the alignment, and has at least
  one sector, provided the configuration says so for constant sizes; it need not end inside.
\<close>

theorem generated_request_bounds:
  assumes "generate_request F R t = Inr ((do_write, pos, sz), t')" "0 < max_lsa t"
    and "\<And>hi g. fst (uniform_upto R hi g) \<le> hi"
    and "unat (max_lsa t) * unat (sector_size t) < 2 ^ 64"
    and "size_distribution t = NORMAL \<or> 0 < sint (size_mean t)"
  shows "\<exists>sector n. unat pos = sector * unat (sector_size t) \<and> sector < unat (max_lsa t) \<and>
      (addr_alignment t = 0 \<or> unat (addr_alignment t) dvd sector) \<and>
      unat sz = n * unat (sector_size t) \<and> 1 \<le> n \<and> n < 2 ^ 31"
proof -
  obtain g1 sectors g2 pos0 g3 where
    gen: "request_sectors R t g1 = (sectors, g2)" "request_position F R t g2 = Inr (pos0, g3)" and
    res: "pos = (if addr_alignment t \<noteq> 0 then pos0 - pos0 mod ucast (addr_alignment t) else pos0) * ucast (sector_size t)"
      "sz = scast sectors * ucast (sector_size t)"
    using assms(1) by (auto simp: generate_request_def bindE_Inr_iff split: prod.splits if_splits)
  let ?at = "if addr_alignment t \<noteq> 0 then pos0 - pos0 mod ucast (addr_alignment t) else pos0"
  note at = unat_align_down [of "addr_alignment t" pos0]
  have lt: "unat ?at < unat (max_lsa t)" using at(1) request_position_bound [OF gen(2) assms(2,3)] by (rule le_less_trans)
  then have "unat ?at * unat (sector_size t) < 2 ^ 64"
    using assms(4) mult_right_mono [of "unat ?at" "unat (max_lsa t)" "unat (sector_size t)"] by linarith
  then have pos: "unat pos = unat ?at * unat (sector_size t)"
    unfolding res(1) by (subst unat_mult_lem [THEN iffD1]) (simp_all add: unat_ucast_up)
  obtain n where n: "unat (scast sectors :: size_t) = n" "1 \<le> n" "n < 2 ^ 31"
    using request_sectors_bound [OF gen(1) assms(5)] by blast
  then have "n * unat (sector_size t) < 2 ^ 31 * 2 ^ 32" by (intro mult_strict_mono') simp_all
  then have "unat sz = n * unat (sector_size t)"
    unfolding res(2) using n(1) by (subst unat_mult_lem [THEN iffD1]) (simp_all add: unat_ucast_up)
  with pos lt at(2) n show ?thesis by blast
qed

end
