(* ===== verification/ResultExporter.thy ===== *)
theory ResultExporter
  imports IoThread "HOL-Library.Monad_Syntax"
begin

text \<open>
  \<^verbatim>\<open>result_exporter.h\<close> and \<^verbatim>\<open>result_exporter.cpp\<close>: the results as a
  JSON document. The messages follow \<^verbatim>\<open>proto/sim_result.proto\<close>, a repeated field is a list and
  a \<open>double\<close> of type \<open>'r\<close>. Parameters: the JSON library and the library of histograms.
\<close>

section \<open>The JSON library\<close>

text \<open>
  How the library makes values: \<open>j_set o k v\<close> is \<open>o[k] = v\<close>, \<open>j_push\<close> is \<open>push_back\<close>; and how it reads
  them: the members of an object, the elements of an array, numbers.
\<close>

record ('j, 'r) json_lib =
  j_null :: 'j
  j_object :: 'j
  j_array :: 'j
  j_set :: "'j \<Rightarrow> string \<Rightarrow> 'j \<Rightarrow> 'j"
  j_push :: "'j \<Rightarrow> 'j \<Rightarrow> 'j"
  j_int :: "int \<Rightarrow> 'j"
  j_double :: "'r \<Rightarrow> 'j"
  members :: "'j \<Rightarrow> (string \<Rightarrow> 'j option) option"
  elements :: "'j \<Rightarrow> 'j list option"
  as_int :: "'j \<Rightarrow> int option"
  as_double :: "'j \<Rightarrow> 'r option"

text \<open>
  Its documented behaviour: an assignment to a member of an object, or of a value that is still null,
  sets that member and keeps the others; \<open>push_back\<close> appends; what was stored is read back.
\<close>

definition json_laws :: "('j, 'r) json_lib \<Rightarrow> bool" where
  "json_laws J \<longleftrightarrow> members J (j_null J) = Some (\<lambda>k. None) \<and> members J (j_object J) = Some (\<lambda>k. None) \<and>
     (\<forall>x f k v. members J x = Some f \<longrightarrow> members J (j_set J x k v) = Some (f(k \<mapsto> v))) \<and>
     elements J (j_array J) = Some [] \<and>
     (\<forall>x xs v. elements J x = Some xs \<longrightarrow> elements J (j_push J x v) = Some (xs @ [v])) \<and>
     (\<forall>n. as_int J (j_int J n) = Some n) \<and> (\<forall>r. as_double J (j_double J r) = Some r)"

definition set_all :: "('j, 'r) json_lib \<Rightarrow> (string \<times> 'j) list \<Rightarrow> 'j \<Rightarrow> 'j" where
  "set_all J kvs x = fold (\<lambda>(k, v) x. j_set J x k v) kvs x"

definition array_of :: "('j, 'r) json_lib \<Rightarrow> 'j list \<Rightarrow> 'j" where
  "array_of J vs = fold (\<lambda>v x. j_push J x v) vs (j_array J)"

definition j_word :: "('j, 'r) json_lib \<Rightarrow> 'w::len word \<Rightarrow> 'j" where
  "j_word J w = j_int J (uint w)"

section \<open>Messages\<close>

record 'r histogram_entry =
  he_value :: 'r
  he_percentile :: 'r
  he_total_count :: u64

record 'r host_queue_stats =
  hq_queue_id :: u32
  hq_read_histogram :: "'r histogram_entry list"
  hq_write_histogram :: "'r histogram_entry list"
  hq_read_mean :: 'r
  hq_read_stddev :: 'r
  hq_max_read :: 'r
  hq_write_mean :: 'r
  hq_write_stddev :: 'r
  hq_max_write :: 'r
  hq_read_request_count :: u64
  hq_write_request_count :: u64

record chip_stats =
  cs_channel_id :: u32
  cs_chip_id :: u32
  cs_total_transfer_time :: u64
  cs_total_execution_time :: u64

record nvm_controller_stats =
  nc_read_command_count :: u64
  nc_multiplane_read_command_count :: u64
  nc_program_command_count :: u64
  nc_multiplane_program_command_count :: u64
  nc_erase_command_count :: u64
  nc_multiplane_erase_command_count :: u64
  nc_chip_stats :: "chip_stats list"

text \<open>The four fields of one group of \<open>TSUStats\<close>, and its seven groups.\<close>

record 'r time_stats =
  ts_mean :: 'r
  ts_stddev :: 'r
  ts_max :: 'r
  ts_histogram :: "'r histogram_entry list"

record 'r tsu_stats =
  enqueued_read_transactions :: u64
  enqueued_write_transactions :: u64
  enqueued_erase_transactions :: u64
  read_waiting :: "'r time_stats"
  write_waiting :: "'r time_stats"
  erase_waiting :: "'r time_stats"
  read_transfer :: "'r time_stats"
  read_execution :: "'r time_stats"
  write_transfer :: "'r time_stats"
  write_execution :: "'r time_stats"

record 'r sim_result =
  sr_host_queue_stats :: "'r host_queue_stats list"
  sr_nvm_controller_stats :: nvm_controller_stats
  sr_tsu_stats :: "'r tsu_stats"

section \<open>Exporting the result of the simulation\<close>

definition export_histogram_entry :: "('j, 'r) json_lib \<Rightarrow> 'r histogram_entry \<Rightarrow> 'j" where
  "export_histogram_entry J e = set_all J
     [(''percentile'', j_double J (he_percentile e)),
      (''value'', j_double J (he_value e)),
      (''total_count'', j_word J (he_total_count e))] (j_null J)"

definition export_queue_stats :: "('j, 'r) json_lib \<Rightarrow> 'r host_queue_stats \<Rightarrow> 'j" where
  "export_queue_stats J q = set_all J
     [(''queue_id'', j_word J (hq_queue_id q)),
      (''read_request_turnaround_time_mean'', j_double J (hq_read_mean q)),
      (''read_request_turnaround_time_stddev'', j_double J (hq_read_stddev q)),
      (''max_read_request_turnaround_time'', j_double J (hq_max_read q)),
      (''read_request_latency_histogram'', array_of J (map (export_histogram_entry J) (hq_read_histogram q))),
      (''write_request_turnaround_time_mean'', j_double J (hq_write_mean q)),
      (''write_request_turnaround_time_stddev'', j_double J (hq_write_stddev q)),
      (''max_write_request_turnaround_time'', j_double J (hq_max_write q)),
      (''write_request_latency_histogram'', array_of J (map (export_histogram_entry J) (hq_write_histogram q))),
      (''read_request_count'', j_word J (hq_read_request_count q)),
      (''write_request_count'', j_word J (hq_write_request_count q))] (j_null J)"

definition export_chip_stats :: "('j, 'r) json_lib \<Rightarrow> chip_stats \<Rightarrow> 'j" where
  "export_chip_stats J c = set_all J
     [(''channel_id'', j_word J (cs_channel_id c)),
      (''chip_id'', j_word J (cs_chip_id c)),
      (''total_transfer_time'', j_word J (cs_total_transfer_time c)),
      (''total_execution_time'', j_word J (cs_total_execution_time c))] (j_null J)"

definition export_nvm_controller_stats :: "('j, 'r) json_lib \<Rightarrow> nvm_controller_stats \<Rightarrow> 'j" where
  "export_nvm_controller_stats J c = set_all J
     [(''read_command_count'', j_word J (nc_read_command_count c)),
      (''multiplane_read_command_count'', j_word J (nc_multiplane_read_command_count c)),
      (''program_command_count'', j_word J (nc_program_command_count c)),
      (''multiplane_program_command_count'', j_word J (nc_multiplane_program_command_count c)),
      (''erase_command_count'', j_word J (nc_erase_command_count c)),
      (''multiplane_erase_command_count'', j_word J (nc_multiplane_erase_command_count c)),
      (''chip_stats'', array_of J (map (export_chip_stats J) (nc_chip_stats c)))] (j_null J)"

text \<open>The macro \<open>EXPORT_HIST\<close>.\<close>

definition EXPORT_HIST :: "('j, 'r) json_lib \<Rightarrow> string \<Rightarrow> 'r time_stats \<Rightarrow> 'j \<Rightarrow> 'j" where
  "EXPORT_HIST J name t = set_all J
     [(name @ ''_time_mean'', j_double J (ts_mean t)),
      (name @ ''_time_stddev'', j_double J (ts_stddev t)),
      (''max_'' @ name @ ''_time'', j_double J (ts_max t)),
      (name @ ''_time_histogram'', array_of J (map (export_histogram_entry J) (ts_histogram t)))]"

definition export_tsu_stats :: "('j, 'r) json_lib \<Rightarrow> 'r tsu_stats \<Rightarrow> 'j" where
  "export_tsu_stats J s =
     (let obj = set_all J
        [(''enqueued_read_transactions'', j_word J (enqueued_read_transactions s)),
         (''enqueued_write_transactions'', j_word J (enqueued_write_transactions s)),
         (''enqueued_erase_transactions'', j_word J (enqueued_erase_transactions s))] (j_null J)
      in EXPORT_HIST J ''write_execution'' (write_execution s)
          (EXPORT_HIST J ''write_transfer'' (write_transfer s)
            (EXPORT_HIST J ''read_execution'' (read_execution s)
              (EXPORT_HIST J ''read_transfer'' (read_transfer s)
                (EXPORT_HIST J ''erase_waiting'' (erase_waiting s)
                  (EXPORT_HIST J ''write_waiting'' (write_waiting s)
                    (EXPORT_HIST J ''read_waiting'' (read_waiting s) obj)))))))"

definition export_sim_result :: "('j, 'r) json_lib \<Rightarrow> 'r sim_result \<Rightarrow> 'j \<Rightarrow> 'j" where
  "export_sim_result J r = set_all J
     [(''host_queue_stats'', array_of J (map (export_queue_stats J) (sr_host_queue_stats r))),
      (''nvm_controller_stats'', export_nvm_controller_stats J (sr_nvm_controller_stats r)),
      (''tsu_stats'', export_tsu_stats J (sr_tsu_stats r))]"

section \<open>Exporting the statistics of the threads\<close>

text \<open>
  The library of histograms: the steps of its iterator over percentiles, with \<open>ticks\<close> per half
  distance, mean, standard deviation and maximum of the recorded values.
\<close>

record 'r percentile_step =
  ps_highest_equivalent_value :: int
  ps_percentile :: 'r
  ps_cumulative_count :: int

record 'r hdr_lib =
  hdr_percentiles :: "int \<Rightarrow> int list \<Rightarrow> 'r percentile_step list"
  hdr_mean :: "int list \<Rightarrow> 'r"
  hdr_stddev :: "int list \<Rightarrow> 'r"
  hdr_max :: "int list \<Rightarrow> int"
  double_of_int :: "int \<Rightarrow> 'r"

definition TICKS_PER_HALF_DISTANCE :: int where
  "TICKS_PER_HALF_DISTANCE = 10"

definition export_histogram :: "('j, 'r) json_lib \<Rightarrow> 'r hdr_lib \<Rightarrow> int list \<Rightarrow> 'j" where
  "export_histogram J H hist = array_of J (map (\<lambda>s. set_all J
     [(''value'', j_double J (double_of_int H (ps_highest_equivalent_value s))),
      (''percentile'', j_double J (ps_percentile s)),
      (''total_count'', j_int J (ps_cumulative_count s))] (j_object J))
     (hdr_percentiles H TICKS_PER_HALF_DISTANCE hist))"

definition export_thread_stats :: "('j, 'r) json_lib \<Rightarrow> 'r hdr_lib \<Rightarrow> 'r io_stats \<Rightarrow> 'j" where
  "export_thread_stats J H s = set_all J
     [(''id'', j_int J (sint (st_thread_id s))),
      (''total_requests'', j_word J (st_request_count s)),
      (''read_requests'', j_word J (st_read_request_count s)),
      (''write_requests'', j_word J (st_write_request_count s)),
      (''iops_total'', j_double J (iops_total s)),
      (''iops_read'', j_double J (iops_read s)),
      (''iops_write'', j_double J (iops_write s)),
      (''bandwidth_total'', j_double J (bandwidth_total s)),
      (''bandwidth_read'', j_double J (bandwidth_read s)),
      (''bandwidth_write'', j_double J (bandwidth_write s)),
      (''device_response_time_histogram'', export_histogram J H (st_device_response_time_hist s)),
      (''device_response_time_mean'', j_double J (hdr_mean H (st_device_response_time_hist s))),
      (''device_response_time_stddev'', j_double J (hdr_stddev H (st_device_response_time_hist s))),
      (''max_device_response_time'', j_int J (hdr_max H (st_device_response_time_hist s))),
      (''end_to_end_request_latency_histogram'', export_histogram J H (st_e2e_latency_hist s)),
      (''end_to_end_request_latency_mean'', j_double J (hdr_mean H (st_e2e_latency_hist s))),
      (''end_to_end_request_latency_stddev'', j_double J (hdr_stddev H (st_e2e_latency_hist s))),
      (''max_end_to_end_request_latency'', j_int J (hdr_max H (st_e2e_latency_hist s)))] (j_object J)"

definition export_host_result :: "('j, 'r) json_lib \<Rightarrow> 'r hdr_lib \<Rightarrow> 'r io_stats list \<Rightarrow> 'j \<Rightarrow> 'j" where
  "export_host_result J H stats root =
     j_set J root ''host_thread_stats'' (array_of J (map (export_thread_stats J H) stats))"

text \<open>The document that \<open>export_result\<close> writes to the file.\<close>

definition export_result :: "('j, 'r) json_lib \<Rightarrow> 'r hdr_lib \<Rightarrow> 'r io_stats list \<Rightarrow> 'r sim_result \<Rightarrow> 'j" where
  "export_result J H stats r = export_sim_result J r (export_host_result J H stats (j_null J))"

section \<open>Reading a document\<close>

text \<open>The inverse direction, for the specification: a reader of the document by the names of its members.\<close>

definition member_at :: "('j, 'r) json_lib \<Rightarrow> 'j \<Rightarrow> string \<Rightarrow> 'j option" where
  "member_at J x k = do { f \<leftarrow> members J x; f k }"

definition word_at :: "('j, 'r) json_lib \<Rightarrow> 'j \<Rightarrow> string \<Rightarrow> 'w::len word option" where
  "word_at J x k = do { v \<leftarrow> member_at J x k; n \<leftarrow> as_int J v; Some (word_of_int n) }"

definition double_at :: "('j, 'r) json_lib \<Rightarrow> 'j \<Rightarrow> string \<Rightarrow> 'r option" where
  "double_at J x k = do { v \<leftarrow> member_at J x k; as_double J v }"

definition list_at :: "('j, 'r) json_lib \<Rightarrow> ('j \<Rightarrow> 'a option) \<Rightarrow> 'j \<Rightarrow> string \<Rightarrow> 'a list option" where
  "list_at J read x k = do { v \<leftarrow> member_at J x k; xs \<leftarrow> elements J v; those (map read xs) }"

definition read_entry :: "('j, 'r) json_lib \<Rightarrow> 'j \<Rightarrow> 'r histogram_entry option" where
  "read_entry J x = do { v \<leftarrow> double_at J x ''value''; p \<leftarrow> double_at J x ''percentile''; n \<leftarrow> word_at J x ''total_count'';
     Some \<lparr>he_value = v, he_percentile = p, he_total_count = n\<rparr> }"

definition read_queue :: "('j, 'r) json_lib \<Rightarrow> 'j \<Rightarrow> 'r host_queue_stats option" where
  "read_queue J x = do {
     i \<leftarrow> word_at J x ''queue_id'';
     rh \<leftarrow> list_at J (read_entry J) x ''read_request_latency_histogram'';
     wh \<leftarrow> list_at J (read_entry J) x ''write_request_latency_histogram'';
     rm \<leftarrow> double_at J x ''read_request_turnaround_time_mean'';
     rs \<leftarrow> double_at J x ''read_request_turnaround_time_stddev'';
     rx \<leftarrow> double_at J x ''max_read_request_turnaround_time'';
     wm \<leftarrow> double_at J x ''write_request_turnaround_time_mean'';
     ws \<leftarrow> double_at J x ''write_request_turnaround_time_stddev'';
     wx \<leftarrow> double_at J x ''max_write_request_turnaround_time'';
     rc \<leftarrow> word_at J x ''read_request_count''; wc \<leftarrow> word_at J x ''write_request_count'';
     Some \<lparr>hq_queue_id = i, hq_read_histogram = rh, hq_write_histogram = wh, hq_read_mean = rm, hq_read_stddev = rs,
       hq_max_read = rx, hq_write_mean = wm, hq_write_stddev = ws, hq_max_write = wx,
       hq_read_request_count = rc, hq_write_request_count = wc\<rparr> }"

definition read_chip :: "('j, 'r) json_lib \<Rightarrow> 'j \<Rightarrow> chip_stats option" where
  "read_chip J x = do { c \<leftarrow> word_at J x ''channel_id''; i \<leftarrow> word_at J x ''chip_id'';
     t \<leftarrow> word_at J x ''total_transfer_time''; e \<leftarrow> word_at J x ''total_execution_time'';
     Some \<lparr>cs_channel_id = c, cs_chip_id = i, cs_total_transfer_time = t, cs_total_execution_time = e\<rparr> }"

definition read_controller :: "('j, 'r) json_lib \<Rightarrow> 'j \<Rightarrow> nvm_controller_stats option" where
  "read_controller J x = do {
     r \<leftarrow> word_at J x ''read_command_count''; mr \<leftarrow> word_at J x ''multiplane_read_command_count'';
     p \<leftarrow> word_at J x ''program_command_count''; mp \<leftarrow> word_at J x ''multiplane_program_command_count'';
     e \<leftarrow> word_at J x ''erase_command_count''; me \<leftarrow> word_at J x ''multiplane_erase_command_count'';
     cs \<leftarrow> list_at J (read_chip J) x ''chip_stats'';
     Some \<lparr>nc_read_command_count = r, nc_multiplane_read_command_count = mr, nc_program_command_count = p,
       nc_multiplane_program_command_count = mp, nc_erase_command_count = e, nc_multiplane_erase_command_count = me,
       nc_chip_stats = cs\<rparr> }"

definition read_times :: "('j, 'r) json_lib \<Rightarrow> string \<Rightarrow> 'j \<Rightarrow> 'r time_stats option" where
  "read_times J name x = do {
     m \<leftarrow> double_at J x (name @ ''_time_mean''); s \<leftarrow> double_at J x (name @ ''_time_stddev'');
     h \<leftarrow> double_at J x (''max_'' @ name @ ''_time''); es \<leftarrow> list_at J (read_entry J) x (name @ ''_time_histogram'');
     Some \<lparr>ts_mean = m, ts_stddev = s, ts_max = h, ts_histogram = es\<rparr> }"

definition read_tsu :: "('j, 'r) json_lib \<Rightarrow> 'j \<Rightarrow> 'r tsu_stats option" where
  "read_tsu J x = do {
     r \<leftarrow> word_at J x ''enqueued_read_transactions''; w \<leftarrow> word_at J x ''enqueued_write_transactions'';
     e \<leftarrow> word_at J x ''enqueued_erase_transactions'';
     rw \<leftarrow> read_times J ''read_waiting'' x; ww \<leftarrow> read_times J ''write_waiting'' x; ew \<leftarrow> read_times J ''erase_waiting'' x;
     rt \<leftarrow> read_times J ''read_transfer'' x; re \<leftarrow> read_times J ''read_execution'' x;
     wt \<leftarrow> read_times J ''write_transfer'' x; we \<leftarrow> read_times J ''write_execution'' x;
     Some \<lparr>enqueued_read_transactions = r, enqueued_write_transactions = w, enqueued_erase_transactions = e,
       read_waiting = rw, write_waiting = ww, erase_waiting = ew, read_transfer = rt, read_execution = re,
       write_transfer = wt, write_execution = we\<rparr> }"

definition read_sim_result :: "('j, 'r) json_lib \<Rightarrow> 'j \<Rightarrow> 'r sim_result option" where
  "read_sim_result J x = do {
     qs \<leftarrow> list_at J (read_queue J) x ''host_queue_stats'';
     c \<leftarrow> member_at J x ''nvm_controller_stats''; cs \<leftarrow> read_controller J c;
     t \<leftarrow> member_at J x ''tsu_stats''; ts \<leftarrow> read_tsu J t;
     Some \<lparr>sr_host_queue_stats = qs, sr_nvm_controller_stats = cs, sr_tsu_stats = ts\<rparr> }"

text \<open>The statistics of a thread without its histograms, of which the document has a digest.\<close>

definition read_thread :: "('j, 'r) json_lib \<Rightarrow> 'j \<Rightarrow> 'r io_stats option" where
  "read_thread J x = do {
     i \<leftarrow> word_at J x ''id'';
     n \<leftarrow> word_at J x ''total_requests''; r \<leftarrow> word_at J x ''read_requests''; w \<leftarrow> word_at J x ''write_requests'';
     it \<leftarrow> double_at J x ''iops_total''; ir \<leftarrow> double_at J x ''iops_read''; iw \<leftarrow> double_at J x ''iops_write'';
     bt \<leftarrow> double_at J x ''bandwidth_total''; br \<leftarrow> double_at J x ''bandwidth_read''; bw \<leftarrow> double_at J x ''bandwidth_write'';
     Some \<lparr>st_thread_id = i, st_request_count = n, st_read_request_count = r, st_write_request_count = w,
       iops_total = it, iops_read = ir, iops_write = iw, bandwidth_total = bt, bandwidth_read = br,
       bandwidth_write = bw, st_device_response_time_hist = [], st_e2e_latency_hist = []\<rparr> }"

definition without_histograms :: "'r io_stats \<Rightarrow> 'r io_stats" where
  "without_histograms s = s\<lparr>st_device_response_time_hist := [], st_e2e_latency_hist := []\<rparr>"

section \<open>What the library does with the document\<close>

lemma members_set_all:
  assumes "json_laws J" "members J x = Some f"
  shows "members J (set_all J kvs x) = Some (\<lambda>k. case map_of (rev kvs) k of None \<Rightarrow> f k | Some v \<Rightarrow> Some v)"
  using assms(2)
proof (induction kvs arbitrary: x f)
  case (Cons kv kvs)
  have "members J (j_set J x (fst kv) (snd kv)) = Some (f(fst kv \<mapsto> snd kv))"
    using assms(1) Cons.prems by (simp add: json_laws_def)
  from Cons.IH [OF this] show ?case
    by (auto simp: set_all_def split_def map_add_def fun_eq_iff split: option.splits)
qed (simp add: set_all_def)

lemma elements_array_of:
  assumes "json_laws J"
  shows "elements J (array_of J vs) = Some vs"
proof -
  have "elements J (fold (\<lambda>v x. j_push J x v) vs x) = Some (xs @ vs)" if "elements J x = Some xs" for x xs
    using that assms by (induction vs arbitrary: x xs) (simp_all add: json_laws_def)
  from this [of "j_array J" "[]"] assms show ?thesis by (simp add: array_of_def json_laws_def)
qed

lemma those_map: "(\<And>x. x \<in> set xs \<Longrightarrow> read (f x) = Some x) \<Longrightarrow> those (map read (map f xs)) = Some xs"
  by (induction xs) auto

lemma json_atoms:
  assumes "json_laws J"
  shows "as_int J (j_int J n) = Some n" "as_int J (j_word J w) = Some (uint w)" "as_double J (j_double J r) = Some r"
    "members J (j_null J) = Some (\<lambda>k. None)" "members J (j_object J) = Some (\<lambda>k. None)"
  using assms by (simp_all add: json_laws_def j_word_def)

lemmas json_read = json_atoms members_set_all elements_array_of member_at_def word_at_def double_at_def list_at_def

lemma read_entry_export: "json_laws J \<Longrightarrow> read_entry J (export_histogram_entry J e) = Some e"
  by (simp add: read_entry_def export_histogram_entry_def json_read)

lemma read_entries_export:
  "json_laws J \<Longrightarrow> those (map (read_entry J) (map (export_histogram_entry J) es)) = Some es"
  by (intro those_map read_entry_export)

lemma read_queue_export: "json_laws J \<Longrightarrow> read_queue J (export_queue_stats J q) = Some q"
  using read_entries_export [of J]
  by (simp add: read_queue_def export_queue_stats_def json_read)

lemma read_controller_export: "json_laws J \<Longrightarrow> read_controller J (export_nvm_controller_stats J c) = Some c"
proof -
  assume J: "json_laws J"
  have "read_chip J (export_chip_stats J c) = Some c" for c
    using J by (simp add: read_chip_def export_chip_stats_def json_read)
  then have "those (map (read_chip J) (map (export_chip_stats J) cs)) = Some cs" for cs by (intro those_map)
  with J show ?thesis
    by (simp add: read_controller_def export_nvm_controller_stats_def json_read)
qed

lemma member_EXPORT_HIST:
  assumes "json_laws J" "members J x = Some f"
  shows "members J (EXPORT_HIST J name t x) = Some (\<lambda>k. case map_of (rev
     [(name @ ''_time_mean'', j_double J (ts_mean t)), (name @ ''_time_stddev'', j_double J (ts_stddev t)),
      (''max_'' @ name @ ''_time'', j_double J (ts_max t)),
      (name @ ''_time_histogram'', array_of J (map (export_histogram_entry J) (ts_histogram t)))]) k
     of None \<Rightarrow> f k | Some v \<Rightarrow> Some v)"
  unfolding EXPORT_HIST_def by (rule members_set_all [OF assms])

lemma read_tsu_export: "json_laws J \<Longrightarrow> read_tsu J (export_tsu_stats J s) = Some s"
  using read_entries_export [of J]
  by (simp add: read_tsu_def read_times_def export_tsu_stats_def Let_def member_EXPORT_HIST json_read)

lemma read_thread_export: "json_laws J \<Longrightarrow> read_thread J (export_thread_stats J H s) = Some (without_histograms s)"
  by (simp add: read_thread_def export_thread_stats_def without_histograms_def json_read)

lemma members_document:
  assumes "json_laws J"
  shows "members J (export_result J H stats r) = Some (\<lambda>k.
    case map_of [(''tsu_stats'', export_tsu_stats J (sr_tsu_stats r)),
      (''nvm_controller_stats'', export_nvm_controller_stats J (sr_nvm_controller_stats r)),
      (''host_queue_stats'', array_of J (map (export_queue_stats J) (sr_host_queue_stats r))),
      (''host_thread_stats'', array_of J (map (export_thread_stats J H) stats))] k
    of None \<Rightarrow> None | Some v \<Rightarrow> Some v)"
proof -
  have "members J (export_host_result J H stats (j_null J)) =
      Some ((\<lambda>k. None)(''host_thread_stats'' \<mapsto> array_of J (map (export_thread_stats J H) stats)))"
    using assms by (simp add: export_host_result_def json_laws_def)
  from members_set_all [OF assms this] show ?thesis
    by (auto simp: export_result_def export_sim_result_def fun_eq_iff)
qed

section \<open>Properties\<close>


text \<open>A library that keeps the members of an object in a list.\<close>

datatype 'r json = JNull | JObject "(string \<times> 'r json) list" | JArray "'r json list" | JInt int | JDouble 'r

definition list_json :: "('r json, 'r) json_lib" where
  "list_json = \<lparr>j_null = JNull, j_object = JObject [], j_array = JArray [],
     j_set = (\<lambda>x k v. case x of JNull \<Rightarrow> JObject [(k, v)] | JObject kvs \<Rightarrow> JObject ((k, v) # kvs) | _ \<Rightarrow> x),
     j_push = (\<lambda>x v. case x of JArray vs \<Rightarrow> JArray (vs @ [v]) | _ \<Rightarrow> x),
     j_int = JInt, j_double = JDouble,
     members = (\<lambda>x. case x of JNull \<Rightarrow> Some (\<lambda>k. None) | JObject kvs \<Rightarrow> Some (map_of kvs) | _ \<Rightarrow> None),
     elements = (\<lambda>x. case x of JArray vs \<Rightarrow> Some vs | _ \<Rightarrow> None),
     as_int = (\<lambda>x. case x of JInt n \<Rightarrow> Some n | _ \<Rightarrow> None),
     as_double = (\<lambda>x. case x of JDouble r \<Rightarrow> Some r | _ \<Rightarrow> None)\<rparr>"

lemma list_json_laws: "json_laws list_json"
  by (auto simp: json_laws_def list_json_def split: json.splits)

definition sample_times :: "nat \<Rightarrow> nat time_stats" where
  "sample_times n = \<lparr>ts_mean = n, ts_stddev = n + 1, ts_max = n + 2,
     ts_histogram = [\<lparr>he_value = n, he_percentile = 50, he_total_count = 7\<rparr>]\<rparr>"

definition sample_result :: "nat sim_result" where
  "sample_result = \<lparr>sr_host_queue_stats = [],
     sr_nvm_controller_stats = \<lparr>nc_read_command_count = 1, nc_multiplane_read_command_count = 2,
       nc_program_command_count = 3, nc_multiplane_program_command_count = 4, nc_erase_command_count = 5,
       nc_multiplane_erase_command_count = 6,
       nc_chip_stats = [\<lparr>cs_channel_id = 0, cs_chip_id = 1, cs_total_transfer_time = 8, cs_total_execution_time = 9\<rparr>]\<rparr>,
     sr_tsu_stats = \<lparr>enqueued_read_transactions = 1, enqueued_write_transactions = 2, enqueued_erase_transactions = 3,
       read_waiting = sample_times 10, write_waiting = sample_times 20, erase_waiting = sample_times 30,
       read_transfer = sample_times 40, read_execution = sample_times 50, write_transfer = sample_times 60,
       write_execution = sample_times 70\<rparr>\<rparr>"

definition sample_hdr :: "nat hdr_lib" where
  "sample_hdr = \<lparr>hdr_percentiles = (\<lambda>ticks vs. map (\<lambda>v. \<lparr>ps_highest_equivalent_value = v, ps_percentile = 100,
       ps_cumulative_count = int (length vs)\<rparr>) vs),
     hdr_mean = (\<lambda>vs. 0), hdr_stddev = (\<lambda>vs. 0), hdr_max = (\<lambda>vs. foldr max vs 0), double_of_int = nat\<rparr>"

definition sample_stats :: "nat io_stats" where
  "sample_stats = \<lparr>st_thread_id = 1, st_request_count = 3, st_read_request_count = 2, st_write_request_count = 1,
     iops_total = 30, iops_read = 20, iops_write = 10, bandwidth_total = 300, bandwidth_read = 200,
     bandwidth_write = 100, st_device_response_time_hist = [4, 5, 6], st_e2e_latency_hist = [7, 8, 9]\<rparr>"


end
