(* ===== verification/Frontend.thy ===== *)
theory Frontend
  imports NvmeStart IoRuns ResultExporter
begin

text \<open>
  \<^verbatim>\<open>main.cpp\<close> between the configuration and the results: the driver is started with a
  queue for each flow, a thread is made for each flow, and all threads run. Their bounds follow from
  those of theory IoRuns, now for the program that \<open>main\<close> sets up.
\<close>

section \<open>The program of main\<close>

text \<open>
  One thread for each flow, numbered from \<open>tid\<close>; \<open>None\<close> when a flow names a namespace that does not
  exist, after which \<open>main\<close> fails. A null thread would be run.
\<close>

primrec create_threads ::
    "(u32 \<Rightarrow> 'g) \<Rightarrow> 'r host_config \<Rightarrow> u32 \<Rightarrow> 'r flow_definition list \<Rightarrow> fault + ('r, 'g) synthetic list option" where
  "create_threads seed c tid [] = Inr (Some [])"
| "create_threads seed c tid (flow # flows) =
     (case hc_namespaces c (flow_nsid flow) of
        None \<Rightarrow> Inr None
      | Some capacity_sects \<Rightarrow>
          (case create_thread seed tid (hc_io_queue_depth c) (hc_sector_size c) capacity_sects flow of
             None \<Rightarrow> Inl UndefinedBehaviour
           | Some t \<Rightarrow> map_sum id (map_option ((#) t)) (create_threads seed c (tid + 1) flows)))"

text \<open>\<open>run\<close> of every thread: each takes its queue.\<close>

primrec run_threads ::
    "('l, completion) nvme_driver \<Rightarrow> ('r, 'g) synthetic list \<Rightarrow> fault + (io_pc \<times> ('r, 'g) synthetic) list" where
  "run_threads d [] = Inr []"
| "run_threads d (t # ts) = bindE (thread_start t d) (\<lambda>x. map_sum id ((#) x) (run_threads d ts))"

text \<open>
  \<open>main\<close> from the construction of the driver to the start of the threads; \<open>l\<close> is the link and \<open>m\<close> the
  memory space it has made, and the last two arguments what the driver's memory held.
\<close>

definition start_program ::
    "'l pcie_ops \<Rightarrow> 'l device \<Rightarrow> ('l \<Rightarrow> fault + 'l) \<Rightarrow> ('l \<Rightarrow> fault + 'l) \<Rightarrow> (u32 \<Rightarrow> 'g) \<Rightarrow> 'r host_config \<Rightarrow>
     'l \<Rightarrow> memory_space \<Rightarrow> u32 \<Rightarrow> u16 \<Rightarrow> fault + ('l, 'r, 'g) program option" where
  "start_program ops dev send_cfg await seed c l m raw_config raw_counter =
     bindE (NVMeDriver (of_nat (length (hc_flows c))) (hc_io_queue_depth c) l m False raw_config raw_counter) (\<lambda>d0.
     bindE (start ops dev send_cfg await d0) (\<lambda>d.
     bindE (create_threads seed c 1 (hc_flows c)) (\<lambda>ts.
       case ts of
         None \<Rightarrow> Inr None
       | Some ts \<Rightarrow> bindE (run_threads d ts) (\<lambda>xs. Inr (Some \<lparr>threads = xs, driver = d\<rparr>)))))"

text \<open>
  The options of the command line after their defaults; group and device have none. The memory of a
  backend: \<open>file\<close> gives size and content of the shared file, \<open>raw\<close> the content of fresh memory;
  \<open>None\<close> is a missing option or an unknown backend.
\<close>

record cmdline =
  opt_backend :: string
  opt_memory :: string
  opt_config :: string
  opt_workload :: string
  opt_group :: "string option"
  opt_device :: "string option"

definition make_memory ::
    "cmdline \<Rightarrow> (string \<Rightarrow> size_t \<times> (nat \<Rightarrow> u8)) \<Rightarrow> (nat \<Rightarrow> u8) \<Rightarrow> fault + memory_space option" where
  "make_memory a file raw =
     (if opt_backend a = ''mcmq''
      then map_sum id Some (case file (opt_memory a) of (len, content) \<Rightarrow> SharedMemorySpace len content)
      else if opt_backend a = ''vfio'' then
        (if opt_group a = None \<or> opt_device a = None then Inr None
         else map_sum id Some (VfioMemorySpace 0x1000 (2 * 1024 * 1024) raw))
      else Inr None)"

text \<open>The virtual functions of the link that \<open>main\<close> itself calls, beside register access.\<close>

record 'l pcie_link = "'l pcie_ops" +
  link_init :: "'l \<Rightarrow> bool \<times> 'l"
  link_map_dma :: "memory_space \<Rightarrow> 'l \<Rightarrow> 'l"
  link_send_config :: "ssd_config \<Rightarrow> 'l \<Rightarrow> fault + 'l"
  link_wait_ready :: "'l \<Rightarrow> fault + 'l"

text \<open>\<open>main\<close> up to the start of the threads; \<open>None\<close> is a return or an exit with failure.\<close>

definition main_setup ::
    "'l pcie_link \<Rightarrow> 'l device \<Rightarrow> (u32 \<Rightarrow> 'g) \<Rightarrow> ('n, 'r) yaml \<Rightarrow> 'r doubles \<Rightarrow> (string \<Rightarrow> size_t \<times> (nat \<Rightarrow> u8)) \<Rightarrow>
     (nat \<Rightarrow> u8) \<Rightarrow> cmdline \<Rightarrow> 'r host_config \<Rightarrow> 'l \<Rightarrow> u32 \<Rightarrow> u16 \<Rightarrow> fault + ('l, 'r, 'g) program option" where
  "main_setup L dev seed y D file raw a c0 l raw_config raw_counter =
     bindE (load_ssd_config y (opt_config a) new_ssd_config) (\<lambda>(ok, ssd).
       if \<not> ok then Inr None
       else
         (case load_host_config y D (opt_workload a) ssd c0 of
            (False, c) \<Rightarrow> Inr None
          | (True, c) \<Rightarrow>
              bindE (make_memory a file raw) (\<lambda>mo.
                case mo of
                  None \<Rightarrow> Inr None
                | Some m \<Rightarrow>
                    (case link_init L l of
                       (False, l1) \<Rightarrow> Inr None
                     | (True, l1) \<Rightarrow>
                         start_program (pcie_ops.truncate L) dev (link_send_config L ssd) (link_wait_ready L) seed c
                           (link_map_dma L m l1) m raw_config raw_counter))))"

text \<open>
  After the join of the threads: what they measured, in their order, the document with it and with
  the result \<open>r\<close> that the device has reported, and the shutdown.
\<close>

definition host_result :: "(u32 \<Rightarrow> size_t \<Rightarrow> 'r) \<Rightarrow> ('l, 'r, 'g) program \<Rightarrow> 'r io_stats list" where
  "host_result rate w = map (\<lambda>(p, t). collect_stats (rate (thread_id t)) t) (threads w)"

definition main_finish ::
    "'l pcie_ops \<Rightarrow> ('j, 'r) json_lib \<Rightarrow> 'r hdr_lib \<Rightarrow> (u32 \<Rightarrow> size_t \<Rightarrow> 'r) \<Rightarrow> 'r sim_result \<Rightarrow> ('l, 'r, 'g) program \<Rightarrow>
     fault + ('j \<times> ('l, completion) nvme_driver)" where
  "main_finish ops J H rate r w =
     bindE (shutdown ops (driver w)) (\<lambda>d. Inr (export_result J H (host_result rate w) r, d))"

section \<open>What it makes\<close>

lemma create_threads_eq:
  assumes "create_threads seed c tid flows = Inr (Some ts)"
  shows "length ts = length flows \<and> (\<forall>i < length flows. \<exists>cap. hc_namespaces c (flow_nsid (flows ! i)) = Some cap \<and>
    create_thread seed (tid + of_nat i) (hc_io_queue_depth c) (hc_sector_size c) cap (flows ! i) = Some (ts ! i))"
  using assms
proof (induction flows arbitrary: tid ts)
  case (Cons flow flows)
  then obtain cap t ts' where head: "hc_namespaces c (flow_nsid flow) = Some cap"
    "create_thread seed tid (hc_io_queue_depth c) (hc_sector_size c) cap flow = Some t"
    and tail: "create_threads seed c (tid + 1) flows = Inr (Some ts')" and ts: "ts = t # ts'"
    by (auto simp: map_sum_Inr_iff eq_commute [of "Some ts"] split: option.splits)
  show ?case
  proof (intro conjI allI impI)
    show "length ts = length (flow # flows)" using Cons.IH [OF tail] ts by simp
    fix i assume i: "i < length (flow # flows)"
    show "\<exists>cap. hc_namespaces c (flow_nsid ((flow # flows) ! i)) = Some cap \<and>
        create_thread seed (tid + of_nat i) (hc_io_queue_depth c) (hc_sector_size c) cap ((flow # flows) ! i) = Some (ts ! i)"
    proof (cases i)
      case 0
      with head ts show ?thesis by simp
    next
      case (Suc j)
      with Cons.IH [OF tail] i ts show ?thesis by (simp add: add.assoc [symmetric])
    qed
  qed
qed simp

lemma create_thread_made: "\<exists>t. create_thread seed tid q s cap flow = Some t"
  by (cases "flow_kind flow") (simp add: create_thread_def)

lemma create_threads_total:
  "create_threads seed c tid flows = Inr None \<longleftrightarrow> (\<exists>flow \<in> set flows. hc_namespaces c (flow_nsid flow) = None)"
  "\<exists>r. create_threads seed c tid flows = Inr r"
proof -
  have "(create_threads seed c tid flows = Inr None \<longleftrightarrow> (\<exists>flow \<in> set flows. hc_namespaces c (flow_nsid flow) = None)) \<and>
      (\<exists>r. create_threads seed c tid flows = Inr r)"
  proof (induction flows arbitrary: tid)
    case (Cons flow flows)
    show ?case
    proof (cases "hc_namespaces c (flow_nsid flow)")
      case (Some cap)
      obtain t where "create_thread seed tid (hc_io_queue_depth c) (hc_sector_size c) cap flow = Some t"
        using create_thread_made by blast
      with Some Cons.IH [of "tid + 1"] show ?thesis by (auto simp: map_sum_Inr_iff)
    qed simp
  qed simp
  then show "create_threads seed c tid flows = Inr None \<longleftrightarrow> (\<exists>flow \<in> set flows. hc_namespaces c (flow_nsid flow) = None)"
    "\<exists>r. create_threads seed c tid flows = Inr r" by simp_all
qed

lemma run_threads_eq:
  assumes "\<forall>t \<in> set ts. unat (thread_id t) < length (queues d)"
  shows "run_threads d ts = Inr (map (\<lambda>t. (Filling 0, t\<lparr>thread_io_queue := Some (unat (thread_id t))\<rparr>)) ts)"
  using assms by (induction ts) (simp_all add: thread_start_def set_thread_id_def)

section \<open>The whole program\<close>

lemma created_thread_fields:
  assumes "create_thread seed tid q sector cap flow = Some t"
  shows "thread_id t = tid" "request_count t = flow_request_count flow" "thread_queue_depth t = q"
    "average_enqueued_requests t = flow_average_enqueued flow" "syn_nsid t = flow_nsid flow" "max_lsa t = cap"
  using assms by (auto simp: create_thread_def new_io_thread_def io_thread.defs split: flow_type.split_asm)

lemma start_program_threads:
  assumes "start_program ops dev send_cfg await seed c l m raw_config raw_counter = Inr r"
    and "length (hc_flows c) < 2 ^ 31"
  shows "case r of
      None \<Rightarrow> \<exists>flow \<in> set (hc_flows c). hc_namespaces c (flow_nsid flow) = None
    | Some w \<Rightarrow> pending (driver w) = {#} \<and> length (queues (driver w)) = length (hc_flows c) + 1 \<and>
        length (threads w) = length (hc_flows c) \<and>
        (\<forall>i < length (hc_flows c). \<exists>cap t. hc_namespaces c (flow_nsid (hc_flows c ! i)) = Some cap \<and>
           create_thread seed (of_nat (i + 1)) (hc_io_queue_depth c) (hc_sector_size c) cap (hc_flows c ! i) = Some t \<and>
           threads w ! i = (Filling 0, t\<lparr>thread_io_queue := Some (i + 1)\<rparr>))"
proof -
  let ?n = "length (hc_flows c)"
  obtain d0 d ts where d0: "NVMeDriver (of_nat ?n) (hc_io_queue_depth c) l m False raw_config raw_counter = Inr d0"
    and d: "start ops dev send_cfg await d0 = Inr d"
    and ts: "create_threads seed c 1 (hc_flows c) = Inr ts"
    and run: "(case ts of None \<Rightarrow> Inr None
       | Some ts \<Rightarrow> bindE (run_threads d ts) (\<lambda>xs. Inr (Some \<lparr>threads = xs, driver = d\<rparr>))) = Inr r"
    using assms(1) unfolding start_program_def bindE_Inr_iff by blast
  have "?n + 1 < 2 ^ LENGTH(32)" using assms(2) by simp
  then have "unat (of_nat (?n + 1) :: u32) = ?n + 1" by (rule unat_of_nat_lt)
  moreover have "of_nat ?n + 1 = (of_nat (?n + 1) :: u32)" by simp
  ultimately have "unat (of_nat ?n + 1 :: u32) = ?n + 1" by (simp only:)
  with new_driver_idle [OF d0] start_idle [OF d]
  have idle: "pending d = {#}" "length (queues d) = ?n + 1" by simp_all
  show ?thesis
  proof (cases ts)
    case None
    with run ts show ?thesis by (simp add: create_threads_total)
  next
    case (Some ts)
    note made = create_threads_eq [OF ts [unfolded Some]]
    have tid: "thread_id (ts ! i) = of_nat (i + 1) \<and> unat (thread_id (ts ! i)) = i + 1" if "i < ?n" for i
    proof -
      have "thread_id (ts ! i) = 1 + of_nat i" using that made created_thread_fields(1) by blast
      moreover have "unat (of_nat (i + 1) :: u32) = i + 1" by (rule unat_of_nat_lt) (use that assms(2) in simp)
      ultimately show ?thesis by simp
    qed
    then have "unat (thread_id t) < length (queues d)" if "t \<in> set ts" for t
      using made idle that unfolding in_set_conv_nth by fastforce
    then have "\<forall>t \<in> set ts. unat (thread_id t) < length (queues d)" by blast
    from run_threads_eq [OF this] run Some
    have w: "r = Some \<lparr>threads = map (\<lambda>t. (Filling 0, t\<lparr>thread_io_queue := Some (unat (thread_id t))\<rparr>)) ts, driver = d\<rparr>"
      by simp
    show ?thesis
    proof (simp add: w idle made, intro allI impI)
      fix i assume i: "i < ?n"
      with made obtain cap where "hc_namespaces c (flow_nsid (hc_flows c ! i)) = Some cap"
        "create_thread seed (1 + of_nat i) (hc_io_queue_depth c) (hc_sector_size c) cap (hc_flows c ! i) = Some (ts ! i)"
        by blast
      with tid [OF i] show "(\<exists>cap. hc_namespaces c (flow_nsid (hc_flows c ! i)) = Some cap \<and>
          (\<exists>t. create_thread seed (1 + of_nat i) (hc_io_queue_depth c) (hc_sector_size c) cap (hc_flows c ! i) = Some t \<and>
             (ts ! i)\<lparr>thread_io_queue := Some (unat (thread_id (ts ! i)))\<rparr> = t\<lparr>thread_io_queue := Some (Suc i)\<rparr>))"
        by auto
    qed
  qed
qed

lemma started_thread:
  assumes "start_program ops dev send_cfg await seed c l m raw_config raw_counter = Inr (Some w)"
    and "length (hc_flows c) < 2 ^ 31" "i < length (hc_flows c)"
  shows "\<exists>t. threads w ! i = (Filling 0, t) \<and> thread_id t = of_nat (i + 1) \<and> unat (thread_id t) = i + 1 \<and>
    thread_io_queue t = Some (i + 1) \<and> syn_nsid t = flow_nsid (hc_flows c ! i) \<and>
    hc_namespaces c (flow_nsid (hc_flows c ! i)) = Some (max_lsa t) \<and>
    request_count t = flow_request_count (hc_flows c ! i) \<and>
    average_enqueued_requests t = flow_average_enqueued (hc_flows c ! i) \<and> fresh_thread (Filling 0, t)"
proof -
  obtain cap t where t: "hc_namespaces c (flow_nsid (hc_flows c ! i)) = Some cap"
    "create_thread seed (of_nat (i + 1)) (hc_io_queue_depth c) (hc_sector_size c) cap (hc_flows c ! i) = Some t"
    "threads w ! i = (Filling 0, t\<lparr>thread_io_queue := Some (i + 1)\<rparr>)"
    using start_program_threads [OF assms(1,2)] assms(3) unfolding option.case by blast
  note f = created_thread_fields [OF t(2)]
  have num: "unat (of_nat (i + 1) :: u32) = i + 1" by (rule unat_of_nat_lt) (use assms(2,3) in simp)
  have "length (queues (driver w)) = length (hc_flows c) + 1"
    using start_program_threads [OF assms(1,2)] unfolding option.case by blast
  then have "thread_start t (driver w) = Inr (Filling 0, t\<lparr>thread_io_queue := Some (i + 1)\<rparr>)"
    using assms(3) f(1) num by (simp add: thread_start_def set_thread_id_def)
  from num created_thread_fresh [OF t(2) this] show ?thesis using t f by simp
qed

lemma start_program_init:
  assumes "start_program ops dev send_cfg await seed c l m raw_config raw_counter = Inr (Some w)"
    and "length (hc_flows c) < 2 ^ 31"
  shows "prog_init w \<and> length (threads w) = length (hc_flows c) \<and> total_work w =
    (\<Sum>flow\<leftarrow>hc_flows c. 3 * max (unat (flow_average_enqueued flow)) (unat (flow_request_count flow)) + 2 +
      unat (flow_average_enqueued flow))"
proof -
  have len: "length (threads w) = length (hc_flows c)" and idle: "pending (driver w) = {#}"
    using start_program_threads [OF assms] by simp_all
  note at = started_thread [OF assms]
  have "unat (thread_id (snd (threads w ! i))) = i + 1" if "i < length (hc_flows c)" for i
    using at [OF that] by auto
  then have "map (\<lambda>x. unat (thread_id (snd x))) (threads w) = [1..<length (hc_flows c) + 1]"
    by (intro nth_equalityI) (simp_all add: len del: upt_Suc)
  then have "distinct (map (\<lambda>x. unat (thread_id (snd x))) (threads w))" by (simp del: upt_Suc)
  then have "distinct (map (\<lambda>x. thread_id (snd x)) (threads w))"
    by (auto simp: distinct_map inj_on_def)
  moreover have "fresh_thread x" if x: "x \<in> set (threads w)" for x
  proof -
    obtain i where i: "i < length (hc_flows c)" "x = threads w ! i"
      using x len by (metis in_set_conv_nth)
    with at [OF i(1)] show ?thesis by force
  qed
  ultimately have init: "prog_init w" using idle by (simp add: prog_init_def)
  have "work (fst (threads w ! i)) (snd (threads w ! i)) =
      3 * max (unat (flow_average_enqueued (hc_flows c ! i))) (unat (flow_request_count (hc_flows c ! i))) + 2 +
      unat (flow_average_enqueued (hc_flows c ! i))" if i: "i < length (hc_flows c)" for i
  proof -
    obtain t where t: "threads w ! i = (Filling 0, t)" "fresh_thread (Filling 0, t)"
      "request_count t = flow_request_count (hc_flows c ! i)"
      "average_enqueued_requests t = flow_average_enqueued (hc_flows c ! i)"
      using at [OF i] by blast
    from fresh_thread_inv(3) [OF t(2) idle] t show ?thesis by (simp add: total_requests_def)
  qed
  then have "map (\<lambda>x. work (fst x) (snd x)) (threads w) =
      map (\<lambda>flow. 3 * max (unat (flow_average_enqueued flow)) (unat (flow_request_count flow)) + 2 +
        unat (flow_average_enqueued flow)) (hc_flows c)"
    by (intro nth_equalityI) (simp_all add: len)
  with init len show ?thesis by (simp add: total_work_def)
qed

text \<open>What holds in every run of the program that has started.\<close>

lemma run_bounds:
  assumes "start_program ops dev send_cfg await seed c l m raw_config raw_counter = Inr (Some w0)"
    and "length (hc_flows c) < 2 ^ 31" "prog_run ops clk F R w0 n w"
  shows "n \<le> (\<Sum>flow\<leftarrow>hc_flows c. 3 * max (unat (flow_average_enqueued flow)) (unat (flow_request_count flow)) + 2 +
      unat (flow_average_enqueued flow)) \<and>
    (running w \<longrightarrow> (\<forall>st \<in> set (host_result rate w).
       st_request_count st = st_read_request_count st + st_write_request_count st)) \<and>
    (\<forall>t. (Finished, t) \<in> set (threads w) \<longrightarrow> request_count t \<le> nr_completed_requests t)"
proof (intro conjI allI impI ballI)
  have init: "prog_init w0" and "total_work w0 = (\<Sum>flow\<leftarrow>hc_flows c. 3 * max (unat (flow_average_enqueued flow))
      (unat (flow_request_count flow)) + 2 + unat (flow_average_enqueued flow))"
    using start_program_init [OF assms(1,2)] by simp_all
  then show "n \<le> (\<Sum>flow\<leftarrow>hc_flows c. 3 * max (unat (flow_average_enqueued flow)) (unat (flow_request_count flow)) + 2 +
      unat (flow_average_enqueued flow))"
    using prog_run_inv [OF assms(3) init] by linarith
  fix st assume "running w" and st: "st \<in> set (host_result rate w)"
  then obtain p t where pt: "(p, t) \<in> set (threads w)" "st = collect_stats (rate (thread_id t)) t"
    by (auto simp: host_result_def)
  with \<open>running w\<close> have "\<not> failed p" by (auto simp: running_def failed_def split: io_pc.splits)
  from prog_run_thread [OF assms(3) init pt(1) this] have "thread_inv p t (driver w)" .
  then show "st_request_count st = st_read_request_count st + st_write_request_count st"
    using pt(2) by (simp add: thread_inv_def counts_def collect_stats_def)
next
  fix t assume "(Finished, t) \<in> set (threads w)"
  with prog_run_thread [OF assms(3) _ this] start_program_init [OF assms(1,2)]
  show "request_count t \<le> nr_completed_requests t" by (simp add: thread_inv_def)
qed

section \<open>Properties\<close>

lemma main_setup_cases:
  assumes "main_setup L dev seed y D file raw a c0 l raw_config raw_counter = Inr r"
  obtains (no_ssd) ssd where "load_ssd_config y (opt_config a) new_ssd_config = Inr (False, ssd)" "r = None"
  | (no_workload) ssd c where "load_ssd_config y (opt_config a) new_ssd_config = Inr (True, ssd)"
      "load_host_config y D (opt_workload a) ssd c0 = (False, c)" "r = None"
  | (no_memory) ssd c where "load_ssd_config y (opt_config a) new_ssd_config = Inr (True, ssd)"
      "load_host_config y D (opt_workload a) ssd c0 = (True, c)" "make_memory a file raw = Inr None" "r = None"
  | (no_link) ssd c m where "load_ssd_config y (opt_config a) new_ssd_config = Inr (True, ssd)"
      "load_host_config y D (opt_workload a) ssd c0 = (True, c)" "make_memory a file raw = Inr (Some m)"
      "\<not> fst (link_init L l)" "r = None"
  | (program) ssd c m where "load_ssd_config y (opt_config a) new_ssd_config = Inr (True, ssd)"
      "load_host_config y D (opt_workload a) ssd c0 = (True, c)" "make_memory a file raw = Inr (Some m)"
      "fst (link_init L l)"
      "start_program (pcie_ops.truncate L) dev (link_send_config L ssd) (link_wait_ready L) seed c
         (link_map_dma L m (snd (link_init L l))) m raw_config raw_counter = Inr r"
proof -
  obtain ok ssd where ssd: "load_ssd_config y (opt_config a) new_ssd_config = Inr (ok, ssd)"
    using assms by (auto simp: main_setup_def bindE_Inr_iff)
  obtain ok2 c where c: "load_host_config y D (opt_workload a) ssd c0 = (ok2, c)" by fastforce
  obtain ok3 l1 where l1: "link_init L l = (ok3, l1)" by fastforce
  show thesis
  proof (cases "ok \<and> ok2")
    case False
    then show ?thesis using assms ssd c no_ssd no_workload by (cases ok; cases ok2) (simp_all add: main_setup_def)
  next
    case True
    then obtain mo where mo: "make_memory a file raw = Inr mo"
      using assms ssd c by (auto simp: main_setup_def bindE_Inr_iff)
    show ?thesis
    proof (cases mo)
      case None
      with True assms ssd c mo no_memory show ?thesis by (simp add: main_setup_def)
    next
      case (Some m)
      with True assms ssd c mo l1 no_link program show ?thesis by (cases ok3) (simp_all add: main_setup_def)
    qed
  qed
qed


end
