(* ===== verification/IoSample.thy ===== *)
theory IoSample
  imports IoRuns MemoryContracts
begin

text \<open>
  A concrete program for the properties of theory IoRuns: one thread with two requests of a page each
  to issue, one at a time, on a link that accepts every write. The run that is followed submits the
  first request and goes to sleep.
\<close>

section \<open>A submission that succeeds\<close>

lemma setup_async_same:
  "\<exists>d1. setup_async_command cb d = (command_id_counter d, d1) \<and> queues d1 = queues d \<and> mem d1 = mem d \<and>
     link d1 = link d \<and> ctrl_page_size d1 = ctrl_page_size d"
  by (simp add: setup_async_command_def Let_def)

lemma submit_rw_ok:
  assumes "qi < length (queues d)" "sq_ready dep k (queues d ! qi) (mem d)" "ctrl_page_size d = 0x1000"
    and "0 < unat sz" "unat buf + unat sz \<le> 2 ^ 32" "pages_spanned buf sz \<le> 2"
    and "\<And>a v l. \<exists>l'. writel ops a v l = Inr l'"
  shows "\<exists>cid d'. submit_rw_command ops (Some qi) w nsid pos buf sz cb d = Inr (cid, d')"
proof -
  obtain d1 where d1: "setup_async_command cb d = (command_id_counter d, d1)" "queues d1 = queues d"
    "mem d1 = mem d" "link d1 = link d" "ctrl_page_size d1 = ctrl_page_size d"
    using setup_async_same by blast
  let ?cmd = "put_member nvme_command [''common'', ''command_id''] (ucast (command_id_counter d)) (rw_command w nsid pos sz)"
  have len: "length ?cmd = 64" by (simp add: rw_command_def zero_command_def)
  obtain cmd' where cmd': "setup_buffer (command_id_counter d) ?cmd buf sz d1 = Inr (cmd', d1)" "length cmd' = 64"
    using setup_buffer_short [of ?cmd d1 sz buf "command_id_counter d"] len d1 assms(3-6) by metis
  obtain l' where "writel ops (ucast (q_db (queues d1 ! qi))) (of_nat (next_index dep k)) (link d1) = Inr l'"
    using assms(7) by blast
  from submit_sq_effect [of qi d1 dep k cmd' ops l', OF _ _ cmd'(2) this] assms(1,2) d1
  obtain d3 where "submit_sq_command ops qi cmd' True d1 = Inr d3" by auto
  moreover have "sz \<noteq> 0" using assms(4) by auto
  ultimately show ?thesis
    using cmd'(1) d1(1) by (simp add: submit_rw_command_def submit_async_command_def Let_def)
qed

section \<open>The sample\<close>

definition unit_floats :: "unit floats" where
  "unit_floats = \<lparr>f_add = (\<lambda>x y. ()), f_sub = (\<lambda>x y. ()), f_mul = (\<lambda>x y. ()), f_div = (\<lambda>x y. ()),
     f_neg = (\<lambda>x. ()), f_abs = (\<lambda>x. ()), f_greater = (\<lambda>x y. False), f_ge = (\<lambda>x y. True), f_max = (\<lambda>x y. ()),
     f_exp = (\<lambda>x. ()), f_log = (\<lambda>x. ()), f_expm1 = (\<lambda>x. ()), f_log1p = (\<lambda>x. ()), f_round = (\<lambda>x. ()),
     f_of_u64 = (\<lambda>n. ()), f_to_u64 = (\<lambda>x. 5), f_half = (), f_epsilon = ()\<rparr>"

text \<open>An engine that counts, and distributions that read it.\<close>

definition sample_random :: "(unit, nat) random_lib" where
  "sample_random = \<lparr>bernoulli = (\<lambda>p g. (True, g)), rounded_normal = (\<lambda>m v g. (m, g)),
     uniform_upto = (\<lambda>hi g. (min hi (of_nat g), Suc g)), uniform_real = (\<lambda>a b g. ((), Suc g))\<rparr>"

definition sample_flow :: "u32 \<Rightarrow> unit flow_definition" where
  "sample_flow avg = \<lparr>flow_name = [], flow_kind = SYNTHETIC, flow_nsid = 1, flow_seed = 0, flow_request_count = 2,
     flow_read_ratio = (), flow_size_distribution = CONSTANT, flow_size_mean = 8, flow_size_variance = 0,
     flow_address_distribution = UNIFORM, flow_zipfian_alpha = (), flow_address_alignment = 8,
     flow_average_enqueued = avg\<rparr>"

definition sample_thread :: "u32 \<Rightarrow> (unit, nat) synthetic" where
  "sample_thread avg = (the (create_thread (\<lambda>s. unat s) 1 4 512 0x1000 (sample_flow avg)))\<lparr>thread_io_queue := Some 0\<rparr>"

definition io_queue0 :: nvme_queue where
  "io_queue0 = new_queue\<lparr>sq_dma_addr := 0, cq_dma_addr := 0x200, depth := 4, sqe_shift := 6, cq_phase := 1,
     q_db := 0x1008\<rparr>"

definition sample_program :: "memory_space \<Rightarrow> u32 \<Rightarrow> (unit, unit, nat) program" where
  "sample_program m avg = \<lparr>threads = [(Filling 0, sample_thread avg)], driver = \<lparr>link = (), mem = m, ncpus = 1,
     queues = [io_queue0], queue_count = 1, online_queues = 1, command_id_counter = 0, command_map = (\<lambda>i. None),
     ctrl_cap = 0, ctrl_config = 0, ctrl_page_size = 0x1000, queue_depth = 4, io_queue_depth = 4, db_stride = 1,
     dbbuf_dbs = 0, called = []\<rparr>\<rparr>"

lemma sample_thread_eq:
  "sample_thread avg = io_thread.extend ((new_io_thread 1 4 2)\<lparr>thread_io_queue := Some 0\<rparr>)
     \<lparr>syn_nsid = 1, sector_size = 512, max_lsa = 0x1000, read_ratio = (), generator = 0,
      size_distribution = CONSTANT, size_mean = 8, size_variance = 0, addr_distribution = UNIFORM,
      zipfian_alpha = (), addr_alignment = 8, average_enqueued_requests = avg\<rparr>"
  by (simp add: sample_thread_def create_thread_def sample_flow_def new_io_thread_def io_thread.defs)

lemma sample_thread_fields [simp]:
  "average_enqueued_requests (sample_thread avg) = avg" "request_count (sample_thread avg) = 2"
  "thread_queue_depth (sample_thread avg) = 4" "thread_id (sample_thread avg) = 1"
  "completed_requests (sample_thread avg) = []" "nr_completed_requests (sample_thread avg) = 0"
  "inflight_requests (sample_thread avg) = 0" "nr_submitted_requests (sample_thread avg) = 0"
  "clock_readings (sample_thread avg) = 0" "syn_nsid (sample_thread avg) = 1" "thread_io_queue (sample_thread avg) = Some 0"
  by (simp_all add: sample_thread_eq new_io_thread_def io_thread.defs)

lemma sample_init: "prog_init (sample_program m avg)"
proof -
  have "callback_of (driver (sample_program m avg)) x = None" for x
    by (simp add: sample_program_def callback_of_def)
  then have "pending (driver (sample_program m avg)) = {#}" by (simp add: pending_def pend_none)
  then show ?thesis
    by (simp add: prog_init_def sample_program_def fresh_thread_def sample_thread_eq new_io_thread_def io_thread.defs)
qed

lemma sample_request:
  "generate_request unit_floats sample_random (sample_thread avg) =
     Inr ((False, 0, 0x1000), (sample_thread avg)\<lparr>generator := 1\<rparr>)"
  by (simp add: generate_request_def sample_random_def sample_thread_eq request_sectors_def request_position_def
      new_io_thread_def io_thread.defs)

lemma sample_first_submission:
  assumes "SharedMemorySpace 0x8000 (\<lambda>i. 0) = Inr m" "0 < avg"
  shows "\<exists>t' d'. issue_request quiet_ops clk unit_floats sample_random
      (sample_thread avg, driver (sample_program m avg)) = Inr (t', d') \<and> ids_free d' \<and>
    t' = (sample_thread avg)\<lparr>generator := 1, nr_submitted_requests := 1, inflight_requests := 1, clock_readings := 2\<rparr>"
proof -
  let ?t = "(sample_thread avg)\<lparr>generator := 1\<rparr>" and ?d = "driver (sample_program m avg)"
  obtain s where s: "SharedMemorySpace 0x8000 (\<lambda>i. 0) = Inr s" "ms_ok s" "free_list s = [(0x1000, 0x7000)]"
    "iova_base s = 0" "map_size s = 0x8000"
    using SharedMemorySpace_ok [of "0x8000" "\<lambda>i. 0"] by auto
  have m: "ms_ok m" "free_list m = [(0x1000, 0x7000)]" "mapped m = {0..<0x8000}"
    using s assms(1) by (auto simp: mapped_def)
  obtain m1 where m1: "allocate_pages 0x1000 m = Inr (0x1000, m1)" "same_mem m m1"
    using allocate_refines_raw [OF m(1), of "0x1000" "0x1000"] m(2)
    by (auto simp: pad_def allocate_pages_def roundup_def)
  have d: "queues ?d = [io_queue0]" "ctrl_page_size ?d = 0x1000" "mem ?d = m" "callback_of ?d = (\<lambda>c. None)"
    "command_id_counter ?d = 0"
    by (simp_all add: sample_program_def callback_of_def fun_eq_iff)
  have map1: "mapped m1 = {0..<0x8000}" using load_same_mem [OF m1(2)] m(3) by simp
  have "sq_ready 4 0 io_queue0 m1"
    by (auto simp: sq_ready_def io_queue0_def new_queue_def ring_mapped_def map1 block_def)
  then have ready: "sq_ready 4 0 (queues (?d\<lparr>mem := m1\<rparr>) ! 0) (mem (?d\<lparr>mem := m1\<rparr>))" by (simp add: d)
  let ?req = "\<lparr>rq_do_write = False, rq_nsid = 1, rq_pos = 0, rq_buf = 0x1000, rq_size = 0x1000,
    arrival_time = clk 0, enqueued_time = 0\<rparr>"
  let ?t1 = "?t\<lparr>nr_submitted_requests := 1, clock_readings := 1\<rparr>"
  have w: "\<exists>l'. writel quiet_ops a v l = Inr l'" for a v l by (simp add: quiet_ops_def writel_def)
  have "pages_spanned 0x1000 0x1000 = 1" by (simp add: pages_spanned_def)
  then obtain cid d' where "submit_rw_command quiet_ops (Some 0) False 1 0 0x1000 0x1000
      (Some (1, ?req\<lparr>enqueued_time := clk 1\<rparr>)) (?d\<lparr>mem := m1\<rparr>) = Inr (cid, d')"
    using submit_rw_ok [OF _ ready, of "0x1000" "0x1000" quiet_ops False 1 0] d w by fastforce
  then have sub: "submit_to_device quiet_ops clk ?req (?t1, ?d\<lparr>mem := m1\<rparr>) =
      Inr (?t1\<lparr>inflight_requests := 1, clock_readings := 2\<rparr>, d')"
    by (simp add: submit_to_device_def now_def read_async_def numeral_2_eq_2)
  have "id_free (?d\<lparr>mem := m1\<rparr>)" by (simp add: id_free_def d)
  from submit_to_device_effect(2) [OF sub this] have free: "ids_free d'"
    by (auto simp: one_more_def ids_free_def d)
  have "issue_request quiet_ops clk unit_floats sample_random (sample_thread avg, ?d) =
      Inr (?t1\<lparr>inflight_requests := 1, clock_readings := 2\<rparr>, d')"
    using sub m1(1) d(3)
    by (simp add: issue_request_def sample_request submit_io_request_def now_def Let_def)
  with free show ?thesis by (intro exI conjI) (assumption+, simp)
qed

lemma sample_run:
  assumes "SharedMemorySpace 0x8000 (\<lambda>i. 0) = Inr m"
  obtains w t where "prog_run quiet_ops clk unit_floats sample_random (sample_program m 1) 2 w"
    "threads w = [(Waiting, t)]" "thread_step quiet_ops clk unit_floats sample_random (Waiting, t, driver w) = None"
    "average_enqueued_requests t = 1" "thread_queue_depth t = 4" "thread_id t = 1" "inflight_requests t = 1"
proof -
  let ?w0 = "sample_program m 1"
  obtain t d where first: "issue_request quiet_ops clk unit_floats sample_random (sample_thread 1, driver ?w0) = Inr (t, d)"
    and free: "ids_free d"
    and t: "t = (sample_thread 1)\<lparr>generator := 1, nr_submitted_requests := 1, inflight_requests := 1, clock_readings := 2\<rparr>"
    using sample_first_submission [OF assms, of 1 clk] by auto
  have t_at: "average_enqueued_requests t = 1" "thread_queue_depth t = 4" "thread_id t = 1" "inflight_requests t = 1"
    "nr_completed_requests t = 0" "request_count t = 2" "completed_requests t = []"
    by (simp_all add: t)
  have w0: "threads ?w0 = [(Filling 0, sample_thread 1)]" "running ?w0" "ids_free (driver ?w0)"
    by (simp_all add: sample_program_def running_def ids_free_def callback_of_def)
  define w1 where "w1 = ?w0\<lparr>threads := [(Filling 1, t)], driver := d\<rparr>"
  define w2 where "w2 = w1\<lparr>threads := [(Waiting, t)], driver := d\<rparr>"
  have "prog_step quiet_ops clk unit_floats sample_random ?w0 (Some 0) w1"
    using prog_step.a_thread [OF w0(2), of 0 "Filling 0" "sample_thread 1" quiet_ops clk unit_floats sample_random
        "Filling 1" t d] w0 first by (simp add: thread_step_def w1_def)
  from prog_run.step [OF prog_run.start this]
  have r1: "prog_run quiet_ops clk unit_floats sample_random ?w0 1 w1" by simp
  have "prog_step quiet_ops clk unit_floats sample_random w1 (Some 0) w2"
    using prog_step.a_thread [of w1 0 "Filling 1" t quiet_ops clk unit_floats sample_random Waiting t d] free t_at
    by (simp add: thread_step_def w2_def w1_def running_def)
  from prog_run.step [OF r1 this]
  have "prog_run quiet_ops clk unit_floats sample_random ?w0 2 w2" by (simp add: numeral_2_eq_2)
  moreover have "thread_step quiet_ops clk unit_floats sample_random (Waiting, t, driver w2) = None"
    using t_at by (simp add: thread_step_def)
  ultimately show thesis using that [of w2 t] t_at by (simp add: w2_def)
qed

lemma sample_memory: obtains m where "SharedMemorySpace 0x8000 (\<lambda>i. 0) = Inr m"
  using SharedMemorySpace_ok [of "0x8000" "\<lambda>i. 0"] by auto

section \<open>Witnesses\<close>


theorem threads_terminate_witness:
  "\<exists>m w. prog_run quiet_ops (\<lambda>i. 0) unit_floats sample_random (sample_program m 1) 2 w \<and> (2 :: nat) \<le> 9"
proof -
  obtain m where m: "SharedMemorySpace 0x8000 (\<lambda>i. 0) = Inr m" by (rule sample_memory)
  obtain w t where w: "prog_run quiet_ops (\<lambda>i. 0) unit_floats sample_random (sample_program m 1) 2 w"
    by (rule sample_run [OF m, of "\<lambda>i. 0"])
  from threads_terminate [OF w sample_init] have "(2 :: nat) \<le> 9" by (simp add: sample_program_def)
  with w show ?thesis by blast
qed


theorem zero_enqueued_never_finishes_witness:
  "\<exists>w. prog_run quiet_ops (\<lambda>i. 0) unit_floats sample_random (sample_program (MemorySpace 0 0x8000 (\<lambda>i. 0)) 0) 1 w \<and>
     owned 1 (driver w) = {#} \<and> threads w = [(Waiting, sample_thread 0)]"
proof -
  let ?w0 = "sample_program (MemorySpace 0 0x8000 (\<lambda>i. 0)) 0"
  let ?w1 = "?w0\<lparr>threads := [(Waiting, sample_thread 0)], driver := driver ?w0\<rparr>"
  have w0: "threads ?w0 = [(Filling 0, sample_thread 0)]" "running ?w0" "ids_free (driver ?w0)"
    by (simp_all add: sample_program_def running_def ids_free_def callback_of_def)
  have "prog_step quiet_ops (\<lambda>i. 0) unit_floats sample_random ?w0 (Some 0) ?w1"
    using prog_step.a_thread [OF w0(2), of 0 "Filling 0" "sample_thread 0" quiet_ops "\<lambda>i. 0" unit_floats sample_random
        Waiting "sample_thread 0" "driver ?w0"] w0 by (simp add: thread_step_def)
  from prog_run.step [OF prog_run.start this]
  have run: "prog_run quiet_ops (\<lambda>i. 0) unit_floats sample_random ?w0 1 ?w1" by simp
  from zero_enqueued_never_finishes [OF run sample_init, of 0] have "owned 1 (driver ?w1) = {#}" by (simp add: w0)
  with run show ?thesis by (intro exI [of _ ?w1]) simp
qed

theorem generated_request_bounds_witness:
  "\<exists>t' sector n. generate_request unit_floats sample_random (sample_thread 1) = Inr ((False, 0, 0x1000), t') \<and>
     unat (0 :: u64) = sector * 512 \<and> sector < 0x1000 \<and> unat (0x1000 :: size_t) = n * 512 \<and> 1 \<le> n"
  using generated_request_bounds [OF sample_request, of 1] sample_request [of 1]
  by (auto simp: sample_thread_eq new_io_thread_def io_thread.defs sample_random_def)

end
