(* ===== verification/NvmeQueues.thy ===== *)
theory NvmeQueues
  imports NvmeStart
begin

text \<open>
  The queues of the driver as a type with an invariant: every index stays inside its ring, whatever
  the device does. The invariant is established by the start of the driver and kept by every
  operation; queues that the device did not grant are never set up and have depth zero.
\<close>

section \<open>Well-formed rings\<close>

definition ring_ok :: "nvme_queue \<Rightarrow> bool" where
  "ring_ok q \<longleftrightarrow> 0 < unat (depth q) \<and> unat (depth q) \<le> 65536 \<and> sqe_shift q = 6 \<and>
     unat (sq_tail q) < unat (depth q) \<and> unat (last_sq_tail q) < unat (depth q) \<and>
     unat (cq_head q) < unat (depth q) \<and> cq_phase q \<le> 1"

text \<open>
  An operation keeps the rings: their number and depths, what is well-formed, and those without depth
  as they are, except for the indices in \<open>S\<close>.
\<close>

definition keeps_rings :: "nat set \<Rightarrow> ('l, 'cb) nvme_driver \<Rightarrow> ('l, 'cb) nvme_driver \<Rightarrow> bool" where
  "keeps_rings S d d' \<longleftrightarrow> length (queues d') = length (queues d) \<and> queue_count d' = queue_count d \<and> queue_depth d' = queue_depth d \<and>
     (\<forall>i < length (queues d). depth (queues d' ! i) = depth (queues d ! i) \<and>
       (ring_ok (queues d ! i) \<longrightarrow> ring_ok (queues d' ! i)) \<and>
       (depth (queues d ! i) = 0 \<and> i \<notin> S \<longrightarrow> queues d' ! i = queues d ! i))"

named_theorems rings \<open>operations that keep the rings\<close>

lemma keeps_rings_refl [simp]: "keeps_rings S d d"
  by (simp add: keeps_rings_def)

lemma keeps_rings_trans: "keeps_rings S d d' \<Longrightarrow> keeps_rings S d' d'' \<Longrightarrow> keeps_rings S d d''"
  by (auto simp: keeps_rings_def)

lemma keeps_rings_mono: "keeps_rings S d d' \<Longrightarrow> S \<subseteq> T \<Longrightarrow> keeps_rings T d d'"
  by (auto simp: keeps_rings_def)

lemma keeps_rings_upd [simp]:
  "keeps_rings S d (d'\<lparr>mem := m\<rparr>) = keeps_rings S d d'" "keeps_rings S d (d'\<lparr>link := l\<rparr>) = keeps_rings S d d'"
  "keeps_rings S d (d'\<lparr>online_queues := n\<rparr>) = keeps_rings S d d'"
  "keeps_rings S d (d'\<lparr>ctrl_config := c\<rparr>) = keeps_rings S d d'"
  "keeps_rings S (d\<lparr>mem := m\<rparr>) d' = keeps_rings S d d'" "keeps_rings S (d\<lparr>link := l\<rparr>) d' = keeps_rings S d d'"
  "keeps_rings S (d\<lparr>ctrl_config := c\<rparr>) d' = keeps_rings S d d'" "keeps_rings S (d\<lparr>ctrl_cap := cap\<rparr>) d' = keeps_rings S d d'"
  "keeps_rings S (d\<lparr>ctrl_page_size := p\<rparr>) d' = keeps_rings S d d'"
  "keeps_rings S (d\<lparr>command_map := f\<rparr>) d' = keeps_rings S d d'"
  "keeps_rings S (d\<lparr>command_id_counter := i\<rparr>) d' = keeps_rings S d d'"
  "keeps_rings S d (d'\<lparr>command_map := f\<rparr>) = keeps_rings S d d'"
  "keeps_rings S (d\<lparr>called := cs\<rparr>) d' = keeps_rings S d d'"
  by (simp_all add: keeps_rings_def)

lemma keeps_rings_same: "queues d' = queues d \<Longrightarrow> queue_count d' = queue_count d \<Longrightarrow> queue_depth d' = queue_depth d \<Longrightarrow> keeps_rings S d d'"
  by (simp add: keeps_rings_def)

lemma keeps_rings_set:
  assumes "keeps_rings S d d'" "depth q = depth (queues d' ! i)" "ring_ok (queues d' ! i) \<Longrightarrow> ring_ok q"
    and "depth (queues d' ! i) = 0 \<Longrightarrow> i \<in> S"
  shows "keeps_rings S d (set_queue i q d')"
  unfolding keeps_rings_def
proof (intro conjI allI impI)
  fix j assume j: "j < length (queues d)"
  then have j': "j < length (queues d')" using assms(1) by (simp add: keeps_rings_def)
  have at: "queues (set_queue i q d') ! j = (if j = i then q else queues d' ! j)"
    using j' by (cases "j = i") (simp_all add: set_queue_def)
  show "depth (queues (set_queue i q d') ! j) = depth (queues d ! j)"
    "ring_ok (queues d ! j) \<Longrightarrow> ring_ok (queues (set_queue i q d') ! j)"
    using assms(1-3) j by (auto simp: keeps_rings_def at)
  show "queues (set_queue i q d') ! j = queues d ! j" if "depth (queues d ! j) = 0 \<and> j \<notin> S"
    using assms(1,4) j that by (auto simp: keeps_rings_def at)
qed (use assms(1) in \<open>simp_all add: keeps_rings_def set_queue_def\<close>)

lemma keeps_rings_put:
  "queues d1 = queues d \<and> queue_count d1 = queue_count d \<and> queue_depth d1 = queue_depth d \<Longrightarrow> depth q = depth (queues d ! i) \<Longrightarrow>
    (ring_ok (queues d ! i) \<Longrightarrow> ring_ok q) \<Longrightarrow> keeps_rings {i} d (set_queue i q d1)"
  by (rule keeps_rings_set) (simp_all add: keeps_rings_same)

section \<open>The operations keep the rings\<close>

lemma rings_put_mem [rings]: "put_mem a bs d = Inr d' \<Longrightarrow> keeps_rings S d d'"
  by (auto simp: put_mem_def bindE_Inr_iff)

lemma rings_put_reg [rings]: "put_reg ops a v d = Inr d' \<Longrightarrow> keeps_rings S d d'"
  by (auto simp: put_reg_def bindE_Inr_iff)

lemma rings_new_prp_list [rings]: "new_prp_list cid d = Inr (prp, d') \<Longrightarrow> keeps_rings S d d'"
  by (auto simp: new_prp_list_def bindE_Inr_iff push_prp_list_def keeps_rings_same split: option.splits)

lemma rings_chain_prp_list [rings]: "chain_prp_list cid old i d = Inr (prp, d') \<Longrightarrow> keeps_rings S d d'"
  unfolding chain_prp_list_def by (auto simp: bindE_Inr_iff dest!: rings intro: keeps_rings_trans)

lemma rings_prp_loop [rings]:
  assumes "prp_loop cid prp i buf buflen d = Some (Inr d')"
  shows "keeps_rings S d d'"
proof -
  have "case r of Inl e \<Rightarrow> True | Inr d' \<Rightarrow> keeps_rings S d d'"
    if "prp_loop cid prp i buf buflen d = Some r" for r
  proof (rule prp_loop.raw_induct [OF _ that], goal_cases)
    case (1 loop cid prp i buf buflen d r)
    then show ?case
      by (fastforce split: sum.splits if_splits intro: keeps_rings_trans dest: rings_chain_prp_list rings_put_mem)
  qed
  from this [OF assms] show ?thesis by simp
qed

lemma rings_setup_buffer [rings]: "setup_buffer cid cmd buf buflen d = Inr (cmd', d') \<Longrightarrow> keeps_rings S d d'"
  unfolding setup_buffer_def Let_def
  by (auto simp: bindE_Inr_iff split: if_splits option.splits dest!: rings intro: keeps_rings_trans)

lemma unat_next:
  assumes "unat (x :: u16) < unat (n :: u32)" "unat n \<le> 65536"
  shows "unat (if (ucast (x + 1) :: u32) = n then 0 else x + 1) < unat n"
proof (cases "unat x + 1 < 2 ^ 16")
  case True
  then have "unat (x + 1) = unat x + 1" by (simp add: unat_word_ariths)
  moreover have "(ucast (x + 1) :: u32) = n \<longleftrightarrow> unat (x + 1) = unat n"
    by (simp add: word_unat_eq_iff unat_ucast_up)
  ultimately show ?thesis using assms by auto
next
  case False
  have "unat x < 65536" by (rule order_less_le_trans [OF unat_lt_exp]) simp
  then have "unat x + 1 = 65536" using False [simplified] by linarith
  then have "x + 1 = 0" by (simp add: unat_word_ariths word_unat_eq_iff)
  then show ?thesis using assms by auto
qed

lemma ring_ok_tail:
  assumes "ring_ok q"
  shows "ring_ok (q\<lparr>sq_tail := (if (ucast (sq_tail q + 1) :: u32) = depth q then 0 else sq_tail q + 1)\<rparr>)"
    "ring_ok (q\<lparr>last_sq_tail := sq_tail q\<rparr>)"
  using assms unat_next [of "sq_tail q" "depth q"] by (simp_all add: ring_ok_def)

lemma phase_flip: "p \<le> 1 \<Longrightarrow> p XOR 1 \<le> 1" for p :: u8
proof -
  assume "p \<le> 1"
  then have "p = 0 \<or> p = 1" by (metis word_le_less_eq word_less_1)
  then show ?thesis by auto
qed

lemma ring_ok_head: "ring_ok q \<Longrightarrow> ring_ok (update_cq_head q)" "depth (update_cq_head q) = depth q"
  using unat_next [of "cq_head q" "depth q"]
  by (auto simp: ring_ok_def update_cq_head_def Let_def phase_flip split: if_splits)

lemma put_queues:
  "put_mem a bs d = Inr d' \<Longrightarrow> queues d' = queues d \<and> queue_count d' = queue_count d \<and> queue_depth d' = queue_depth d"
  "put_reg ops r v d = Inr d' \<Longrightarrow> queues d' = queues d \<and> queue_count d' = queue_count d \<and> queue_depth d' = queue_depth d"
  by (auto simp: put_mem_def put_reg_def bindE_Inr_iff)

lemma rings_write_sq_doorbell [rings]: "write_sq_doorbell ops qi w d = Inr d' \<Longrightarrow> keeps_rings {qi} d d'"
  unfolding write_sq_doorbell_def Let_def
  by (auto simp: bindE_Inr_iff get_queue_def ring_ok_tail split: if_splits dest!: put_queues
      intro!: keeps_rings_put)

lemma rings_submit_sq_command [rings]:
  assumes "submit_sq_command ops qi cmd w d = Inr d'"
  shows "keeps_rings {qi} d d'"
proof -
  let ?q = "queues d ! qi"
  obtain d1 where d1: "queues d1 = queues d \<and> queue_count d1 = queue_count d \<and> queue_depth d1 = queue_depth d"
    "write_sq_doorbell ops qi w (set_queue qi
       (?q\<lparr>sq_tail := (if (ucast (sq_tail ?q + 1) :: u32) = depth ?q then 0 else sq_tail ?q + 1)\<rparr>) d1) = Inr d'"
    using assms unfolding submit_sq_command_def Let_def
    by (auto simp: bindE_Inr_iff get_queue_def split: if_splits dest!: put_queues)
  have "keeps_rings {qi} d (set_queue qi
       (?q\<lparr>sq_tail := (if (ucast (sq_tail ?q + 1) :: u32) = depth ?q then 0 else sq_tail ?q + 1)\<rparr>) d1)"
    using d1(1) by (intro keeps_rings_put) (simp_all add: ring_ok_tail del: if_split)
  then show ?thesis using rings_write_sq_doorbell [OF d1(2)] by (rule keeps_rings_trans)
qed

lemma rings_submit_async_command [rings]:
  "submit_async_command ops qi cmd buf buflen cb d = Inr (cid, d') \<Longrightarrow> keeps_rings {qi} d d'"
  unfolding submit_async_command_def setup_async_command_def Let_def
  by (auto simp: bindE_Inr_iff split: if_splits dest!: rings intro: keeps_rings_trans)

lemma rings_submit_rw_command [rings]:
  "submit_rw_command ops (Some qi) w nsid pos buf sz cb d = Inr (cid, d') \<Longrightarrow> keeps_rings {qi} d d'"
  by (auto simp: submit_rw_command_def dest!: rings)

lemma rings_remove_async_command [rings]: "remove_async_command cid d = Inr d' \<Longrightarrow> keeps_rings S d d'"
  by (auto simp: remove_async_command_def bindE_Inr_iff split: option.splits)

lemma rings_handle_cqe [rings]:
  assumes "handle_cqe qi idx d = Inr d'"
  shows "keeps_rings S d d'"
  using assms by (rule handle_cqe_cases) (auto dest: rings_remove_async_command [where S = S])

text \<open>An entry is only looked for in a queue that has been set up.\<close>

lemma cqe_pending_depth: "cqe_pending qi d = Inr b \<Longrightarrow> depth (queues d ! qi) \<noteq> 0"
  by (auto simp: cqe_pending_def bindE_Inr_iff get_queue_def split: if_splits)

lemma rings_irq_loop [rings]:
  assumes "irq_loop qi found d = Some (Inr (f, d'))"
  shows "keeps_rings S d d'"
proof -
  have "case r of Inl e \<Rightarrow> True | Inr (f, d') \<Rightarrow> keeps_rings S d d'"
    if "irq_loop qi found d = Some r" for r
  proof (rule irq_loop.raw_induct [OF _ that], goal_cases)
    case (1 loop qi found d r)
    show ?case
    proof (cases "cqe_pending qi d = Inr True \<and> (\<exists>d1. handle_cqe qi (cq_head (queues d ! qi)) d = Inr d1)")
      case True
      then obtain d1 where d1: "cqe_pending qi d = Inr True" "handle_cqe qi (cq_head (queues d ! qi)) d = Inr d1"
        by blast
      let ?d2 = "set_queue qi (update_cq_head (queues d1 ! qi)) d1"
      have "depth (queues d1 ! qi) \<noteq> 0" using cqe_pending_depth [OF d1(1)] handle_cqe_frame [OF d1(2)] by simp
      then have "keeps_rings S d ?d2"
        using rings_handle_cqe [OF d1(2)] by (intro keeps_rings_set) (auto simp: ring_ok_head)
      moreover have "loop qi (found + 1) ?d2 = Some r" using 1(2) d1 by simp
      note 1(1) [OF this]
      ultimately show ?thesis by (auto split: sum.splits intro: keeps_rings_trans)
    next
      case False
      then show ?thesis using 1(2) by (fastforce split: sum.splits if_splits)
    qed
  qed
  from this [OF assms] show ?thesis by simp
qed

lemma rings_ring_cq_doorbell [rings]: "ring_cq_doorbell ops qi d = Inr d' \<Longrightarrow> keeps_rings S d d'"
  unfolding ring_cq_doorbell_def Let_def
  by (auto simp: bindE_Inr_iff split: if_splits dest!: rings_put_mem [where S = S] rings_put_reg [where S = S])

lemma rings_irq_entry [rings]: "irq_entry ops vector d = Inr d' \<Longrightarrow> keeps_rings S d d'"
  unfolding irq_entry_def nvme_irq_def
  by (auto simp: bindE_Inr_iff split: if_splits option.splits
      dest!: rings_irq_loop [where S = S] rings_ring_cq_doorbell [where S = S] intro: keeps_rings_trans)

lemma rings_sleep [rings]:
  assumes "sleep_until_completed ops dev cid d = Some (Inr (c, d'))"
  shows "keeps_rings S d d'"
proof -
  have "case r of Inl e \<Rightarrow> True | Inr (c, d') \<Rightarrow> keeps_rings S d d'"
    if "sleep_until_completed ops dev cid d = Some r" for r
  proof (rule sleep_until_completed.raw_induct [OF _ that], goal_cases)
    case (1 sleep ops dev cid d r)
    show ?case
    proof (cases "\<exists>c l m vector d1. command_map d cid = Some c \<and> \<not> ac_completed c \<and>
        dev (link d, mem d) = Some (l, m, vector) \<and> irq_entry ops vector (d\<lparr>link := l, mem := m\<rparr>) = Inr d1")
      case True
      then obtain c l m vector d1 where step: "command_map d cid = Some c" "\<not> ac_completed c"
        "dev (link d, mem d) = Some (l, m, vector)" "irq_entry ops vector (d\<lparr>link := l, mem := m\<rparr>) = Inr d1"
        by blast
      have first: "keeps_rings S d d1" using rings_irq_entry [OF step(4)] by simp
      from step 1(2) have "sleep ops dev cid d1 = Some r" by simp
      from 1(1) [OF this] show ?thesis by (auto split: sum.splits intro: keeps_rings_trans [OF first])
    next
      case False
      then show ?thesis using 1(2) by (fastforce split: option.splits if_splits sum.splits)
    qed
  qed
  from this [OF assms] show ?thesis by simp
qed

lemma rings_wait_command [rings]: "wait_command ops dev cid d = Inr (st, res, d') \<Longrightarrow> keeps_rings S d d'"
  unfolding wait_command_def
  by (auto simp: bindE_Inr_iff split: option.splits
      dest!: rings_sleep [where S = S] rings_remove_async_command [where S = S] intro: keeps_rings_trans)

lemma rings_submit_sync_command [rings]:
  "submit_sync_command ops dev qi cmd buf buflen d = Inr (st, res, d') \<Longrightarrow> keeps_rings {qi} d d'"
  unfolding submit_sync_command_def
  by (auto simp: bindE_Inr_iff dest!: rings intro: keeps_rings_trans)

section \<open>Administration and start\<close>

lemma rings_init_queue [rings]: "init_queue qid d = Inr d' \<Longrightarrow> keeps_rings {unat qid} d d'"
  unfolding init_queue_def Let_def
  by (auto simp: bindE_Inr_iff get_queue_def ring_ok_def intro!: keeps_rings_put split: if_splits)

lemma rings_set_queue_count [rings]: "set_queue_count ops dev n d = Inr (nr, d') \<Longrightarrow> keeps_rings {0} d d'"
  unfolding set_queue_count_def nvme_set_features_def Let_def
  by (auto simp: bindE_Inr_iff split: if_splits dest!: rings_submit_sync_command)

lemma rings_dbbuf_config [rings]: "dbbuf_config ops dev d = Inr d' \<Longrightarrow> keeps_rings {0} d d'"
  unfolding dbbuf_config_def Let_def
  by (auto simp: bindE_Inr_iff split: if_splits dest!: rings_submit_sync_command)

lemma rings_create_queue [rings]:
  assumes "create_queue ops dev qid d = Inr (st, d')"
  shows "keeps_rings {0, unat qid} d d'"
proof -
  note sync = keeps_rings_mono [OF rings_submit_sync_command [where qi = 0], where T = "{0, unat qid}", simplified]
  note init = keeps_rings_mono [OF rings_init_queue [where qid = qid], where T = "{0, unat qid}", simplified]
  show ?thesis using assms unfolding create_queue_def
    by (auto simp: bindE_Inr_iff split: if_splits dest!: sync init intro: keeps_rings_trans)
qed

lemma rings_create_queues [rings]:
  assumes "create_queues ops dev qs d = Inr d'" "\<forall>i \<in> set qs. i < n" "0 < n"
  shows "keeps_rings {..<n} d d'"
  using assms(1,2)
proof (induction qs arbitrary: d)
  case (Cons i qs)
  then obtain st d1 where d1: "create_queue ops dev (of_nat i) d = Inr (st, d1)"
    "st \<noteq> 0 \<and> d' = d1 \<or> create_queues ops dev qs d1 = Inr d'"
    by (auto simp: bindE_Inr_iff split: if_splits)
  have "unat (of_nat i :: u32) \<le> i" by (simp add: unat_of_nat)
  then have "keeps_rings {..<n} d d1"
    using rings_create_queue [OF d1(1)] Cons.prems(2) assms(3) by (elim keeps_rings_mono) auto
  with d1(2) Cons show ?case by (auto intro: keeps_rings_trans)
qed simp

lemma rings_identify_controller [rings]: "identify_controller ops dev d = Inr (st, d') \<Longrightarrow> keeps_rings {0} d d'"
  unfolding identify_controller_def Let_def
  by (auto simp: bindE_Inr_iff dest!: rings_submit_sync_command)

lemma rings_wait_ready [rings]: "wait_ready ops enabled d = Inr d' \<Longrightarrow> keeps_rings S d d'"
  by (auto simp: wait_ready_def bindE_Inr_iff split: option.splits)

lemma rings_disable_controller [rings]: "disable_controller ops d = Inr d' \<Longrightarrow> keeps_rings S d d'"
  unfolding disable_controller_def Let_def
  by (auto simp: bindE_Inr_iff dest!: rings_put_reg [where S = S] rings_wait_ready [where S = S]
      intro: keeps_rings_trans)

lemma rings_enable_controller [rings]: "enable_controller ops d = Inr d' \<Longrightarrow> keeps_rings S d d'"
  unfolding enable_controller_def Let_def
  by (auto simp: bindE_Inr_iff split: if_splits dest!: rings_put_reg [where S = S] rings_wait_ready [where S = S]
      intro: keeps_rings_trans)

lemma rings_shutdown [rings]: "shutdown ops d = Inr d' \<Longrightarrow> keeps_rings S d d'"
  unfolding shutdown_def Let_def by (auto dest!: rings_put_reg [where S = S])

text \<open>
  While the queues are set up: the first \<open>n\<close> of them are rings, the others are as they were made.
\<close>

definition set_up :: "nat \<Rightarrow> ('l, 'cb) nvme_driver \<Rightarrow> bool" where
  "set_up n d \<longleftrightarrow> unat (queue_count d) = n \<and>
     (\<forall>i < length (queues d). if i < n then ring_ok (queues d ! i) else queues d ! i = new_queue)"

lemma new_queue_depth: "depth new_queue = 0"
  by (simp add: new_queue_def)

lemma set_up_keeps:
  assumes "set_up n d" "keeps_rings S d d'" "\<forall>i \<in> S. i < n"
  shows "set_up n d'"
  using assms by (fastforce simp: set_up_def keeps_rings_def new_queue_depth)

lemma set_up_allocate:
  assumes "set_up n d" "allocate_queue qid dep d = Inr d'" "unat qid = n" "0 < unat dep" "unat dep \<le> 65536"
  shows "set_up (Suc n) d'"
proof -
  obtain sq cq m where n: "n < length (queues d)"
    and d': "d' = (set_queue n ((queues d ! n)\<lparr>sqe_shift := 6, depth := dep, sq_dma_addr := sq, cq_dma_addr := cq,
      q_qid := ucast qid, q_db := doorbell qid d, cq_phase := 1, cq_head := 0\<rparr>) d)\<lparr>mem := m, queue_count := queue_count d + 1\<rparr>"
    using assms(2,3) unfolding allocate_queue_def Let_def
    by (auto simp: bindE_Inr_iff get_queue_def NVME_NVM_IOSQES_def NVME_ADM_SQES_def split: if_splits)
  define q where "q = (queues d ! n)\<lparr>sqe_shift := 6, depth := dep, sq_dma_addr := sq, cq_dma_addr := cq,
      q_qid := ucast qid, q_db := doorbell qid d, cq_phase := 1, cq_head := 0\<rparr>"
  have d'_eq: "d' = (set_queue n q d)\<lparr>mem := m, queue_count := queue_count d + 1\<rparr>" by (simp add: d' q_def)
  have "queues d ! n = new_queue" using assms(1) n by (simp add: set_up_def)
  then have ok: "ring_ok q" using assms(4,5) by (simp add: q_def ring_ok_def new_queue_def)
  have "unat (queue_count d + 1) = Suc n"
    using assms(1,3) unat_lt_exp [of qid] by (simp add: set_up_def unat_add_lt)
  with assms(1) n ok show ?thesis by (auto simp: set_up_def d'_eq set_queue_def nth_list_update less_Suc_eq)
qed

lemma set_up_allocate_all:
  assumes "set_up n d" "foldE (\<lambda>i. allocate_queue (of_nat i) dep) [n..<k] d = Inr d'" "n \<le> k" "k \<le> 2 ^ 32"
    and "0 < unat dep" "unat dep \<le> 65536"
  shows "set_up k d'"
  using assms(1-3)
proof (induction "k - n" arbitrary: n d)
  case (Suc j)
  then have n: "n < k" by simp
  then obtain d1 where d1: "allocate_queue (of_nat n) dep d = Inr d1"
    "foldE (\<lambda>i. allocate_queue (of_nat i) dep) [Suc n..<k] d1 = Inr d'"
    using Suc.prems(2) by (auto simp: upt_conv_Cons bindE_Inr_iff)
  have "unat (of_nat n :: u32) = n" using n assms(4) by (intro unat_of_nat_lt) simp
  from set_up_allocate [OF Suc.prems(1) d1(1) this assms(5,6)] show ?case
    using Suc.hyps(1) [of "Suc n" d1] Suc.hyps(2) d1(2) n by simp
qed simp

lemma set_up_admin_queue:
  assumes "setup_admin_queue ops d = Inr d'" "set_up 0 d"
  shows "set_up 1 d'" "queue_depth d' = queue_depth d"
proof -
  obtain d1 d2 d3 d4 l where run: "disable_controller ops d = Inr d1" "allocate_queue 0 NVME_AQ_DEPTH d1 = Inr d2"
    "keeps_rings {} d2 d3" and d4: "enable_controller ops (d3\<lparr>link := l\<rparr>) = Inr d4" "init_queue 0 d4 = Inr d'"
    using assms(1) unfolding setup_admin_queue_def Let_def
    by (auto simp: bindE_Inr_iff dest!: rings_put_reg [where S = "{}"])
  have k1: "keeps_rings {} d d1" using run(1) by (rule rings)
  have "set_up (Suc 0) d2"
    by (rule set_up_allocate [OF set_up_keeps [OF assms(2) k1] run(2)]) (simp_all add: NVME_AQ_DEPTH_def)
  moreover have k2: "keeps_rings {0} d2 d'"
  proof -
    have "keeps_rings {0} d3 d4" using rings_enable_controller [OF d4(1), where S = "{0}"] by simp
    moreover have "keeps_rings {0} d2 d3" using run(3) by (rule keeps_rings_mono) simp
    moreover have "keeps_rings {0} d4 d'" using rings_init_queue [OF d4(2)] by simp
    ultimately show ?thesis by (blast intro: keeps_rings_trans)
  qed
  ultimately show "set_up 1 d'" by (auto intro: set_up_keeps)
  have "queue_depth d2 = queue_depth d1" using run(2)
    by (auto simp: allocate_queue_def bindE_Inr_iff Let_def set_queue_def)
  with k1 k2 show "queue_depth d' = queue_depth d" by (simp add: keeps_rings_def)
qed

definition queues_ok :: "('l, 'cb) nvme_driver \<Rightarrow> bool" where
  "queues_ok d \<longleftrightarrow> (\<forall>i < length (queues d). ring_ok (queues d ! i) \<or> depth (queues d ! i) = 0)"

lemma queues_ok_keeps: "queues_ok d \<Longrightarrow> keeps_rings S d d' \<Longrightarrow> queues_ok d'"
  by (auto simp: queues_ok_def keeps_rings_def)

lemma queues_ok_set_up:
  assumes "set_up n d"
  shows "queues_ok d"
  unfolding queues_ok_def
proof (intro allI impI)
  fix i assume "i < length (queues d)"
  with assms have "if i < n then ring_ok (queues d ! i) else queues d ! i = new_queue" by (simp add: set_up_def)
  then show "ring_ok (queues d ! i) \<or> depth (queues d ! i) = 0" by (simp add: new_queue_depth split: if_splits)
qed

lemma set_up_io_queues:
  assumes "setup_io_queues ops dev d = Inr d'" "set_up 1 d" "0 < unat (queue_depth d)" "unat (queue_depth d) \<le> 65536"
  shows "\<exists>n > 1. set_up n d'"
proof -
  obtain nr d1 where d1: "set_queue_count ops dev (of_nat (length (queues d)) - 1) d = Inr (nr, d1)"
    using assms(1) by (auto simp: setup_io_queues_def bindE_Inr_iff)
  with assms(1) obtain d2 a where nr: "nr \<noteq> 0"
    and d2: "foldE (\<lambda>i. allocate_queue (of_nat i) (queue_depth d1)) [unat (queue_count d1)..<unat nr + 1] d1 = Inr d2"
    "create_queues ops dev [a..<unat (min (queue_count d2 - 1) (ucast nr)) + 1] d2 = Inr d'"
    by (auto simp: setup_io_queues_def bindE_Inr_iff Let_def simp del: upt_Suc split: if_splits)
  have k: "keeps_rings {0} d d1" using d1 by (rule rings)
  have s1: "set_up 1 d1" using set_up_keeps [OF assms(2) k] by simp
  have "unat nr + 1 \<le> 2 ^ 32" using Suc_leI [OF unat_lt_exp [of nr]] by (simp only: Suc_eq_plus1 len_of_numeral_defs) simp
  moreover have "1 \<le> unat nr + 1" by simp
  moreover have "queue_depth d1 = queue_depth d" "unat (queue_count d1) = 1"
    using k s1 by (simp_all add: keeps_rings_def set_up_def)
  ultimately have s2: "set_up (unat nr + 1) d2"
    using set_up_allocate_all [OF s1 _ \<open>1 \<le> unat nr + 1\<close>] d2(1) assms(3,4) by simp
  have "unat (min (queue_count d2 - 1) (ucast nr)) \<le> unat (ucast nr :: size_t)"
    using min.cobounded2 [of "queue_count d2 - 1" "ucast nr"] by (simp only: word_le_nat_alt)
  then have "\<forall>i \<in> set [a..<unat (min (queue_count d2 - 1) (ucast nr)) + 1]. i < unat nr + 1"
    by (simp add: unat_ucast_up) auto
  from set_up_keeps [OF s2 rings_create_queues [OF d2(2) this]] have "set_up (unat nr + 1) d'" by simp
  moreover have "1 < unat nr + 1" using nr by (simp add: unat_gt_0)
  ultimately show ?thesis by blast
qed

lemma sint_positive:
  fixes x :: u32
  assumes "0 < sint x \<or> unat x < 2 ^ 31"
  shows "sint x = int (unat x)"
proof (cases "uint x < 2 ^ 31")
  case True
  have "- (2 ^ 31) \<le> uint x" by (rule order_trans [of _ 0]) simp_all
  with True have "signed_take_bit 31 (uint x) = uint x" by (intro signed_take_bit_int_eq_self)
  then show ?thesis by (simp add: sint_uint)
next
  case False
  have "odd (u div 2147483648)" if "\<not> u < 2147483648" "u < 4294967296" for u :: int
    using that int_div_pos_eq [of u 2147483648 1 "u - 2147483648"] by simp
  with False have "bit (uint x) 31" using uint_bounded [of x] by (simp add: bit_iff_odd)
  then have "sint x < 0" by (simp add: sint_uint)
  moreover have "\<not> unat x < 2 ^ 31"
  proof
    assume "unat x < 2 ^ 31"
    then have "int (unat x) < int (2 ^ 31)" by (simp only: of_nat_less_iff)
    with False show False by simp
  qed
  ultimately show ?thesis using assms by simp
qed

lemma queue_depth_range:
  assumes "0 < sint (io_depth :: u32)" "mqes = (ucast (NVME_CAP_MQES cap + 1) :: u32)"
    and "dep = (if sint io_depth < sint mqes then io_depth else mqes)"
  shows "0 < unat dep \<and> unat dep \<le> 65536"
proof -
  have "NVME_CAP_MQES cap = take_bit 16 cap"
    by (simp add: NVME_CAP_MQES_def take_bit_eq_mask mask_eq_exp_minus_1)
  then have "unat (NVME_CAP_MQES cap) < 2 ^ 16" by (simp add: unsigned_take_bit_eq) (simp add: take_bit_eq_mod)
  then have "unat (NVME_CAP_MQES cap + 1) = unat (NVME_CAP_MQES cap) + 1" by (simp add: unat_add_lt)
  with \<open>unat (NVME_CAP_MQES cap) < 2 ^ 16\<close>
  have m: "0 < unat mqes" "unat mqes \<le> 65536"
    by (simp_all add: assms(2) unat_ucast_mod)
  then have mq: "sint mqes = int (unat mqes)" by (intro sint_positive) simp
  have io: "sint io_depth = int (unat io_depth)" using assms(1) by (intro sint_positive) simp
  show ?thesis
  proof (cases "sint io_depth < sint mqes")
    case True
    then have "unat io_depth < unat mqes" unfolding io mq by (simp only: of_nat_less_iff)
    moreover have "0 < unat io_depth" using assms(1) unfolding io by (simp only: of_nat_0_less_iff)
    ultimately show ?thesis using True m assms(3) by simp
  next
    case False
    with m assms(3) show ?thesis by simp
  qed
qed

lemma start_set_up:
  assumes "NVMeDriver cpus io_depth l m use_dbbuf raw_config raw_counter = Inr d0" "0 < sint io_depth"
    and "start ops dev send_cfg await d0 = Inr d"
  shows "\<exists>n > 1. set_up n d"
proof -
  have d0: "queues d0 = []" "queue_count d0 = 0" "io_queue_depth d0 = io_depth"
    using assms(1) by (auto simp: NVMeDriver_def bindE_Inr_iff)
  obtain l2 where reset: "reset ops dev (d0\<lparr>link := l2, queues := replicate (unat (ncpus d0 + 1)) new_queue\<rparr>) = Inr d"
    using assms(3) d0 by (auto simp: start_def bindE_Inr_iff)
  define dx where "dx = d0\<lparr>link := l2, queues := replicate (unat (ncpus d0 + 1)) new_queue\<rparr>"
  have dx: "set_up 0 dx" "io_queue_depth dx = io_depth" using d0 by (simp_all add: dx_def set_up_def)
  obtain cap l3 where "readq ops (reg_offset NVME_REG_CAP) (link dx) = Inr (cap, l3)"
    using reset unfolding reset_def dx_def [symmetric] by (auto simp only: bindE_Inr_iff)
  with reset have run: "bindE (setup_admin_queue ops (dx\<lparr>link := l3, ctrl_cap := cap,
        queue_depth := (if sint (io_queue_depth dx) < sint (ucast (NVME_CAP_MQES cap + 1) :: u32) then io_queue_depth dx
          else ucast (NVME_CAP_MQES cap + 1)), db_stride := push_bit (unat (NVME_CAP_STRIDE cap)) 1\<rparr>)) (\<lambda>d2.
      bindE (identify_controller ops dev d2) (\<lambda>(status, d3).
      bindE (setup_io_queues ops dev d3) (\<lambda>d4.
        if dbbuf_dbs d4 \<noteq> 0 then dbbuf_config ops dev d4 else Inr d4))) = Inr d"
    unfolding reset_def dx_def [symmetric] by (simp only: bindE_simps prod.case Let_def)
  define dep where "dep = (if sint io_depth < sint (ucast (NVME_CAP_MQES cap + 1) :: u32) then io_depth
        else ucast (NVME_CAP_MQES cap + 1))"
  let ?d1 = "dx\<lparr>link := l3, ctrl_cap := cap, queue_depth := dep,
      db_stride := push_bit (unat (NVME_CAP_STRIDE cap)) 1\<rparr>"
  obtain d2 st d3 d4 where d2: "setup_admin_queue ops ?d1 = Inr d2"
    and d3: "identify_controller ops dev d2 = Inr (st, d3)"
    and d4: "setup_io_queues ops dev d3 = Inr d4" "d = d4 \<or> dbbuf_config ops dev d4 = Inr d"
    using run unfolding dx(2) dep_def [symmetric] by (auto simp: bindE_Inr_iff split: if_splits)
  have "set_up 0 ?d1" using dx(1) by (simp add: set_up_def)
  from set_up_admin_queue [OF d2 this] have "set_up 1 d2" "queue_depth d2 = dep" by simp_all
  moreover have k: "keeps_rings {0} d2 d3" using d3 by (rule rings)
  ultimately have "set_up 1 d3" "queue_depth d3 = dep" using set_up_keeps [of 1 d2 "{0}" d3]
    by (simp_all add: keeps_rings_def)
  with queue_depth_range [OF assms(2) refl dep_def] d4(1) obtain n where n: "1 < n" "set_up n d4"
    using set_up_io_queues by metis
  moreover have "set_up n d" if "dbbuf_config ops dev d4 = Inr d"
    using set_up_keeps [OF n(2) rings_dbbuf_config [OF that]] n(1) by simp
  ultimately show ?thesis using d4(2) by blast
qed

section \<open>The running driver\<close>

text \<open>
  What happens to a driver that has started, in any order: commands are submitted and waited for,
  interrupts come in, the device and the rest of the program change link and memory, and in the end
  the controller is shut down.
\<close>

inductive driver_run ::
    "'l pcie_ops \<Rightarrow> 'l device \<Rightarrow> ('l, 'cb) nvme_driver \<Rightarrow> ('l, 'cb) nvme_driver \<Rightarrow> bool" for ops dev d where
  started: "driver_run ops dev d d"
| outside: "driver_run ops dev d d1 \<Longrightarrow> driver_run ops dev d (d1\<lparr>link := l, mem := m\<rparr>)"
| submission: "driver_run ops dev d d1 \<Longrightarrow> submit_rw_command ops (Some qi) w nsid pos buf sz cb d1 = Inr (cid, d2) \<Longrightarrow>
    driver_run ops dev d d2"
| interrupt: "driver_run ops dev d d1 \<Longrightarrow> irq_entry ops vector d1 = Inr d2 \<Longrightarrow> driver_run ops dev d d2"
| waiting: "driver_run ops dev d d1 \<Longrightarrow> wait_command ops dev cid d1 = Inr (st, res, d2) \<Longrightarrow> driver_run ops dev d d2"
| shut_down: "driver_run ops dev d d1 \<Longrightarrow> shutdown ops d1 = Inr d2 \<Longrightarrow> driver_run ops dev d d2"

lemma driver_run_ok: "driver_run ops dev d d' \<Longrightarrow> queues_ok d \<Longrightarrow> queues_ok d'"
proof (induction rule: driver_run.induct)
  case (outside d1 m l)
  then have "keeps_rings {} d1 (d1\<lparr>link := l, mem := m\<rparr>)" by simp
  with outside show ?case by (blast intro: queues_ok_keeps)
qed (blast intro: queues_ok_keeps rings)+

lemma ring_ok_sizes:
  assumes "ring_ok q"
  shows "unat (SQ_SIZE q) = 64 * unat (depth q)" "unat (CQ_SIZE q) = 16 * unat (depth q)"
    "unat (push_bit (unat (sqe_shift q)) (ucast (sq_tail q) :: u32)) = 64 * unat (sq_tail q)"
    "unat (ucast (cq_head q) * of_nat (size_of nvme_completion) :: u32) = 16 * unat (cq_head q)"
proof -
  have le: "unat (depth q) \<le> 65536" and t: "unat (sq_tail q) < unat (depth q)" "unat (cq_head q) < unat (depth q)"
    and sh: "unat (sqe_shift q) = 6"
    using assms by (simp_all add: ring_ok_def)
  show "unat (SQ_SIZE q) = 64 * unat (depth q)"
    using le by (simp add: SQ_SIZE_def sh unat_ucast_up push_bit_eq_mult unat_word_ariths)
  show "unat (CQ_SIZE q) = 16 * unat (depth q)"
    using le by (simp add: CQ_SIZE_def unat_ucast_up unat_word_ariths)
  show "unat (push_bit (unat (sqe_shift q)) (ucast (sq_tail q) :: u32)) = 64 * unat (sq_tail q)"
    using t le by (simp add: sh unat_ucast_up push_bit_eq_mult unat_word_ariths)
  show "unat (ucast (cq_head q) * of_nat (size_of nvme_completion) :: u32) = 16 * unat (cq_head q)"
    using t le by (simp add: unat_ucast_up unat_word_ariths)
qed

text \<open>
  C38: the queues of a started driver are well-formed at any point of any run, whatever the device
  does: in a queue that has been set up the tails and the head are indices of the ring and the phase
  is a bit, so that the slot of the next command and the next completion entry lie inside the memory
  allocated for them.
\<close>

theorem queue_indices_in_bounds:
  assumes "NVMeDriver cpus io_depth l m use_dbbuf raw_config raw_counter = Inr d0" "0 < sint io_depth"
    and "start ops dev send_cfg await d0 = Inr d1" "driver_run ops dev d1 d"
    and "qi < length (queues d)" "q = queues d ! qi" "depth q \<noteq> 0"
  shows "unat (sq_tail q) < unat (depth q) \<and> unat (last_sq_tail q) < unat (depth q) \<and>
    unat (cq_head q) < unat (depth q) \<and> cq_phase q \<in> {0, 1} \<and>
    unat (push_bit (unat (sqe_shift q)) (ucast (sq_tail q) :: u32)) + 64 \<le> unat (SQ_SIZE q) \<and>
    unat (ucast (cq_head q) * of_nat (size_of nvme_completion) :: u32) + 16 \<le> unat (CQ_SIZE q)"
proof -
  have "queues_ok d" using driver_run_ok [OF assms(4)] start_set_up [OF assms(1-3)] queues_ok_set_up by blast
  with assms(5-7) have ok: "ring_ok q" by (auto simp: queues_ok_def)
  moreover have "p \<le> 1 \<Longrightarrow> p \<in> {0, 1}" for p :: u8 by (metis insertI1 insert_iff word_le_less_eq word_less_1)
  ultimately show ?thesis unfolding ring_ok_sizes [OF ok] by (auto simp: ring_ok_def)
qed

section \<open>Queues the device does not grant\<close>

text \<open>
  C40: \<open>start\<close> makes a queue for every thread, but sets up only those that the device grants, and says
  nothing about the others. A thread is let in on such a queue all the same; its command goes to the
  address zero, where it overwrites what shared memory holds there, the tail to register zero
  instead of a doorbell, and nothing fails.
\<close>

theorem refused_queue_overwrites_memory:
  assumes "NVMeDriver cpus io_depth l m use_dbbuf raw_config raw_counter = Inr d0" "0 < sint io_depth"
    and "start ops dev send_cfg await d0 = Inr d"
    and "unat (queue_count d) \<le> unat tid" "unat tid < length (queues d)"
    and "iova_base (mem d) = 0" "64 \<le> unat (map_size (mem d))" "length cmd = 64" "writel ops 0 1 (link d) = Inr l1"
  shows "set_thread_id tid d = Inr (unat tid) \<and>
    (\<exists>d'. submit_sq_command ops (unat tid) cmd True d = Inr d' \<and> load (mem d') 0 64 = cmd \<and> link d' = l1)"
proof -
  obtain n where n: "set_up n d" using start_set_up [OF assms(1-3)] by blast
  then have q: "queues d ! unat tid = new_queue" using assms(4,5) by (simp add: set_up_def)
  have "block 0 (length cmd) \<subseteq> mapped (mem d)"
    using assms(6-8) by (auto simp: block_def mapped_def)
  then have put: "put_mem 0 cmd d = Inr (d\<lparr>mem := store 0 cmd (mem d)\<rparr>)"
    using put_mem_mapped [of 0 cmd d] assms(8) by fastforce
  let ?d' = "set_queue (unat tid) (new_queue\<lparr>sq_tail := 1, last_sq_tail := 1\<rparr>)
    (d\<lparr>mem := store 0 cmd (mem d), link := l1\<rparr>)"
  have "submit_sq_command ops (unat tid) cmd True d = Inr ?d'"
    using assms(5,9) put q
    by (simp add: submit_sq_command_def write_sq_doorbell_def get_queue_def new_queue_def put_reg_def set_queue_def Let_def)
  moreover have "load (mem ?d') 0 64 = cmd"
    using load_store_same [of 0 cmd "mem d"] assms(8) by (simp add: set_queue_def)
  moreover have "link ?d' = l1" by (simp add: set_queue_def)
  ultimately show ?thesis using assms(5) by (auto simp: set_thread_id_def)
qed

end
