(* ===== verification/Bringup.thy ===== *)
theory Bringup
  imports Frontend IoSample NvmeQueues
begin

text \<open>
  A run of \<open>main\<close> with a device that works: it answers every administration command at once with
  success. The driver comes up with a queue pair for the one flow of the configuration, and the
  thread of the flow starts. This is the concrete program for the properties of theory Frontend.
\<close>

section \<open>The device\<close>

text \<open>
  The link holds the configuration register and the number of commands answered; the readiness bit
  of the status follows the enable bit. The answer to command \<open>k\<close> is the entry \<open>k\<close> of the
  completion queue at 0x2000.
\<close>

definition boot_ops :: "(u32 \<times> nat) pcie_ops" where
  "boot_ops = \<lparr>read_from_device = (\<lambda>a n (cc, k).
       Inr (if a = 0 then le_bytes (unat n) (0x1f :: u64) else le_bytes (unat n) (cc AND 1), cc, k)),
     write_to_device = (\<lambda>a bs (cc, k). Inr (if a = 0x14 then of_le bs else cc, k))\<rparr>"

definition boot_device :: "(u32 \<times> nat) device" where
  "boot_device = (\<lambda>((cc, k), m). Some ((cc, k + 1), store (0x2000 + 16 * k) (cqe_bytes (of_nat k) 0 0 1) m, 0))"

text \<open>
  Configuration files whose nodes are named by the key that leads to them: one namespace with one
  channel and one chip, one flow of two requests, queues of four entries; every other value is the
  reader's own.
\<close>

definition boot_yaml :: "(string, unit) yaml" where
  "boot_yaml = \<lparr>yaml_file = (\<lambda>f. Some f), at_key = (\<lambda>n k. k), at_index = (\<lambda>n i. n),
     node_size = (\<lambda>n. 1), as_u32 = (\<lambda>n. Inr 0),
     u32_or = (\<lambda>n d. if n = ''namespace'' then 1 else if n = ''io_queue_depth'' then 4 else d),
     int_or = (\<lambda>n d. if n = ''average_enqueued_requests'' then 1 else d),
     u64_or = (\<lambda>n d. if n = ''request_count'' then 2 else d), double_or = (\<lambda>n d. d), string_or = (\<lambda>n d. d)\<rparr>"

definition unit_doubles :: "unit doubles" where
  "unit_doubles = \<lparr>d_zero = (), d_half = (), d_one = ()\<rparr>"

definition boot_flow :: "unit flow_definition" where
  "boot_flow = hd (hc_flows (load_workload_flow boot_yaml unit_doubles ''flows'' (new_host_config 0 0)))"

definition boot_config :: "unit host_config" where
  "boot_config = \<lparr>hc_io_queue_depth = 4, hc_sector_size = 512, hc_namespaces = [1 \<mapsto> 0x100000], hc_flows = [boot_flow]\<rparr>"

definition boot_cmdline :: cmdline where
  "boot_cmdline = \<lparr>opt_backend = ''mcmq'', opt_memory = ''/dev/shm/ivshmem'', opt_config = ''ssdconfig.yaml'',
     opt_workload = ''workload.yaml'', opt_group = None, opt_device = None\<rparr>"

lemma boot_flow_fields:
  "flow_request_count boot_flow = 2" "flow_average_enqueued boot_flow = 1" "flow_nsid boot_flow = 1"
  "flow_kind boot_flow = SYNTHETIC"
  by code_simp+

lemma boot_files:
  "\<exists>ssd. load_ssd_config boot_yaml ''ssdconfig.yaml'' new_ssd_config = Inr (True, ssd) \<and>
     load_host_config boot_yaml unit_doubles ''workload.yaml'' ssd (new_host_config 0 0) = (True, boot_config)"
proof -
  have flow: "hc_flows (load_workload_flow boot_yaml unit_doubles n c) = hc_flows c @ [boot_flow]" for n c
    by (simp add: boot_flow_def load_workload_flow_def boot_yaml_def new_host_config_def Let_def)
  have "load_workload_flow boot_yaml unit_doubles n c = c\<lparr>hc_flows := hc_flows c @ [boot_flow]\<rparr>" for n c
    using flow [of n c] load_workload_flow_fields(1,3,4) [of boot_yaml unit_doubles n c]
    by (cases c, cases "load_workload_flow boot_yaml unit_doubles n c") simp
  moreover have "\<exists>ssd. load_ssd_config boot_yaml ''ssdconfig.yaml'' new_ssd_config = Inr (True, ssd) \<and>
      (\<exists>ns. ssd_namespaces ssd = [ns] \<and> length (channel_ids ns) = 1 \<and> length (chip_ids ns) = 1) \<and>
      nr_dies_per_chip (ssd_flash ssd) = 2 \<and> nr_planes_per_die (ssd_flash ssd) = 2 \<and>
      nr_blocks_per_plane (ssd_flash ssd) = 2048 \<and> nr_pages_per_block (ssd_flash ssd) = 256"
    by (simp add: load_ssd_config_def load_ssd_namespaces_def load_ssd_namespace_def read_ids_def load_flash_config_def
        boot_yaml_def new_ssd_config_def Let_def)
  ultimately show ?thesis
    by (auto simp: load_host_config_def add_namespace_def chip_capacity_sects_def new_host_config_def boot_config_def
        boot_yaml_def Let_def)
qed

section \<open>Administration commands\<close>

text \<open>The driver after \<open>k\<close> commands.\<close>

definition admin_at :: "nat \<Rightarrow> (u32 \<times> nat, 'cb) nvme_driver \<Rightarrow> bool" where
  "admin_at k d \<longleftrightarrow> (\<exists>q qs cc. queues d = q # qs \<and> sq_dma_addr q = 0x1000 \<and> cq_dma_addr q = 0x2000 \<and>
       q_db q = 0x1000 \<and> sq_ready 32 k q (mem d) \<and> cq_ready 32 k q (mem d) \<and> link d = (cc, k)) \<and>
     command_id_counter d = of_nat k \<and> command_map d = (\<lambda>c. None) \<and>
     iova_base (mem d) = 0 \<and> mapped (mem d) = {0..<0x8000} \<and> db_stride d = 1 \<and>
     (\<forall>j. k \<le> j \<and> j < 32 \<longrightarrow> load (mem d) (0x2000 + 16 * j + 14) 2 = [0, 0])"

definition same_alloc :: "memory_space \<Rightarrow> memory_space \<Rightarrow> bool" where
  "same_alloc m m' \<longleftrightarrow> hole_tab m' = hole_tab m \<and> hole_head m' = hole_head m \<and> free_slots m' = free_slots m \<and>
     iova_base m' = iova_base m \<and> map_size m' = map_size m"

lemma same_alloc_store [simp]: "same_alloc m (store x bs m') = same_alloc m m'" "same_alloc m m"
  by (simp_all add: same_alloc_def)

lemma boot_writel: "a \<noteq> 0x14 \<Longrightarrow> writel boot_ops a v l = Inr l"
  by (cases l) (simp add: boot_ops_def writel_def)

lemma admin_command:
  fixes d :: "(u32 \<times> nat, 'cb) nvme_driver"
  assumes "admin_at k d" "k < 31" "length cmd = 64"
    and "\<forall>d1 :: (u32 \<times> nat, 'cb) nvme_driver. ctrl_page_size d1 = ctrl_page_size d \<longrightarrow> (if buflen \<noteq> 0
        then setup_buffer (of_nat k) (put_member nvme_command [''common'', ''command_id''] (ucast (of_nat k :: u16)) cmd) buf buflen d1
        else Inr (put_member nvme_command [''common'', ''command_id''] (ucast (of_nat k :: u16)) cmd, d1)) = Inr (sent, d1)"
      "length sent = 64"
  shows "\<exists>l m q. submit_sync_command boot_ops boot_device 0 cmd buf buflen d =
      Inr (0, 0, d\<lparr>link := l, mem := m, command_id_counter := of_nat (Suc k), queues := (queues d)[0 := q]\<rparr>) \<and>
    admin_at (Suc k) (d\<lparr>link := l, mem := m, command_id_counter := of_nat (Suc k), queues := (queues d)[0 := q]\<rparr>) \<and>
    same_alloc (mem d) m"
proof -
  obtain q qs cc where q: "queues d = q # qs" "sq_dma_addr q = 0x1000" "cq_dma_addr q = 0x2000"
    "q_db q = 0x1000" "sq_ready 32 k q (mem d)" "cq_ready 32 k q (mem d)" "link d = (cc, k)"
    and d: "command_id_counter d = of_nat k" "command_map d = (\<lambda>c. None)" "iova_base (mem d) = 0"
    "mapped (mem d) = {0..<0x8000}" "db_stride d = 1"
    and zero: "\<And>j. k \<le> j \<Longrightarrow> j < 32 \<Longrightarrow> load (mem d) (0x2000 + 16 * j + 14) 2 = [0, 0]"
    using assms(1) by (auto simp: admin_at_def)
  let ?m1 = "store (0x1000 + 64 * k) sent (mem d)"
  let ?m = "store (0x2000 + 16 * k) (cqe_bytes (of_nat k) 0 0 1) ?m1"
  let ?q = "update_cq_head (q\<lparr>sq_tail := of_nat (Suc k), last_sq_tail := of_nat (Suc k)\<rparr>)"
  have next_k: "next_index 32 k = Suc k" using assms(2) by (simp add: next_index_def)
  have kept: "load ?m (0x2000 + 16 * j + 14) 2 = [0, 0]" if "Suc k \<le> j" "j < 32" for j
    using that zero [of j] assms(2,5) d(3) by (simp add: load_store_other)
  have ph: "phase_at 32 k = 1" "phase_at 32 (Suc k) = 1" using assms(2) by (simp_all add: phase_at_def)
  have ans: "load ?m (0x2000 + 16 * k) 16 = cqe_bytes (of_nat k) 0 0 1"
    using load_store_same [of "0x2000 + 16 * k" "cqe_bytes (of_nat k) 0 0 1" ?m1] by simp
  have quiet: "\<not> new_entry ?m 0x2000 32 (Suc k)"
  proof -
    have "Suc k < 32" using assms(2) by simp
    have "0x2000 + of_nat (Suc k) * 16 + 14 = (of_nat (0x2000 + Suc k * 16 + 14) :: u32)"
      by (simp only: of_nat_add of_nat_mult of_nat_numeral)
    moreover have "unat (of_nat (0x2000 + Suc k * 16 + 14) :: u32) = 0x2000 + Suc k * 16 + 14"
      by (rule unat_of_nat_lt) (use assms(2) in simp)
    ultimately have a: "unat (0x2000 + of_nat (Suc k) * 16 + 14 :: u32) = 0x2000 + 16 * Suc k + 14"
      by (simp only: mult.commute)
    have "block (0x2000 + of_nat (Suc k) * 16 + 14) 2 \<subseteq> mapped ?m"
      using a assms(2) d(4) by (auto simp: block_def)
    then have "mem_read (0x2000 + of_nat (Suc k) * 16 + 14) 2 ?m = Inr [0, 0]"
      using mem_read_mapped [of _ 2 ?m 2] kept [of "Suc k"] a \<open>Suc k < 32\<close> by (simp del: of_nat_Suc)
    then show ?thesis using \<open>Suc k < 32\<close> ph by (simp add: new_entry_def del: of_nat_Suc) simp
  qed
  note data = assms(4) [folded d(1)]
  have "submit_sync_command boot_ops boot_device 0 cmd buf buflen d = Inr (ucast (0 :: u16), 0,
      d\<lparr>link := (cc, Suc k), mem := ?m, command_id_counter := command_id_counter d + 1,
        queues := (queues d)[0 := update_cq_head ((queues d ! 0)
          \<lparr>sq_tail := of_nat (next_index 32 k), last_sq_tail := of_nat (next_index 32 k)\<rparr>)]\<rparr>)"
    by (rule sync_command_run [where sent = sent and n = k and ?l1.0 = "(cc, k)" and ?l2.0 = "(cc, Suc k)"])
      (use data assms(5) q d ans quiet assms(2) ph in \<open>simp_all add: boot_writel boot_device_def split del: if_split\<close>)
  then have "submit_sync_command boot_ops boot_device 0 cmd buf buflen d = Inr (0, 0,
      d\<lparr>link := (cc, Suc k), mem := ?m, command_id_counter := of_nat (Suc k), queues := (queues d)[0 := ?q]\<rparr>)"
    using d(1) q(1) by (simp add: next_k add.commute)
  moreover have "sq_ready 32 (Suc k) ?q ?m" "cq_ready 32 (Suc k) ?q ?m"
    using q(5,6) assms(2) update_cq_head_at [of 32 k "q\<lparr>sq_tail := of_nat (Suc k), last_sq_tail := of_nat (Suc k)\<rparr>"]
    by (auto simp: sq_ready_def cq_ready_def cq_at_def ring_mapped_def update_cq_head_def Let_def)
  moreover have "sq_dma_addr ?q = 0x1000" "cq_dma_addr ?q = 0x2000" "q_db ?q = 0x1000"
    using q by (simp_all add: update_cq_head_def Let_def)
  ultimately show ?thesis
    using q d kept
    by (intro exI [of _ "(cc, Suc k)"] exI [of _ ?m] exI [of _ ?q])
      (simp add: admin_at_def)
qed

section \<open>Memory\<close>

lemma same_alloc_ok: "same_alloc m m' \<Longrightarrow> ms_ok m' = ms_ok m \<and> free_list m' = free_list m \<and> mapped m' = mapped m"
  by (simp add: same_alloc_def ms_ok_def chains_def used_def unused_def free_list_def mapped_def)

lemma mem_set_mapped:
  assumes "block a n \<subseteq> mapped m" "0 < n" "unat len = n"
  shows "mem_set a c len m = Inr (store (unat a) (replicate n c) m)"
  using in_map_mapped [OF assms] block_mapped [OF assms(1,2)] assms(3)
  by (simp add: mem_set_def store_def)

text \<open>The pages from number \<open>p\<close> to 7 are free.\<close>

definition pages_from :: "nat \<Rightarrow> memory_space \<Rightarrow> bool" where
  "pages_from p m \<longleftrightarrow> ms_ok m \<and> free_list m = [(0x1000 * p, 0x8000 - 0x1000 * p)]"

lemma allocate_page:
  assumes "pages_from p m" "0 < p" "p < 7" "0 < unat len" "unat len \<le> 0x1000"
  shows "\<exists>m'. allocate_pages len m = Inr (of_nat (0x1000 * p), m') \<and> pages_from (Suc p) m' \<and> same_mem m m'"
proof -
  have "roundup len 0x1000 = 0x1000"
  proof (cases "len = 0x1000")
    case False
    then have lt: "unat len < 0x1000" using assms(5) by (auto simp: word_unat_eq_iff less_le)
    then have "len mod 0x1000 = len" by (simp add: word_unat_eq_iff unat_mod)
    moreover have "len \<noteq> 0" using assms(4) by auto
    ultimately show ?thesis by (simp add: roundup_def)
  qed (simp add: roundup_def)
  then have "allocate_pages len m = allocate 0x1000 0x1000 m" by (simp add: allocate_pages_def)
  moreover have less: "0x8000 - 0x1000 * p \<noteq> 0x1000" "0x1000 \<le> 0x8000 - 0x1000 * p" using assms(3) by arith+
  have "alloc_spec (unat (0x1000 :: size_t)) (unat (0x1000 :: size_t)) (free_list m) =
      Some (0x1000 * p, [(0x1000 * Suc p, 0x8000 - 0x1000 * Suc p)])"
    using assms(1) less by (simp add: pages_from_def pad_def diff_diff_left)
  ultimately show ?thesis
    using allocate_refines_raw [of m "0x1000" "0x1000"] assms(1) by (auto simp: pages_from_def)
qed

lemma free_page:
  assumes "pages_from (Suc p) m" "0 < p" "p < 7"
  shows "\<exists>m'. free_mem (of_nat (0x1000 * p)) 0x1000 m = Inr m' \<and> pages_from p m' \<and> same_mem m m'"
proof -
  have a: "unat (of_nat (0x1000 * p) :: u32) = 0x1000 * p" by (rule unat_of_nat_lt) (use assms(3) in simp)
  have "free_spec (unat (of_nat (0x1000 * p) :: u32)) (unat (0x1000 :: size_t)) (free_list m) =
      [(0x1000 * p, 0x8000 - 0x1000 * p)]"
    unfolding a using assms by (simp add: pages_from_def)
  moreover have "free_set m = {0x1000 * Suc p..<0x8000}"
    using assms by (auto simp: pages_from_def free_set_def)
  ultimately show ?thesis
    using free_mem_refines_raw [of m "of_nat (0x1000 * p)" "0x1000"] assms unfolding a
    by (auto simp: pages_from_def NR_HOLES_def)
qed

section \<open>The steps of the start\<close>

text \<open>
  The driver with \<open>w\<close> queues, of which \<open>qc\<close> are allocated and \<open>oq\<close> online, after \<open>k\<close> commands, with
  the pages from \<open>p\<close> on free.
\<close>

definition boot_at :: "nat \<Rightarrow> nat \<Rightarrow> nat \<Rightarrow> size_t \<Rightarrow> size_t \<Rightarrow> (u32 \<times> nat, 'cb) nvme_driver \<Rightarrow> bool" where
  "boot_at w k p qc oq d \<longleftrightarrow> admin_at k d \<and> pages_from p (mem d) \<and> length (queues d) = w \<and> 2 \<le> w \<and>
     queue_depth d = 4 \<and> ctrl_page_size d = 0x1000 \<and> dbbuf_dbs d = 0 \<and> queue_count d = qc \<and> online_queues d = oq"

lemma admin_at_upd [simp]:
  "admin_at k (d\<lparr>queue_count := n\<rparr>) = admin_at k d" "admin_at k (d\<lparr>online_queues := n\<rparr>) = admin_at k d"
  "admin_at k (set_queue (Suc i) q d) = admin_at k d"
  by (cases "queues d"; simp add: admin_at_def set_queue_def)+

lemma set_queue_sel [simp]:
  "mem (set_queue i q d) = mem d" "link (set_queue i q d) = link d" "command_map (set_queue i q d) = command_map d"
  by (simp_all add: set_queue_def)

lemma admin_at_mem:
  assumes "admin_at k d" "iova_base m = iova_base (mem d)" "mapped m = mapped (mem d)"
    and "\<And>x. x < 0x3000 \<Longrightarrow> load m x 2 = load (mem d) x 2"
  shows "admin_at k (d\<lparr>mem := m\<rparr>)"
  using assms by (auto simp: admin_at_def sq_ready_def cq_ready_def ring_mapped_def)

lemma boot_command:
  assumes "boot_at w k p qc oq d" "k < 31" "length cmd = 64"
  shows "\<exists>d'. submit_sync_command boot_ops boot_device 0 cmd 0 0 d = Inr (0, 0, d') \<and> boot_at w (Suc k) p qc oq d' \<and>
    queues d' ! 1 = queues d ! 1"
proof -
  obtain l m q where run: "submit_sync_command boot_ops boot_device 0 cmd 0 0 d =
      Inr (0, 0, d\<lparr>link := l, mem := m, command_id_counter := of_nat (Suc k), queues := (queues d)[0 := q]\<rparr>)"
    and "admin_at (Suc k) (d\<lparr>link := l, mem := m, command_id_counter := of_nat (Suc k), queues := (queues d)[0 := q]\<rparr>)"
    and same: "same_alloc (mem d) m"
    using admin_command [of k d cmd 0 0 "put_member nvme_command [''common'', ''command_id''] (ucast (of_nat k :: u16)) cmd"]
      assms by (auto simp: boot_at_def)
  then have "boot_at w (Suc k) p qc oq (d\<lparr>link := l, mem := m, command_id_counter := of_nat (Suc k), queues := (queues d)[0 := q]\<rparr>)"
    using assms(1) same_alloc_ok [OF same] by (simp add: boot_at_def pages_from_def)
  with run show ?thesis using assms(1) by (intro exI conjI) (assumption+, simp add: boot_at_def)
qed

lemma boot_identify:
  fixes d :: "(u32 \<times> nat, 'cb) nvme_driver"
  assumes "boot_at w k p qc oq d" "k < 31" "2 < p" "p < 7"
  shows "\<exists>d'. identify_controller boot_ops boot_device d = Inr (0, d') \<and> boot_at w (Suc k) p qc oq d' \<and>
    queues d' ! 1 = queues d ! 1"
proof -
  have d: "admin_at k d" "pages_from p (mem d)" "ctrl_page_size d = 0x1000" "length (queues d) = w" "2 \<le> w"
    using assms(1) by (simp_all add: boot_at_def)
  obtain m where m: "allocate_pages 0x1000 (mem d) = Inr (of_nat (0x1000 * p), m)" "pages_from (Suc p) m" "same_mem (mem d) m"
    using allocate_page [OF d(2) _ assms(4), of "0x1000"] assms(3) by auto
  let ?c = "put_member nvme_command [''identify'', ''cns''] (ucast (cns_code NVME_ID_CNS_CTRL))
    (put_member nvme_command [''identify'', ''opcode''] (ucast (admin_opcode_value nvme_admin_identify)) zero_command)"
  have len: "length ?c = 64" by (simp add: zero_command_def)
  let ?buf = "of_nat (0x1000 * p) :: u32"
  have a: "unat ?buf = 0x1000 * p" by (rule unat_of_nat_lt) (use assms(4) in simp)
  have "?buf mod 0x1000 = 0" unfolding word_unat_eq_iff unat_mod a by simp
  then have data: "setup_buffer cid cmd ?buf 0x1000 d1 =
      Inr (put_member nvme_command [''common'', ''dptr'', ''prp1''] (ucast ?buf) cmd, d1)"
    if "ctrl_page_size d1 = 0x1000" for cid cmd and d1 :: "(u32 \<times> nat, 'cb) nvme_driver"
    using that by (simp add: setup_buffer_def Let_def)
  let ?d = "d\<lparr>mem := m\<rparr>"
  have "admin_at k ?d" using m(3) load_same_mem [OF m(3)] by (intro admin_at_mem [OF d(1)]) (simp_all add: same_mem_def)
  let ?tagged = "put_member nvme_command [''common'', ''command_id''] (ucast (of_nat k :: u16)) ?c"
  let ?sent = "put_member nvme_command [''common'', ''dptr'', ''prp1''] (ucast ?buf) ?tagged"
  have "\<forall>d1 :: (u32 \<times> nat, 'cb) nvme_driver. ctrl_page_size d1 = ctrl_page_size ?d \<longrightarrow>
      (if (0x1000 :: size_t) \<noteq> 0 then setup_buffer (of_nat k) ?tagged ?buf 0x1000 d1 else Inr (?tagged, d1)) = Inr (?sent, d1)"
    using data d(3) by simp
  moreover have "length ?sent = 64" by (simp add: zero_command_def)
  ultimately
  obtain l m1 q where run: "submit_sync_command boot_ops boot_device 0 ?c ?buf 0x1000 ?d =
      Inr (0, 0, ?d\<lparr>link := l, mem := m1, command_id_counter := of_nat (Suc k), queues := (queues d)[0 := q]\<rparr>)"
    and at: "admin_at (Suc k) (?d\<lparr>link := l, mem := m1, command_id_counter := of_nat (Suc k), queues := (queues d)[0 := q]\<rparr>)"
    and same: "same_alloc m m1"
    using admin_command [OF \<open>admin_at k ?d\<close> assms(2) len, of "0x1000" ?buf ?sent] by auto
  have "pages_from (Suc p) m1" using m(2) same_alloc_ok [OF same] by (simp add: pages_from_def)
  from free_page [OF this] assms(3,4) obtain m2 where m2: "free_mem ?buf 0x1000 m1 = Inr m2" "pages_from p m2" "same_mem m1 m2"
    by auto
  let ?d' = "d\<lparr>link := l, command_id_counter := of_nat (Suc k), queues := (queues d)[0 := q], mem := m2\<rparr>"
  have "identify_controller boot_ops boot_device d = Inr (0, ?d')"
    using m(1) run m2(1) by (simp add: identify_controller_def size_of_identify)
  moreover have "admin_at (Suc k) ?d'"
    using admin_at_mem [OF at, of m2] m2(3) load_same_mem [OF m2(3)] by (simp add: same_mem_def)
  then have "boot_at w (Suc k) p qc oq ?d'" using assms(1) m2(2) by (simp add: boot_at_def)
  ultimately show ?thesis using d(4,5) by (intro exI conjI) (assumption+, simp)
qed

lemma boot_allocate_queue:
  assumes "boot_at w k 3 1 oq d"
  shows "\<exists>d'. allocate_queue 1 4 d = Inr d' \<and> boot_at w k 5 2 oq d' \<and>
    cq_dma_addr (queues d' ! 1) = 0x4000 \<and> sq_dma_addr (queues d' ! 1) = 0x3000 \<and> depth (queues d' ! 1) = 4"
proof -
  have d: "admin_at k d" "pages_from 3 (mem d)" "length (queues d) = w" "2 \<le> w" using assms by (simp_all add: boot_at_def)
  obtain m1 where m1: "allocate_pages 256 (mem d) = Inr (0x3000, m1)" "pages_from 4 m1" "same_mem (mem d) m1"
    using allocate_page [OF d(2), of 256] by auto
  obtain m2 where m2: "allocate_pages 64 m1 = Inr (0x4000, m2)" "pages_from 5 m2" "same_mem m1 m2"
    using allocate_page [OF m1(2), of 64] by auto
  have "same_mem (mem d) m2" using m1(3) m2(3) by (rule same_mem_trans)
  then have "admin_at k ((set_queue 1 q d)\<lparr>mem := m2\<rparr>)" for q
    using d(1) by (intro admin_at_mem [of k "set_queue 1 q d"]) (simp_all add: same_mem_def load_def mapped_def)
  then show ?thesis using assms m1 m2
    by (simp add: allocate_queue_def get_queue_def Let_def SQ_SIZE_def CQ_SIZE_def NVME_NVM_IOSQES_def
        boot_at_def set_queue_def)
qed

lemma boot_init_queue:
  assumes "boot_at w k p qc oq d" "cq_dma_addr (queues d ! 1) = 0x4000" "depth (queues d ! 1) = 4"
  shows "\<exists>d'. init_queue 1 d = Inr d' \<and> boot_at w k p qc (oq + 1) d'"
proof -
  have d: "admin_at k d" "pages_from p (mem d)" "length (queues d) = w" "2 \<le> w" "dbbuf_dbs d = 0" using assms by (simp_all add: boot_at_def)
  have map: "mapped (mem d) = {0..<0x8000}" "iova_base (mem d) = 0" using d(1) by (simp_all add: admin_at_def)
  let ?m = "store 0x4000 (replicate 64 0) (mem d)"
  have set: "mem_set 0x4000 0 64 (mem d) = Inr ?m"
    using mem_set_mapped [of "0x4000" 64 "mem d" 64 0] map by (simp add: block_def)
  have "admin_at k ((set_queue 1 q d)\<lparr>mem := ?m\<rparr>)" for q
    using d(1) map by (intro admin_at_mem [of k "set_queue 1 q d"]) (simp_all add: load_store_other)
  moreover have "pages_from p ?m"
    using d(2) same_alloc_ok [of "mem d" ?m] by (simp add: pages_from_def)
  ultimately show ?thesis using assms set d
    by (simp add: init_queue_def get_queue_def Let_def CQ_SIZE_def boot_at_def set_queue_def)
qed

lemma boot_create_queue:
  assumes "boot_at w k p qc oq d" "k < 30" "cq_dma_addr (queues d ! 1) = 0x4000" "depth (queues d ! 1) = 4"
  shows "\<exists>d'. create_queue boot_ops boot_device 1 d = Inr (0, d') \<and> boot_at w (k + 2) p qc (oq + 1) d'"
proof -
  have len: "length (queues d) = w" "2 \<le> w" using assms(1) by (simp_all add: boot_at_def)
  obtain d1 where d1: "submit_sync_command boot_ops boot_device 0 (create_cq_command (queues d ! 1) 1 1) 0 0 d = Inr (0, 0, d1)"
    "boot_at w (Suc k) p qc oq d1" "queues d1 ! 1 = queues d ! 1"
    using boot_command [OF assms(1), of "create_cq_command (queues d ! 1) 1 1"] assms(2)
    by (auto simp: create_cq_command_def zero_command_def)
  obtain d2 where d2: "submit_sync_command boot_ops boot_device 0 (create_sq_command (queues d ! 1) 1) 0 0 d1 = Inr (0, 0, d2)"
    "boot_at w (Suc (Suc k)) p qc oq d2" "queues d2 ! 1 = queues d1 ! 1"
    using boot_command [OF d1(2), of "create_sq_command (queues d ! 1) 1"] assms(2)
    by (auto simp: create_sq_command_def zero_command_def)
  obtain d3 where "init_queue 1 d2 = Inr d3" "boot_at w (Suc (Suc k)) p qc (oq + 1) d3"
    using boot_init_queue [OF d2(2)] d2(3) d1(3) assms(3,4) by auto
  with d1(1) d2(1) len show ?thesis by (simp add: create_queue_def get_queue_def)
qed

lemma boot_io_queues:
  assumes "boot_at w k 3 1 1 d" "k < 29" "w = 2 \<or> w = 3"
  shows "\<exists>d'. setup_io_queues boot_ops boot_device d = Inr d' \<and> boot_at w (k + 3) 5 2 2 d'"
proof -
  have len: "length (queues d) = w" "2 \<le> w" using assms(1) by (simp_all add: boot_at_def)
  let ?c = "put_member nvme_command [''features'', ''dword11''] (ucast ((of_nat w - 1 - 1 :: u32) OR push_bit 16 (of_nat w - 1 - 1)))
    (put_member nvme_command [''features'', ''fid''] (ucast NVME_FEAT_NUM_QUEUES)
      (put_member nvme_command [''features'', ''opcode''] (ucast (admin_opcode_value nvme_admin_set_features)) zero_command))"
  obtain d1 where d1: "submit_sync_command boot_ops boot_device 0 ?c 0 0 d = Inr (0, 0, d1)" "boot_at w (Suc k) 3 1 1 d1"
    using boot_command [OF assms(1), of ?c] assms(2) by (auto simp: zero_command_def)
  have nr: "set_queue_count boot_ops boot_device (of_nat w - 1) d = Inr (1, d1)"
    using d1(1) assms(3) by (auto simp: set_queue_count_def nvme_set_features_def)
  obtain d2 where d2: "allocate_queue 1 4 d1 = Inr d2" "boot_at w (Suc k) 5 2 1 d2"
    "cq_dma_addr (queues d2 ! 1) = 0x4000" "depth (queues d2 ! 1) = 4"
    using boot_allocate_queue [OF d1(2)] by auto
  obtain d3 where d3: "create_queue boot_ops boot_device 1 d2 = Inr (0, d3)" "boot_at w (Suc k + 2) 5 2 2 d3"
    using boot_create_queue [OF d2(2) _ d2(3,4)] assms(2) by auto
  have at1: "queue_depth d1 = 4" "queue_count d1 = 1" using d1(2) by (simp_all add: boot_at_def)
  have at2: "queue_count d2 = 2" "online_queues d2 = 1" using d2(2) by (simp_all add: boot_at_def)
  show ?thesis
    using nr d2(1) d3 len at1 at2 by (simp add: setup_io_queues_def numeral_2_eq_2 numeral_3_eq_3)
qed

lemma boot_regs:
  "readq boot_ops 0 (cc, k) = Inr (0x1f, cc, k)"
  "readl boot_ops 0x1c (cc, k) = Inr (cc AND 1, cc, k)"
  "writel boot_ops 0x14 v (cc, k) = Inr (v, k)"
  "writeq boot_ops 0x28 x (cc, k) = Inr (cc, k)" "writeq boot_ops 0x30 x (cc, k) = Inr (cc, k)"
  by (simp_all add: boot_ops_def readq_def readl_def writel_def writeq_def)

lemma boot_poll:
  "poll_ready boot_ops 0 (0, k) = Some (Inr (0, k))" "poll_ready boot_ops 1 (0x460001, k) = Some (Inr (0x460001, k))"
  by (subst poll_ready.simps, simp add: boot_regs NVME_CSTS_RDY_def)+

text \<open>The driver when \<open>reset\<close> has read the capabilities.\<close>

definition fresh_driver :: "nat \<Rightarrow> memory_space \<Rightarrow> (u32 \<times> nat, 'cb) nvme_driver" where
  "fresh_driver w m = \<lparr>link = (0, 0), mem = m, ncpus = of_nat w - 1, queues = new_queue # replicate (w - 1) new_queue, queue_count = 0,
     online_queues = 0, command_id_counter = 0, command_map = (\<lambda>c. None), ctrl_cap = 0x1f, ctrl_config = 0,
     ctrl_page_size = 0, queue_depth = 4, io_queue_depth = 4, db_stride = 1, dbbuf_dbs = 0, called = []\<rparr>"

lemma boot_admin_queue:
  assumes "pages_from 1 m" "mapped m = {0..<0x8000}" "iova_base m = 0" "bytes m = (\<lambda>x. 0)" "2 \<le> w"
  shows "\<exists>d. setup_admin_queue boot_ops (fresh_driver w m :: (u32 \<times> nat, 'cb) nvme_driver) = Inr d \<and> boot_at w 0 3 1 1 d"
proof -
  obtain m1 where m1: "allocate_pages 2048 m = Inr (0x1000, m1)" "pages_from 2 m1" "same_mem m m1"
    using allocate_page [OF assms(1), of 2048] unfolding Suc_1 by auto
  obtain m2 where m2: "allocate_pages 512 m1 = Inr (0x2000, m2)" "pages_from 3 m2" "same_mem m1 m2"
    using allocate_page [OF m1(2), of 512] by auto
  have same: "same_mem m m2" using m1(3) m2(3) by (rule same_mem_trans)
  then have map: "mapped m2 = {0..<0x8000}" "iova_base m2 = 0" "bytes m2 = (\<lambda>x. 0)"
    using assms by (simp_all add: same_mem_def mapped_def)
  let ?m = "store 0x2000 (replicate 512 0) m2"
  have set: "mem_set 0x2000 0 512 m2 = Inr ?m"
    using mem_set_mapped [of "0x2000" 512 m2 512 0] map by (simp add: block_def)
  have zero: "load ?m x 2 = [0, 0]" for x
    by (rule nth_equalityI) (auto simp: load_def store_def peek_bytes_def poke_bytes_def map less_2_cases_iff)
  have "pages_from 3 ?m"
    using m2(2) same_alloc_ok [of m2 ?m] by (simp add: pages_from_def)
  let ?d = "fresh_driver w m :: (u32 \<times> nat, 'cb) nvme_driver"
  let ?q = "new_queue\<lparr>sqe_shift := 6, depth := 32, sq_dma_addr := 0x1000, cq_dma_addr := 0x2000,
    q_db := 0x1000, cq_phase := 1\<rparr>"
  have off: "disable_controller boot_ops ?d = Inr ?d"
    by (simp add: disable_controller_def fresh_driver_def put_reg_def boot_regs wait_ready_def boot_poll)
  have alloc: "allocate_queue 0 NVME_AQ_DEPTH ?d = Inr (?d\<lparr>queues := ?q # replicate (w - 1) new_queue, mem := m2, queue_count := 1\<rparr>)"
    using m1(1) m2(1)
    by (simp add: allocate_queue_def fresh_driver_def get_queue_def set_queue_def SQ_SIZE_def CQ_SIZE_def
        NVME_AQ_DEPTH_def NVME_ADM_SQES_def doorbell_def new_queue_def Let_def)
  let ?on = "?d\<lparr>queues := ?q # replicate (w - 1) new_queue, mem := m2, queue_count := 1, link := (0x460001, 0),
    ctrl_page_size := 0x1000, ctrl_config := 0x460001\<rparr>"
  have enable: "enable_controller boot_ops (?d\<lparr>queues := ?q # replicate (w - 1) new_queue, mem := m2, queue_count := 1\<rparr>) = Inr ?on"
    by (simp add: enable_controller_def fresh_driver_def put_reg_def boot_regs wait_ready_def boot_poll Let_def
        NVME_CAP_MPSMIN_def NVME_CC_CSS_NVM_def NVME_CC_AMS_RR_def NVME_CC_SHN_NONE_def NVME_CC_IOSQES_def
        NVME_CC_IOCQES_def NVME_CC_ENABLE_def NVME_CC_IOSQES_SHIFT_def NVME_CC_IOCQES_SHIFT_def
        NVME_NVM_IOSQES_def NVME_NVM_IOCQES_def NVME_CSTS_RDY_def)
  let ?up = "?on\<lparr>mem := ?m, online_queues := 1\<rparr>"
  have init: "init_queue 0 ?on = Inr ?up"
    using set
    by (simp add: init_queue_def fresh_driver_def get_queue_def set_queue_def CQ_SIZE_def doorbell_def
        new_queue_def Let_def)
  have "setup_admin_queue boot_ops ?d = Inr ?up"
    using off alloc enable init
    by (simp add: setup_admin_queue_def get_queue_def put_reg_def boot_writel boot_regs fresh_driver_def)
  moreover have "boot_at w 0 3 1 1 ?up"
    using map zero \<open>pages_from 3 ?m\<close> assms(5)
    by (simp add: boot_at_def admin_at_def fresh_driver_def sq_ready_def cq_ready_def cq_at_def phase_at_def
        ring_mapped_def block_def new_queue_def)
  ultimately show ?thesis by blast
qed

lemma boot_start:
  assumes "SharedMemorySpace 0x8000 (\<lambda>x. 0) = Inr m" "w = 2 \<or> w = 3"
  shows "\<exists>d0 (d :: (u32 \<times> nat, 'cb) nvme_driver). NVMeDriver (of_nat w - 1) 4 (0, 0) m False 0 0 = Inr d0 \<and>
    start boot_ops boot_device Inr Inr d0 = Inr d \<and> boot_at w 4 5 2 2 d"
proof -
  have m: "pages_from 1 m" "mapped m = {0..<0x8000}" "iova_base m = 0" "bytes m = (\<lambda>x. 0)"
    using SharedMemorySpace_ok [of "0x8000" "\<lambda>x. 0"] assms(1) by (auto simp: pages_from_def mapped_def)
  obtain d1 :: "(u32 \<times> nat, 'cb) nvme_driver" where d1: "setup_admin_queue boot_ops (fresh_driver w m) = Inr d1" "boot_at w 0 3 1 1 d1"
    using boot_admin_queue [OF m, of w] assms(2) by auto
  obtain d2 where d2: "identify_controller boot_ops boot_device d1 = Inr (0, d2)" "boot_at w 1 3 1 1 d2"
    using boot_identify [OF d1(2)] by auto
  obtain d3 where d3: "setup_io_queues boot_ops boot_device d2 = Inr d3" "boot_at w 4 5 2 2 d3"
    using boot_io_queues [OF d2(2) _ assms(2)] by auto
  let ?d0 = "\<lparr>link = (0, 0), mem = m, ncpus = of_nat w - 1, queues = [], queue_count = 0, online_queues = 0,
    command_id_counter = 0, command_map = (\<lambda>i. None), ctrl_cap = 0, ctrl_config = 0, ctrl_page_size = 0,
    queue_depth = 0, io_queue_depth = 4, db_stride = 0, dbbuf_dbs = 0, called = []\<rparr> :: (u32 \<times> nat, 'cb) nvme_driver"
  have "NVMeDriver (of_nat w - 1) 4 (0, 0) m False 0 0 = Inr ?d0" by (simp add: NVMeDriver_def)
  moreover have "start boot_ops boot_device Inr Inr ?d0 = Inr d3"
  proof -
    have "dbbuf_dbs d3 = 0" using d3(2) by (simp add: boot_at_def)
    then have "reset boot_ops boot_device (?d0\<lparr>queues := new_queue # replicate (w - 1) new_queue\<rparr>) = Inr d3"
      using d1(1) d2(1) d3(1)
      by (simp add: reset_def boot_regs fresh_driver_def NVME_CAP_MQES_def NVME_CAP_STRIDE_def)
    moreover have "replicate (unat (of_nat w - 1 + 1 :: u32)) new_queue = new_queue # replicate (w - 1) new_queue"
    proof -
      have "unat (of_nat w - 1 + 1 :: u32) = Suc (w - 1)" using assms(2) by auto
      then show ?thesis by (simp only: replicate_Suc)
    qed
    ultimately show ?thesis by (simp add: start_def)
  qed
  ultimately show ?thesis using d3(2) by blast
qed

lemma boot_started:
  assumes "w = 2 \<or> w = 3"
  obtains m d0 d where "NVMeDriver (of_nat w - 1) 4 (0, 0) m False 0 0 = Inr d0"
    "start boot_ops boot_device Inr Inr d0 = Inr (d :: (u32 \<times> nat, 'cb) nvme_driver)" "boot_at w 4 5 2 2 d"
  using sample_memory boot_start [OF _ assms] by metis

theorem queue_indices_in_bounds_witness:
  "\<exists>m d0 d :: (u32 \<times> nat, nat) nvme_driver. NVMeDriver 1 4 (0, 0) m False 0 0 = Inr d0 \<and>
     start boot_ops boot_device Inr Inr d0 = Inr d \<and>
     (\<forall>l m'. let q = queues (d\<lparr>link := l, mem := m'\<rparr>) ! 0 in depth q = 32 \<and> unat (sq_tail q) < 32 \<and> unat (cq_head q) < 32)"
proof -
  obtain m d0 and d :: "(u32 \<times> nat, nat) nvme_driver" where d: "NVMeDriver 1 4 (0, 0) m False 0 0 = Inr d0"
    "start boot_ops boot_device Inr Inr d0 = Inr d" "boot_at 2 4 5 2 2 d"
    using boot_started [of 2] by auto
  then have dep: "depth (queues d ! 0) = 32" and "queues d \<noteq> []" by (auto simp: boot_at_def admin_at_def sq_ready_def)
  then have "unat (sq_tail (queues d ! 0)) < 32 \<and> unat (cq_head (queues d ! 0)) < 32"
    using queue_indices_in_bounds [OF d(1) _ d(2) driver_run.outside [OF started], where qi = 0 and q = "queues d ! 0"] dep
    by simp
  with d dep show ?thesis by (auto simp: Let_def)
qed

theorem refused_queue_overwrites_memory_witness:
  "\<exists>m d0 d d' :: (u32 \<times> nat, nat) nvme_driver. NVMeDriver 2 4 (0, 0) m False 0 0 = Inr d0 \<and>
     start boot_ops boot_device Inr Inr d0 = Inr d \<and> set_thread_id 2 d = Inr 2 \<and>
     submit_sq_command boot_ops 2 (replicate 64 7) True d = Inr d' \<and> load (mem d') 0 64 = replicate 64 7"
proof -
  obtain m d0 and d :: "(u32 \<times> nat, nat) nvme_driver" where d: "NVMeDriver 2 4 (0, 0) m False 0 0 = Inr d0"
    "start boot_ops boot_device Inr Inr d0 = Inr d" "boot_at 3 4 5 2 2 d"
    using boot_started [of 3] by auto
  have base: "iova_base (mem d) = 0" and ram: "mapped (mem d) = {0..<0x8000}"
    and "queue_count d = 2" "length (queues d) = 3"
    using d(3) by (simp_all add: boot_at_def admin_at_def)
  moreover have "unat (map_size (mem d)) = 0x8000" using arg_cong [OF ram, of card] base by (simp add: mapped_def)
  ultimately show ?thesis
    using refused_queue_overwrites_memory [OF d(1) _ d(2), of 2 "replicate 64 7" "link d"] d(1,2)
    by (auto simp: boot_writel)
qed

section \<open>The program starts\<close>

lemma boot_program:
  assumes "SharedMemorySpace 0x8000 (\<lambda>x. 0) = Inr m"
  shows "\<exists>w. start_program boot_ops boot_device Inr Inr unat boot_config (0, 0) m 0 0 = Inr (Some w)"
proof -
  obtain d0 and d :: "(u32 \<times> nat, completion) nvme_driver" where d: "NVMeDriver 1 4 (0, 0) m False 0 0 = Inr d0"
    "start boot_ops boot_device Inr Inr d0 = Inr d" "boot_at 2 4 5 2 2 d"
    using boot_start [OF assms, of 2] by auto
  have "\<exists>ts. create_threads unat boot_config 1 [boot_flow] = Inr (Some ts)"
    by (simp add: boot_config_def boot_flow_fields create_thread_def)
  then obtain ts where ts: "create_threads unat boot_config 1 (hc_flows boot_config) = Inr (Some ts)"
    by (auto simp: boot_config_def)
  have "length ts = 1" "thread_id (ts ! 0) = 1"
    using create_threads_eq [OF ts] created_thread_fields(1) by (fastforce simp: boot_config_def)+
  then have "\<forall>t \<in> set ts. unat (thread_id t) < length (queues d)"
    using d(3) by (auto simp: boot_at_def in_set_conv_nth)
  from run_threads_eq [OF this] d(1,2) ts show ?thesis
    by (simp add: start_program_def) (simp add: boot_config_def)
qed

definition boot_link :: "(u32 \<times> nat) pcie_link" where
  "boot_link = pcie_ops.extend boot_ops \<lparr>link_init = Pair True, link_map_dma = (\<lambda>m l. l),
     link_send_config = (\<lambda>c. Inr), link_wait_ready = Inr\<rparr>"


end
